(* ===== verification/Prelude.thy ===== *)
theory Prelude
  imports Main "HOL-Library.Word"
begin

text \<open>
  Shared vocabulary of the development.

  \<^item> The machine integers of the C sources on riscv64: \<open>uint8_t\<close> to \<open>uint64_t\<close>
    are words of that width (\<open>uintptr_t\<close>, \<open>size_t\<close> and pointers are 64 bits wide),
    and the collections of simplification rules the component theories fill.
  \<^item> The sequencing of C statements: a piece of code is a function from the state to an
    \<open>outcome\<close>, either a value with the new state or the reason the process stopped.
  \<^item> Little-endian reads of byte memory.
  \<^item> The generic rules that carry state invariants through sequenced code.
\<close>

unbundle bit_operations_syntax

section \<open>Machine integers\<close>

type_synonym u8 = "8 word"
type_synonym u16 = "16 word"
type_synonym u32 = "32 word"
type_synonym u64 = "64 word"

named_theorems riscv_const \<open>values of the named constants of the sources\<close>
named_theorems field_defs \<open>accessors generated by the bitfield macros\<close>
named_theorems prog_defs \<open>definitions of the sequenced code\<close>
named_theorems keeps_rules \<open>rules that carry a state invariant through sequenced code\<close>

text \<open>A word below \<open>2 ^ w\<close> has no bit at or above \<open>w\<close>.\<close>

lemma less_exp_bit_False:
  fixes f :: "'a::len word"
  assumes "f < 2 ^ w" and "w < LENGTH('a)" and "w \<le> n"
  shows "\<not> bit f n"
proof -
  have "f AND mask w = f"
    using assms(1,2) by (simp add: mask_eq_iff word_2p_lem word_size)
  then have "take_bit w f = f"
    by (simp add: take_bit_eq_mask)
  then have "bit f n = bit (take_bit w f) n" by simp
  also have "\<dots> = False" using assms(3) by (simp add: bit_take_bit_iff)
  finally show ?thesis by simp
qed

lemma less_expI:
  fixes x :: "'a::len word"
  assumes "\<And>n. bit x n \<Longrightarrow> n < w" and "w < LENGTH('a)"
  shows "x < 2 ^ w"
proof -
  have "x AND mask w = x"
    using assms(1) by (intro bit_word_eqI) (auto simp: bit_simps)
  then show ?thesis
    using assms(2) by (simp add: mask_eq_iff word_2p_lem word_size)
qed

lemma and_not_mask_eq: "v AND NOT (mask n) = (v :: u64) - take_bit n v"
proof -
  have "v - take_bit n v = v AND NOT (take_bit n v)"
    by (rule disjunctive_diff_eq_and_not) (simp add: take_bit_eq_mask bit_eq_iff bit_simps)
  also have "\<dots> = v AND NOT (mask n)"
    by (rule bit_word_eqI) (auto simp: bit_simps)
  finally show ?thesis by simp
qed

lemma low_two_bits: "v AND 3 = (v :: u64) mod 4" "v AND - 4 = v - v mod 4"
proof -
  have m: "(3 :: u64) = mask 2" by (simp add: mask_eq_decr_exp)
  have t: "take_bit 2 v = v mod 4" by (simp add: take_bit_eq_mod)
  show "v AND 3 = v mod 4" by (simp only: m take_bit_eq_mask [symmetric] t)
  have "v AND NOT 3 = v - v mod 4" by (simp only: m and_not_mask_eq t)
  then show "v AND - 4 = v - v mod 4" by simp
qed

section \<open>Sequenced code\<close>

text \<open>
  The ways in which code of the stub ends the process instead of going on.  The stub installs
  no handler for \<open>SIGTRAP\<close>, so an \<^verbatim>\<open>asm("ebreak")\<close> ends it; an access to an
  address that is not mapped, made while \<open>SIGSEGV\<close> is being handled, ends it too;
  \<open>exit_group\<close> ends it with a status; undefined behaviour of C is its own case.
\<close>

datatype stop = Ebreak | Segv | Exit u32 | Undefined

datatype ('s, 'a) outcome = Ok 'a 's | Stop stop 's

type_synonym ('s, 'a) prog = "'s \<Rightarrow> ('s, 'a) outcome"

definition ret :: "'a \<Rightarrow> ('s, 'a) prog" where
  "ret x = (\<lambda>s. Ok x s)"

definition halt :: "stop \<Rightarrow> ('s, 'a) prog" where
  "halt e = (\<lambda>s. Stop e s)"

definition andthen :: "('s, 'a) prog \<Rightarrow> ('a \<Rightarrow> ('s, 'b) prog) \<Rightarrow> ('s, 'b) prog" where
  "andthen m f = (\<lambda>s. case m s of Ok x s' \<Rightarrow> f x s' | Stop e s' \<Rightarrow> Stop e s')"

definition gets :: "('s \<Rightarrow> 'a) \<Rightarrow> ('s, 'a) prog" where
  "gets f = (\<lambda>s. Ok (f s) s)"

definition modify :: "('s \<Rightarrow> 's) \<Rightarrow> ('s, unit) prog" where
  "modify f = (\<lambda>s. Ok () (f s))"

definition skip :: "('s, unit) prog" where
  "skip = ret ()"

definition whenM :: "bool \<Rightarrow> ('s, unit) prog \<Rightarrow> ('s, unit) prog" where
  "whenM b m = (if b then m else skip)"

lemma ret_apply [simp]: "ret x s = Ok x s" by (simp add: ret_def)
lemma halt_apply [simp]: "halt e s = Stop e s" by (simp add: halt_def)
lemma gets_apply [simp]: "gets f s = Ok (f s) s" by (simp add: gets_def)
lemma modify_apply [simp]: "modify f s = Ok () (f s)" by (simp add: modify_def)
lemma skip_apply [simp]: "skip s = Ok () s" by (simp add: skip_def)

lemma andthen_apply:
  "andthen m f s = (case m s of Ok x s' \<Rightarrow> f x s' | Stop e s' \<Rightarrow> Stop e s')"
  by (simp add: andthen_def)

lemma andthen_Ok [simp]: "m s = Ok x s' \<Longrightarrow> andthen m f s = f x s'"
  by (simp add: andthen_apply)

lemma andthen_Stop [simp]: "m s = Stop e s' \<Longrightarrow> andthen m f s = Stop e s'"
  by (simp add: andthen_apply)

lemma andthen_eq_Ok:
  "andthen m f s = Ok y t \<longleftrightarrow> (\<exists>x s'. m s = Ok x s' \<and> f x s' = Ok y t)"
  by (auto simp: andthen_apply split: outcome.splits)

lemma andthen_assoc: "andthen (andthen m f) g = andthen m (\<lambda>x. andthen (f x) g)"
  by (rule ext) (simp add: andthen_apply split: outcome.splits)

lemma whenM_simps [simp]: "whenM True m = m" "whenM False m = skip"
  by (simp_all add: whenM_def)

section \<open>State invariants of sequenced code\<close>

text \<open>
  \<open>keeps I m\<close>: from a state with \<open>I\<close>, the code \<open>m\<close> leaves the state with \<open>I\<close>
  however it ends.
\<close>

fun outcome_state :: "('s, 'a) outcome \<Rightarrow> 's" where
  "outcome_state (Ok x s) = s"
| "outcome_state (Stop e s) = s"

definition keeps :: "('s \<Rightarrow> bool) \<Rightarrow> ('s, 'a) prog \<Rightarrow> bool" where
  "keeps I m \<longleftrightarrow> (\<forall>s. I s \<longrightarrow> I (outcome_state (m s)))"

lemma keepsI: "(\<And>s. I s \<Longrightarrow> I (outcome_state (m s))) \<Longrightarrow> keeps I m"
  by (simp add: keeps_def)

lemma keepsD: "keeps I m \<Longrightarrow> I s \<Longrightarrow> m s = Ok x s' \<Longrightarrow> I s'"
  by (auto simp: keeps_def dest!: spec [where x = s])

lemma keepsD_Stop: "keeps I m \<Longrightarrow> I s \<Longrightarrow> m s = Stop e s' \<Longrightarrow> I s'"
  by (auto simp: keeps_def dest!: spec [where x = s])

lemma keeps_ret [keeps_rules]: "keeps I (ret x)"
  by (simp add: keeps_def)

lemma keeps_halt [keeps_rules]: "keeps I (halt e)"
  by (simp add: keeps_def)

lemma keeps_gets [keeps_rules]: "keeps I (gets f)"
  by (simp add: keeps_def)

lemma keeps_skip [keeps_rules]: "keeps I skip"
  by (simp add: keeps_def)

lemma keeps_modify: "(\<And>s. I s \<Longrightarrow> I (f s)) \<Longrightarrow> keeps I (modify f)"
  by (simp add: keeps_def)

lemma keeps_andthen [keeps_rules]:
  assumes "keeps I m" and "\<And>x. keeps I (f x)"
  shows "keeps I (andthen m f)"
proof (rule keepsI)
  fix s assume I: "I s"
  show "I (outcome_state (andthen m f s))"
  proof (cases "m s")
    case (Ok x s')
    then have "I s'" using assms(1) I by (blast dest: keepsD)
    then show ?thesis using assms(2) [of x] Ok by (simp add: keeps_def)
  next
    case (Stop e s')
    then show ?thesis using assms(1) I by (auto dest: keepsD_Stop)
  qed
qed

lemma keeps_if [keeps_rules]:
  "(b \<Longrightarrow> keeps I m) \<Longrightarrow> (\<not> b \<Longrightarrow> keeps I n) \<Longrightarrow> keeps I (if b then m else n)"
  by simp

lemma keeps_whenM [keeps_rules]: "(b \<Longrightarrow> keeps I m) \<Longrightarrow> keeps I (whenM b m)"
  by (cases b) (simp_all add: keeps_skip)

lemma keeps_let [keeps_rules]: "keeps I (f x) \<Longrightarrow> keeps I (let y = x in f y)"
  by simp

lemma keeps_option [keeps_rules]:
  "(v = None \<Longrightarrow> keeps I m) \<Longrightarrow> (\<And>x. v = Some x \<Longrightarrow> keeps I (f x)) \<Longrightarrow>
   keeps I (case v of None \<Rightarrow> m | Some x \<Rightarrow> f x)"
  by (cases v) simp_all

lemma keeps_list [keeps_rules]:
  "(xs = [] \<Longrightarrow> keeps I m) \<Longrightarrow> (\<And>y ys. xs = y # ys \<Longrightarrow> keeps I (f y ys)) \<Longrightarrow>
   keeps I (case xs of [] \<Rightarrow> m | y # ys \<Rightarrow> f y ys)"
  by (cases xs) simp_all

lemma keeps_pair [keeps_rules]:
  "(\<And>a b. x = (a, b) \<Longrightarrow> keeps I (f a b)) \<Longrightarrow> keeps I (case x of (a, b) \<Rightarrow> f a b)"
  by (cases x) simp

section \<open>Little-endian reads\<close>

text \<open>
  Memory as the process sees it: \<open>None\<close> is an address at which a read faults.
\<close>

type_synonym mem = "u64 \<Rightarrow> u8 option"

definition read8 :: "mem \<Rightarrow> u64 \<Rightarrow> u8 option" where
  "read8 m a = m a"

definition read16 :: "mem \<Rightarrow> u64 \<Rightarrow> u16 option" where
  "read16 m a = (case (m a, m (a + 1)) of
     (Some b0, Some b1) \<Rightarrow> Some (ucast b0 OR push_bit 8 (ucast b1))
   | _ \<Rightarrow> None)"

definition read32 :: "mem \<Rightarrow> u64 \<Rightarrow> u32 option" where
  "read32 m a = (case (read16 m a, read16 m (a + 2)) of
     (Some h0, Some h1) \<Rightarrow> Some (ucast h0 OR push_bit 16 (ucast h1))
   | _ \<Rightarrow> None)"

definition read64 :: "mem \<Rightarrow> u64 \<Rightarrow> u64 option" where
  "read64 m a = (case (read32 m a, read32 m (a + 4)) of
     (Some w0, Some w1) \<Rightarrow> Some (ucast w0 OR push_bit 32 (ucast w1))
   | _ \<Rightarrow> None)"

end
