(* ===== verification/Syscalls.thy ===== *)
theory Syscalls
  imports Prelude
begin

text \<open>
  The system call layer of the stub: \<^verbatim>\<open>src/src/urvirt-stub/internal-syscall.h\<close>,
  \<^verbatim>\<open>src/src/urvirt-stub/urvirt-syscalls.h\<close> and the constants of
  \<^verbatim>\<open>src/src/common/common.h\<close>.

  The Linux kernel is not part of the sources, so it is a parameter: an \<open>env\<close> answers each
  \<open>ecall\<close> as a function of the calls made so far, and gives the memory the process sees, the
  contents of the file behind \<open>RAM_FD\<close> and the \<open>time\<close> counter, again after the calls made so
  far.  Quantifying over \<open>env\<close> covers every kernel and every interleaving with it.  The
  state of the code in this layer is the trace of the calls.  A pointer argument to an object
  of the caller is represented by the object.
\<close>

section \<open>Data passed to the kernel\<close>

text \<open>The numbers of \<^verbatim>\<open><syscall.h>\<close> that the stub uses, by name.\<close>

datatype sysno =
    SYS_exit_group | SYS_munmap | SYS_mmap | SYS_sigaltstack | SYS_rt_sigaction | SYS_write
  | SYS_seccomp | SYS_riscv_flush_icache | SYS_timer_create | SYS_timer_settime | SYS_read
  | SYS_fcntl | SYS_pread64 | SYS_pwrite64 | SYS_prctl | SYS_rt_sigreturn

record itimerspec =
  interval_sec :: u64
  interval_nsec :: u64
  value_sec :: u64
  value_nsec :: u64

record sock_filter =
  bpf_code :: u16
  bpf_jt :: u8
  bpf_jf :: u8
  bpf_k :: u32

record stack_t =
  ss_sp :: u64
  ss_flags :: u32
  ss_size :: u64

text \<open>
  \<open>struct kernel_sigaction\<close>: the handler, the flags, and the signal mask as its
  sixteen 64-bit words.
\<close>

record kernel_sigaction =
  sa_sigaction :: u64
  sa_flags :: u64
  sa_mask :: "u64 list"

record sigevent =
  sigev_notify :: u32
  sigev_signo :: u32
  sival_int :: u32

datatype sysarg =
    Reg u64                    \<comment> \<open>a value, or an address of the guest\<close>
  | Bytes "u8 list"            \<comment> \<open>a pointer to bytes of the caller\<close>
  | OutPtr                     \<comment> \<open>a pointer to an object the kernel fills\<close>
  | ItimerspecPtr itimerspec
  | FprogPtr "sock_filter list"
  | StackPtr stack_t
  | SigactionPtr kernel_sigaction
  | SigeventPtr sigevent

datatype ecall = Ecall sysno "sysarg list"

section \<open>The environment and the trace\<close>

text \<open>
  Every component of the environment takes the trace of calls up to now, the call it answers
  included.
  \<^item> \<open>sysret\<close>: what the last call left in \<open>a0\<close>;
  \<^item> \<open>sysout\<close>: the bytes it stored through its \<open>OutPtr\<close>;
  \<^item> \<open>gmem\<close>: the memory the process can read;
  \<^item> \<open>ramf\<close>: the byte at an offset of the file \<open>RAM_FD\<close>;
  \<^item> \<open>rdtime\<close>: the \<open>time\<close> counter.
\<close>

record env =
  sysret :: "ecall list \<Rightarrow> u64"
  sysout :: "ecall list \<Rightarrow> u8 list"
  gmem :: "ecall list \<Rightarrow> mem"
  ramf :: "ecall list \<Rightarrow> u64 \<Rightarrow> u8"
  rdtime :: "ecall list \<Rightarrow> u64"

text \<open>An environment in which every call returns 0 and no memory is mapped.\<close>

definition idle_env :: env where
  "idle_env = \<lparr>sysret = (\<lambda>_. 0), sysout = (\<lambda>_. []), gmem = (\<lambda>_ _. None), ramf = (\<lambda>_ _. 0),
     rdtime = (\<lambda>_. 0)\<rparr>"

record world =
  trace :: "ecall list"

definition ecall :: "env \<Rightarrow> sysno \<Rightarrow> sysarg list \<Rightarrow> ('x world_scheme, u64) prog" where
  "ecall E n args = (\<lambda>s. let t = trace s @ [Ecall n args] in Ok (sysret E t) (s\<lparr>trace := t\<rparr>))"

definition internal_syscall ::
  "env \<Rightarrow> sysno \<Rightarrow> int \<Rightarrow> sysarg \<Rightarrow> sysarg \<Rightarrow> sysarg \<Rightarrow> sysarg \<Rightarrow> sysarg \<Rightarrow> sysarg \<Rightarrow>
   ('x world_scheme, u64) prog" where
  "internal_syscall E n argc a0 a1 a2 a3 a4 a5 =
     (if argc < 2 then ecall E n [a0]
      else if argc = 2 then ecall E n [a0, a1]
      else if argc = 3 then ecall E n [a0, a1, a2]
      else if argc = 4 then ecall E n [a0, a1, a2, a3]
      else if argc = 5 then ecall E n [a0, a1, a2, a3, a4]
      else ecall E n [a0, a1, a2, a3, a4, a5])"

section \<open>The wrappers\<close>

abbreviation zero_arg :: sysarg where "zero_arg \<equiv> Reg 0"

text \<open>\<open>(uintptr_t)\<close> applied to an \<open>int\<close> extends its sign.\<close>

abbreviation int_arg :: "u32 \<Rightarrow> sysarg" where "int_arg i \<equiv> Reg (scast i)"

definition s_exit_group :: "env \<Rightarrow> u32 \<Rightarrow> ('x world_scheme, unit) prog" where
  "s_exit_group E status =
     andthen (internal_syscall E SYS_exit_group 1 (int_arg status)
        zero_arg zero_arg zero_arg zero_arg zero_arg)
     (\<lambda>_. halt (Exit status))"

definition s_munmap :: "env \<Rightarrow> u64 \<Rightarrow> u64 \<Rightarrow> ('x world_scheme, u32) prog" where
  "s_munmap E addr len =
     andthen (internal_syscall E SYS_munmap 2 (Reg addr) (Reg len)
        zero_arg zero_arg zero_arg zero_arg)
     (\<lambda>r. ret (ucast r))"

definition s_mmap ::
  "env \<Rightarrow> u64 \<Rightarrow> u64 \<Rightarrow> u32 \<Rightarrow> u32 \<Rightarrow> u32 \<Rightarrow> u64 \<Rightarrow> ('x world_scheme, u64) prog" where
  "s_mmap E addr len prot flags fd pgoffset =
     internal_syscall E SYS_mmap 6 (Reg addr) (Reg len) (int_arg prot) (int_arg flags)
       (int_arg fd) (Reg pgoffset)"

definition s_sigaltstack :: "env \<Rightarrow> stack_t \<Rightarrow> ('x world_scheme, u32) prog" where
  "s_sigaltstack E ss =
     andthen (internal_syscall E SYS_sigaltstack 2 (StackPtr ss) zero_arg
        zero_arg zero_arg zero_arg zero_arg)
     (\<lambda>r. ret (ucast r))"

definition s_rt_sigaction :: "env \<Rightarrow> u32 \<Rightarrow> kernel_sigaction \<Rightarrow> ('x world_scheme, u32) prog" where
  "s_rt_sigaction E sig act =
     andthen (internal_syscall E SYS_rt_sigaction 4 (int_arg sig) (SigactionPtr act) zero_arg (Reg 8)
        zero_arg zero_arg)
     (\<lambda>r. ret (ucast r))"

definition s_write :: "env \<Rightarrow> u32 \<Rightarrow> u8 list \<Rightarrow> u64 \<Rightarrow> ('x world_scheme, u64) prog" where
  "s_write E fd buf count =
     internal_syscall E SYS_write 3 (int_arg fd) (Bytes buf) (Reg count) zero_arg zero_arg zero_arg"

definition s_seccomp :: "env \<Rightarrow> u32 \<Rightarrow> u32 \<Rightarrow> sock_filter list \<Rightarrow> ('x world_scheme, u32) prog" where
  "s_seccomp E operation flags args =
     andthen (internal_syscall E SYS_seccomp 3 (Reg (ucast operation)) (Reg (ucast flags))
        (FprogPtr args) zero_arg zero_arg zero_arg)
     (\<lambda>r. ret (ucast r))"

definition s_riscv_flush_icache ::
  "env \<Rightarrow> u64 \<Rightarrow> u64 \<Rightarrow> u64 \<Rightarrow> ('x world_scheme, unit) prog" where
  "s_riscv_flush_icache E start end_addr flags =
     andthen (internal_syscall E SYS_riscv_flush_icache 3 (Reg start) (Reg end_addr) (Reg flags)
        zero_arg zero_arg zero_arg)
     (\<lambda>_. skip)"

text \<open>
  The two timer wrappers have no \<open>return\<close> statement; their callers ignore the result.  What
  the kernel stores through \<open>timerid\<close> is \<open>sysout\<close>.
\<close>

definition s_timer_create :: "env \<Rightarrow> u32 \<Rightarrow> sigevent \<Rightarrow> ('x world_scheme, u8 list) prog" where
  "s_timer_create E clockid sevp =
     andthen (internal_syscall E SYS_timer_create 3 (int_arg clockid) (SigeventPtr sevp) OutPtr
        zero_arg zero_arg zero_arg)
     (\<lambda>_. gets (\<lambda>s. sysout E (trace s)))"

definition s_timer_settime ::
  "env \<Rightarrow> u64 \<Rightarrow> u32 \<Rightarrow> itimerspec \<Rightarrow> ('x world_scheme, unit) prog" where
  "s_timer_settime E timerid flags new_value =
     andthen (internal_syscall E SYS_timer_settime 4 (Reg timerid) (int_arg flags)
        (ItimerspecPtr new_value) zero_arg zero_arg zero_arg)
     (\<lambda>_. skip)"

text \<open>\<open>s_read\<close> returns what the call returned and the bytes stored in the buffer.\<close>

definition s_read :: "env \<Rightarrow> u32 \<Rightarrow> u64 \<Rightarrow> ('x world_scheme, u64 \<times> u8 list) prog" where
  "s_read E fd count =
     andthen (internal_syscall E SYS_read 3 (int_arg fd) OutPtr (Reg count)
        zero_arg zero_arg zero_arg)
     (\<lambda>r. gets (\<lambda>s. (r, sysout E (trace s))))"

definition s_fcntl :: "env \<Rightarrow> u32 \<Rightarrow> u32 \<Rightarrow> u32 \<Rightarrow> ('x world_scheme, u32) prog" where
  "s_fcntl E fd cmd arg =
     andthen (internal_syscall E SYS_fcntl 3 (int_arg fd) (int_arg cmd) (int_arg arg)
        zero_arg zero_arg zero_arg)
     (\<lambda>r. ret (ucast r))"

text \<open>The buffers of \<open>s_pread64\<close> and \<open>s_pwrite64\<close> are addresses of the guest.\<close>

definition s_pread64 ::
  "env \<Rightarrow> u32 \<Rightarrow> u64 \<Rightarrow> u64 \<Rightarrow> u64 \<Rightarrow> ('x world_scheme, u64) prog" where
  "s_pread64 E fd buf count offset =
     internal_syscall E SYS_pread64 4 (int_arg fd) (Reg buf) (Reg count) (Reg offset)
       zero_arg zero_arg"

definition s_pwrite64 ::
  "env \<Rightarrow> u32 \<Rightarrow> u64 \<Rightarrow> u64 \<Rightarrow> u64 \<Rightarrow> ('x world_scheme, u64) prog" where
  "s_pwrite64 E fd buf count offset =
     internal_syscall E SYS_pwrite64 4 (int_arg fd) (Reg buf) (Reg count) (Reg offset)
       zero_arg zero_arg"

definition s_prctl ::
  "env \<Rightarrow> u32 \<Rightarrow> u64 \<Rightarrow> u64 \<Rightarrow> u64 \<Rightarrow> u64 \<Rightarrow> ('x world_scheme, u64) prog" where
  "s_prctl E option arg2 arg3 arg4 arg5 =
     internal_syscall E SYS_prctl 5 (int_arg option) (Reg arg2) (Reg arg3) (Reg arg4) (Reg arg5)
       zero_arg"

definition bytes_of :: "string \<Rightarrow> u8 list" where
  "bytes_of str = map of_char str"

definition newline :: string where
  "newline = [CHR 0x0A]"

definition write_log :: "env \<Rightarrow> string \<Rightarrow> ('x world_scheme, unit) prog" where
  "write_log E str =
     (let msg = bytes_of (''[urvirt] '' @ str @ newline)
      in andthen (s_write E 2 msg (of_nat (length msg))) (\<lambda>_. skip))"

section \<open>Constants shared by loader and stub\<close>

definition CONFIG_FD :: u32 where [riscv_const]: "CONFIG_FD = 64"
definition RAM_FD :: u32 where [riscv_const]: "RAM_FD = 65"
definition KERNEL_FD :: u32 where [riscv_const]: "KERNEL_FD = 66"
definition BLOCK_FD :: u32 where [riscv_const]: "BLOCK_FD = 67"

definition RAM_START :: u64 where [riscv_const]: "RAM_START = 0x80000000"
definition RAM_SIZE :: u64 where [riscv_const]: "RAM_SIZE = push_bit 20 16"
definition SIGSTACK_SIZE :: u64 where [riscv_const]: "SIGSTACK_SIZE = 4096"
definition KERNEL_START :: u64 where [riscv_const]: "KERNEL_START = 0x80200000"
definition CONF_SIZE :: u64 where [riscv_const]: "CONF_SIZE = 4096"

text \<open>The values of \<^verbatim>\<open><sys/mman.h>\<close> on Linux.\<close>

definition PROT_READ :: u32 where [riscv_const]: "PROT_READ = 1"
definition PROT_WRITE :: u32 where [riscv_const]: "PROT_WRITE = 2"
definition PROT_EXEC :: u32 where [riscv_const]: "PROT_EXEC = 4"
definition MAP_SHARED :: u32 where [riscv_const]: "MAP_SHARED = 1"
definition MAP_PRIVATE :: u32 where [riscv_const]: "MAP_PRIVATE = 2"
definition MAP_FIXED :: u32 where [riscv_const]: "MAP_FIXED = 0x10"
definition MAP_ANONYMOUS :: u32 where [riscv_const]: "MAP_ANONYMOUS = 0x20"
definition MAP_STACK :: u32 where [riscv_const]: "MAP_STACK = 0x20000"
definition MAP_FIXED_NOREPLACE :: u32 where [riscv_const]: "MAP_FIXED_NOREPLACE = 0x100000"

text \<open>
  A failed system call returns \<open>-errno\<close>, a value in the last page of the address space.
  Nothing is mapped there, so an access through such a pointer faults.
\<close>

definition is_err :: "u64 \<Rightarrow> bool" where
  "is_err p \<longleftrightarrow> - 4095 \<le> p"

definition deref :: "u64 \<Rightarrow> ('s, unit) prog" where
  "deref p = (if is_err p then halt Segv else skip)"

text \<open>A read of the process memory as it is now; an unmapped address is a fault.\<close>

definition load ::
  "env \<Rightarrow> (mem \<Rightarrow> u64 \<Rightarrow> 'a option) \<Rightarrow> u64 \<Rightarrow> ('x world_scheme, 'a) prog" where
  "load E rd a = andthen (gets (\<lambda>s. rd (gmem E (trace s)) a))
     (\<lambda>v. case v of None \<Rightarrow> halt Segv | Some x \<Rightarrow> ret x)"

section \<open>What the layer promises\<close>

text \<open>
  The calls a wrapper makes: every wrapper appends exactly one call to the trace and touches
  nothing else.  The equations below are the interface the components use.
\<close>

lemmas syscall_defs =
  s_exit_group_def s_munmap_def s_mmap_def s_sigaltstack_def s_rt_sigaction_def s_write_def
  s_seccomp_def s_riscv_flush_icache_def s_timer_create_def s_timer_settime_def s_read_def
  s_fcntl_def s_pread64_def s_pwrite64_def s_prctl_def

lemma ecall_apply:
  "ecall E n args s = Ok (sysret E (trace s @ [Ecall n args])) (s\<lparr>trace := trace s @ [Ecall n args]\<rparr>)"
  by (simp add: ecall_def Let_def)

lemma s_munmap_apply [simp]:
  "s_munmap E a l s = (let t = trace s @ [Ecall SYS_munmap [Reg a, Reg l]]
     in Ok (ucast (sysret E t)) (s\<lparr>trace := t\<rparr>))"
  by (simp add: s_munmap_def internal_syscall_def ecall_apply Let_def)

lemma s_mmap_apply [simp]:
  "s_mmap E a l p f d off s =
    (let t = trace s @ [Ecall SYS_mmap [Reg a, Reg l, int_arg p, int_arg f, int_arg d, Reg off]]
     in Ok (sysret E t) (s\<lparr>trace := t\<rparr>))"
  by (simp add: s_mmap_def internal_syscall_def ecall_apply Let_def)

lemma s_write_apply [simp]:
  "s_write E fd buf n s = (let t = trace s @ [Ecall SYS_write [int_arg fd, Bytes buf, Reg n]]
     in Ok (sysret E t) (s\<lparr>trace := t\<rparr>))"
  by (simp add: s_write_def internal_syscall_def ecall_apply Let_def)

lemma s_read_apply [simp]:
  "s_read E fd n s = (let t = trace s @ [Ecall SYS_read [int_arg fd, OutPtr, Reg n]]
     in Ok (sysret E t, sysout E t) (s\<lparr>trace := t\<rparr>))"
  by (simp add: s_read_def internal_syscall_def ecall_apply Let_def)

lemma s_pread64_apply [simp]:
  "s_pread64 E fd b n off s =
    (let t = trace s @ [Ecall SYS_pread64 [int_arg fd, Reg b, Reg n, Reg off]]
     in Ok (sysret E t) (s\<lparr>trace := t\<rparr>))"
  by (simp add: s_pread64_def internal_syscall_def ecall_apply Let_def)

lemma s_pwrite64_apply [simp]:
  "s_pwrite64 E fd b n off s =
    (let t = trace s @ [Ecall SYS_pwrite64 [int_arg fd, Reg b, Reg n, Reg off]]
     in Ok (sysret E t) (s\<lparr>trace := t\<rparr>))"
  by (simp add: s_pwrite64_def internal_syscall_def ecall_apply Let_def)

lemma s_timer_settime_apply [simp]:
  "s_timer_settime E i f v s =
    (let t = trace s @ [Ecall SYS_timer_settime [Reg i, int_arg f, ItimerspecPtr v, Reg 0]]
     in Ok () (s\<lparr>trace := t\<rparr>))"
  by (simp add: s_timer_settime_def internal_syscall_def ecall_apply Let_def)

lemma s_exit_group_apply [simp]:
  "s_exit_group E st s = Stop (Exit st) (s\<lparr>trace := trace s @ [Ecall SYS_exit_group [int_arg st]]\<rparr>)"
  by (simp add: s_exit_group_def internal_syscall_def ecall_apply)

text \<open>The bytes a log message writes to standard error.\<close>

definition log_call :: "string \<Rightarrow> ecall" where
  "log_call str = (let msg = bytes_of (''[urvirt] '' @ str @ newline)
     in Ecall SYS_write [int_arg 2, Bytes msg, Reg (of_nat (length msg))])"

lemma write_log_apply [simp]:
  "write_log E str s = Ok () (s\<lparr>trace := trace s @ [log_call str]\<rparr>)"
  by (simp add: write_log_def log_call_def Let_def)

lemma deref_apply: "deref p s = (if is_err p then Stop Segv s else Ok () s)"
  by (simp add: deref_def)

lemma load_apply:
  "load E rd a s = (case rd (gmem E (trace s)) a of None \<Rightarrow> Stop Segv s | Some x \<Rightarrow> Ok x s)"
  by (simp add: load_def split: option.split)

text \<open>
  A state invariant that survives every call allowed by \<open>P\<close> survives the code that makes
  only such calls.
\<close>

locale call_inv =
  fixes I :: "'x world_scheme \<Rightarrow> bool"
    and P :: "ecall \<Rightarrow> bool"
  assumes call: "I s \<Longrightarrow> P e \<Longrightarrow> I (s\<lparr>trace := trace s @ [e]\<rparr>)"
begin

lemma keeps_munmap [keeps_rules]:
  "P (Ecall SYS_munmap [Reg a, Reg l]) \<Longrightarrow> keeps I (s_munmap E a l)"
  by (simp add: keeps_def Let_def call)

lemma keeps_mmap [keeps_rules]:
  "P (Ecall SYS_mmap [Reg a, Reg l, int_arg p, int_arg f, int_arg d, Reg off]) \<Longrightarrow>
   keeps I (s_mmap E a l p f d off)"
  by (simp add: keeps_def Let_def call)

lemma keeps_write [keeps_rules]:
  "P (Ecall SYS_write [int_arg fd, Bytes b, Reg n]) \<Longrightarrow> keeps I (s_write E fd b n)"
  by (simp add: keeps_def Let_def call)

lemma keeps_read [keeps_rules]:
  "P (Ecall SYS_read [int_arg fd, OutPtr, Reg n]) \<Longrightarrow> keeps I (s_read E fd n)"
  by (simp add: keeps_def Let_def call)

lemma keeps_pread64 [keeps_rules]:
  "P (Ecall SYS_pread64 [int_arg fd, Reg b, Reg n, Reg off]) \<Longrightarrow> keeps I (s_pread64 E fd b n off)"
  by (simp add: keeps_def Let_def call)

lemma keeps_pwrite64 [keeps_rules]:
  "P (Ecall SYS_pwrite64 [int_arg fd, Reg b, Reg n, Reg off]) \<Longrightarrow> keeps I (s_pwrite64 E fd b n off)"
  by (simp add: keeps_def Let_def call)

lemma keeps_timer_settime [keeps_rules]:
  "P (Ecall SYS_timer_settime [Reg i, int_arg f, ItimerspecPtr v, Reg 0]) \<Longrightarrow>
   keeps I (s_timer_settime E i f v)"
  by (simp add: keeps_def Let_def call)

lemma keeps_exit_group [keeps_rules]:
  "P (Ecall SYS_exit_group [int_arg st]) \<Longrightarrow> keeps I (s_exit_group E st)"
  by (simp add: keeps_def call)

lemma keeps_write_log [keeps_rules]: "P (log_call str) \<Longrightarrow> keeps I (write_log E str)"
  by (simp add: keeps_def call)

end

lemma keeps_deref [keeps_rules]: "keeps I (deref p)"
  by (simp add: keeps_def deref_apply)

lemma keeps_load [keeps_rules]: "keeps I (load E rd a)"
  by (simp add: keeps_def load_apply split: option.split)

end
