(* ===== verification/Seccomp.thy ===== *)
theory Seccomp
  imports Syscalls
begin

text \<open>
  \<^verbatim>\<open>src/src/urvirt-stub/seccomp-bpf.c\<close>: the generated filter that turns every system
  call made outside the stub into a \<open>SIGSYS\<close>.

  The filter is a program for the classic BPF machine of the Linux kernel, which is not part
  of the sources.  The machine is the parameter of the locale \<open>cbpf\<close>, whose laws are the
  documented meaning of the five instruction forms the filter uses; \<open>bpf_exec\<close> is an
  executable machine on which the locale is interpreted.
\<close>

section \<open>Definitions\<close>

text \<open>Values of \<^verbatim>\<open><linux/filter.h>\<close> and \<^verbatim>\<open><linux/seccomp.h>\<close>.\<close>

definition BPF_LD :: u16 where [riscv_const]: "BPF_LD = 0x00"
definition BPF_JMP :: u16 where [riscv_const]: "BPF_JMP = 0x05"
definition BPF_RET :: u16 where [riscv_const]: "BPF_RET = 0x06"
definition BPF_W :: u16 where [riscv_const]: "BPF_W = 0x00"
definition BPF_ABS :: u16 where [riscv_const]: "BPF_ABS = 0x20"
definition BPF_JEQ :: u16 where [riscv_const]: "BPF_JEQ = 0x10"
definition BPF_JGT :: u16 where [riscv_const]: "BPF_JGT = 0x20"
definition BPF_JGE :: u16 where [riscv_const]: "BPF_JGE = 0x30"
definition BPF_K :: u16 where [riscv_const]: "BPF_K = 0x00"
definition SECCOMP_RET_ALLOW :: u32 where [riscv_const]: "SECCOMP_RET_ALLOW = 0x7fff0000"
definition SECCOMP_RET_TRAP :: u32 where [riscv_const]: "SECCOMP_RET_TRAP = 0x00030000"

definition BPF_STMT :: "u16 \<Rightarrow> u32 \<Rightarrow> sock_filter" where
  "BPF_STMT c v = \<lparr>bpf_code = c, bpf_jt = 0, bpf_jf = 0, bpf_k = v\<rparr>"

definition BPF_JUMP :: "u16 \<Rightarrow> u32 \<Rightarrow> u8 \<Rightarrow> u8 \<Rightarrow> sock_filter" where
  "BPF_JUMP c v t f = \<lparr>bpf_code = c, bpf_jt = t, bpf_jf = f, bpf_k = v\<rparr>"

text \<open>The offset of \<open>instruction_pointer\<close> in \<open>struct seccomp_data\<close> is 8.\<close>

definition SC_IP_LOW :: u32 where [riscv_const]: "SC_IP_LOW = 8"
definition SC_IP_HIGH :: u32 where [riscv_const]: "SC_IP_HIGH = SC_IP_LOW + 4"

definition load_high :: sock_filter where
  "load_high = BPF_STMT (BPF_LD OR BPF_W OR BPF_ABS) SC_IP_HIGH"

definition load_low :: sock_filter where
  "load_low = BPF_STMT (BPF_LD OR BPF_W OR BPF_ABS) SC_IP_LOW"

definition addr_filter :: "u64 \<Rightarrow> u64 \<Rightarrow> sock_filter list" where
  "addr_filter start_addr end_addr =
     (let start_addr_high = ucast (drop_bit 32 start_addr); start_addr_low = ucast start_addr;
          end_addr_high = ucast (drop_bit 32 end_addr); end_addr_low = ucast end_addr
      in [
        load_high,
        BPF_JUMP (BPF_JMP OR BPF_JEQ) start_addr_high 0 2,
        load_low,
        BPF_JUMP (BPF_JMP OR BPF_JGE) start_addr_low 1 7,
        BPF_JUMP (BPF_JMP OR BPF_JGT) start_addr_high 0 6,
        load_high,
        BPF_JUMP (BPF_JMP OR BPF_JEQ) end_addr_high 0 2,
        load_low,
        BPF_JUMP (BPF_JMP OR BPF_JGE) end_addr_low 2 1,
        BPF_JUMP (BPF_JMP OR BPF_JGT) end_addr_high 1 0,
        BPF_STMT (BPF_RET OR BPF_K) SECCOMP_RET_ALLOW,
        BPF_STMT (BPF_RET OR BPF_K) SECCOMP_RET_TRAP])"

text \<open>
  \<open>gen_addr_filter\<close> copies the instructions over the beginning of the caller's array, entry by
  entry, and returns their number.
\<close>

fun copy_over :: "'a list \<Rightarrow> 'a list \<Rightarrow> nat \<Rightarrow> 'a list" where
  "copy_over out [] i = out"
| "copy_over out (x # xs) i = copy_over (out[i := x]) xs (Suc i)"

definition gen_addr_filter :: "u64 \<Rightarrow> u64 \<Rightarrow> sock_filter list \<Rightarrow> sock_filter list \<times> nat" where
  "gen_addr_filter start_addr end_addr out =
     (let filt = addr_filter start_addr end_addr in (copy_over out filt 0, length filt))"

text \<open>
  An executable machine: accumulator \<open>a\<close>, program counter \<open>n\<close>, \<open>d\<close> the 32-bit load at
  an offset of \<open>struct seccomp_data\<close>.  \<open>None\<close> is a program the kernel would refuse.
\<close>

function bpf_exec :: "sock_filter list \<Rightarrow> (u32 \<Rightarrow> u32) \<Rightarrow> nat \<Rightarrow> u32 \<Rightarrow> u32 option" where
  "bpf_exec p d n a =
     (if n < length p then
        (let i = p ! n; c = bpf_code i;
             jump = (\<lambda>b. n + 1 + unat (if b then bpf_jt i else bpf_jf i))
         in if c = BPF_LD OR BPF_W OR BPF_ABS then bpf_exec p d (n + 1) (d (bpf_k i))
            else if c = BPF_JMP OR BPF_JEQ then bpf_exec p d (jump (a = bpf_k i)) a
            else if c = BPF_JMP OR BPF_JGT then bpf_exec p d (jump (bpf_k i < a)) a
            else if c = BPF_JMP OR BPF_JGE then bpf_exec p d (jump (bpf_k i \<le> a)) a
            else if c = BPF_RET OR BPF_K then Some (bpf_k i)
            else None)
      else None)"
  by pat_completeness auto
termination
  by (relation "measure (\<lambda>(p, d, n, a). length p - n)") auto

declare bpf_exec.simps [simp del]

section \<open>The machine as an interface\<close>

lemmas bpf_ops = BPF_LD_def BPF_JMP_def BPF_RET_def BPF_W_def BPF_ABS_def BPF_JEQ_def BPF_JGT_def
  BPF_JGE_def BPF_K_def

locale cbpf =
  fixes run :: "sock_filter list \<Rightarrow> (u32 \<Rightarrow> u32) \<Rightarrow> nat \<Rightarrow> u32 \<Rightarrow> u32 option"
  assumes ld_abs: "n < length p \<Longrightarrow> p ! n = BPF_STMT (BPF_LD OR BPF_W OR BPF_ABS) off \<Longrightarrow>
      run p d n a = run p d (n + 1) (d off)"
    and jeq: "n < length p \<Longrightarrow> p ! n = BPF_JUMP (BPF_JMP OR BPF_JEQ) v t f \<Longrightarrow>
      run p d n a = run p d (n + 1 + unat (if a = v then t else f)) a"
    and jgt: "n < length p \<Longrightarrow> p ! n = BPF_JUMP (BPF_JMP OR BPF_JGT) v t f \<Longrightarrow>
      run p d n a = run p d (n + 1 + unat (if v < a then t else f)) a"
    and jge: "n < length p \<Longrightarrow> p ! n = BPF_JUMP (BPF_JMP OR BPF_JGE) v t f \<Longrightarrow>
      run p d n a = run p d (n + 1 + unat (if v \<le> a then t else f)) a"
    and ret_k: "n < length p \<Longrightarrow> p ! n = BPF_STMT (BPF_RET OR BPF_K) v \<Longrightarrow> run p d n a = Some v"
begin

text \<open>The twelve instructions of the filter, run on any program that starts with them.\<close>

lemma addr_filter_run:
  assumes p: "take 12 p = addr_filter s e"
  shows "run p d 0 a = Some
    (let hi = d SC_IP_HIGH; lo = d SC_IP_LOW;
         sh = ucast (drop_bit 32 s); sl = ucast s; eh = ucast (drop_bit 32 e); el = ucast e
     in if (if hi = sh then sl \<le> lo else sh < hi) \<and> (if hi = eh then lo < el else hi \<le> eh)
        then SECCOMP_RET_ALLOW else SECCOMP_RET_TRAP)"
proof -
  have len: "12 \<le> length p"
    using arg_cong [OF p, of length] by (simp add: addr_filter_def Let_def)
  have at: "n < 12 \<Longrightarrow> p ! n = addr_filter s e ! n" for n
    using p by (metis nth_take)
  note at_simps = at addr_filter_def Let_def load_high_def load_low_def
  let ?sh = "ucast (drop_bit 32 s) :: u32" and ?eh = "ucast (drop_bit 32 e) :: u32"
  let ?hi = "d SC_IP_HIGH" and ?lo = "d SC_IP_LOW"
  have r10: "run p d 10 b = Some SECCOMP_RET_ALLOW" and r11: "run p d 11 b = Some SECCOMP_RET_TRAP" for b
    using len by (simp_all add: ret_k [of 10] ret_k [of 11] at_simps)
  have r9: "run p d 9 b = Some (if ?eh < b then SECCOMP_RET_TRAP else SECCOMP_RET_ALLOW)" for b
    using len jgt [of 9 p ?eh 1 0 d b] by (simp add: at_simps r10 r11)
  have r8: "run p d 8 b = Some (if ucast e \<le> b then SECCOMP_RET_TRAP else SECCOMP_RET_ALLOW)" for b
    using len jge [of 8 p "ucast e" 2 1 d b] by (simp add: at_simps r10 r11)
  have r7: "run p d 7 b = run p d 8 ?lo" for b
    using len ld_abs [of 7 p SC_IP_LOW d b] by (simp add: at_simps)
  have r6: "run p d 6 b = run p d (if b = ?eh then 7 else 9) b" for b
    using len jeq [of 6 p ?eh 0 2 d b] by (simp add: at_simps)
  have r5: "run p d 5 b = run p d 6 ?hi" for b
    using len ld_abs [of 5 p SC_IP_HIGH d b] by (simp add: at_simps)
  have r4: "run p d 4 b = run p d (if ?sh < b then 5 else 11) b" for b
    using len jgt [of 4 p ?sh 0 6 d b] by (simp add: at_simps)
  have r3: "run p d 3 b = run p d (if ucast s \<le> b then 5 else 11) b" for b
    using len jge [of 3 p "ucast s" 1 7 d b] by (simp add: at_simps)
  have r2: "run p d 2 b = run p d 3 ?lo" for b
    using len ld_abs [of 2 p SC_IP_LOW d b] by (simp add: at_simps)
  have r1: "run p d (Suc 0) b = run p d (if b = ?sh then 2 else 4) b" for b
    using len jeq [of 1 p ?sh 0 2 d b] by (auto simp: at_simps eval_nat_numeral(2) [symmetric] simp flip: numeral_2_eq_2)
  have r0: "run p d 0 a = run p d (Suc 0) ?hi"
    using len ld_abs [of 0 p SC_IP_HIGH d a] by (cases "p = []") (simp_all add: at_simps)
  have end_check: "run p d 5 b = Some (if (if ?hi = ?eh then ?lo < ucast e else ?hi \<le> ?eh)
      then SECCOMP_RET_ALLOW else SECCOMP_RET_TRAP)" for b
    by (cases "?hi = ?eh") (auto simp: r5 r6 r7 r8 r9)
  show ?thesis
    unfolding r0 r1 Let_def
    by (cases "?hi = ?sh") (simp_all add: r2 r3 r4 r11 end_check)
qed

end

interpretation exec: cbpf bpf_exec
  by unfold_locales (subst bpf_exec.simps, simp add: BPF_STMT_def BPF_JUMP_def bpf_ops)+

section \<open>Properties\<close>

lemma take_copy_over:
  "i + length xs \<le> length out \<Longrightarrow>
   copy_over out xs i = take i out @ xs @ drop (i + length xs) out"
proof (induction xs arbitrary: out i)
  case Nil
  then show ?case by simp
next
  case (Cons x xs)
  then have "copy_over out (x # xs) i = take (Suc i) (out[i := x]) @ xs @ drop (Suc i + length xs) (out[i := x])"
    by simp
  with Cons.prems show ?case
    by (simp add: take_Suc_conv_app_nth)
qed

text \<open>A 64-bit comparison by halves.\<close>

lemma halves:
  fixes x y :: u64
  defines "hi \<equiv> \<lambda>v :: u64. ucast (drop_bit 32 v) :: u32" and "lo \<equiv> \<lambda>v :: u64. ucast v :: u32"
  shows "x \<le> y \<longleftrightarrow> (if hi y = hi x then lo x \<le> lo y else hi x < hi y)"
proof -
  have u: "unat v = unat (hi v) * 2 ^ 32 + unat (lo v)" for v
  proof -
    have "unat v < 2 ^ 64" using unsigned_less [of v, where ?'a = nat] by simp
    then have "unat v div 2 ^ 32 < 2 ^ 32" by simp
    then have "unat (hi v) = unat v div 2 ^ 32"
      unfolding hi_def by (simp add: unsigned_ucast_eq unat_drop_bit_eq take_bit_nat_eq_self drop_bit_nat_def
          del: unsigned_take_bit_eq)
    moreover have "unat (lo v) = unat v mod 2 ^ 32"
      unfolding lo_def by (simp add: unsigned_ucast_eq take_bit_eq_mod)
    ultimately show ?thesis by simp
  qed
  have b: "unat (lo v) < 2 ^ 32" for v
    using unsigned_less [of "lo v", where ?'a = nat] by simp
  show ?thesis
    using b [of x] b [of y] by (auto simp: word_le_nat_alt word_less_nat_alt u [of x] u [of y] word_unat_eq_iff)
qed

lemma addr_filter_decides:
  assumes "cbpf run" and "take 12 p = addr_filter start_addr end_addr"
    and "d SC_IP_LOW = ucast ip" and "d SC_IP_HIGH = ucast (drop_bit 32 ip)"
  shows "run p d 0 a =
    Some (if start_addr \<le> ip \<and> ip < end_addr then SECCOMP_RET_ALLOW else SECCOMP_RET_TRAP)"
proof -
  note r = cbpf.addr_filter_run [OF assms(1,2), of d a]
  have "start_addr \<le> ip \<longleftrightarrow> (if (ucast (drop_bit 32 ip) :: u32) = ucast (drop_bit 32 start_addr)
      then (ucast start_addr :: u32) \<le> ucast ip
      else (ucast (drop_bit 32 start_addr) :: u32) < ucast (drop_bit 32 ip))"
    by (rule halves)
  moreover have "ip < end_addr \<longleftrightarrow> (if (ucast (drop_bit 32 ip) :: u32) = ucast (drop_bit 32 end_addr)
      then (ucast ip :: u32) < ucast end_addr
      else (ucast (drop_bit 32 ip) :: u32) \<le> ucast (drop_bit 32 end_addr))"
    using halves [of end_addr ip] by (simp add: linorder_not_le [symmetric] split: if_splits)
  ultimately show ?thesis
    using r assms(3,4) by (simp add: Let_def)
qed

lemma length_addr_filter: "length (addr_filter start_addr end_addr) = 12"
  by (simp add: addr_filter_def Let_def)

lemma take_gen_addr_filter:
  "12 \<le> length out \<Longrightarrow> take 12 (fst (gen_addr_filter start_addr end_addr out)) = addr_filter start_addr end_addr"
  by (simp add: gen_addr_filter_def take_copy_over length_addr_filter)

text \<open>
  C9: the filter is right.  On any machine that gives the five instruction forms their
  documented meaning, the generated program, in whatever array of at least twelve entries it
  was copied to, allows a system call exactly when the instruction pointer lies in
  \<open>[start_addr, end_addr)\<close> and traps it otherwise.
\<close>

theorem gen_addr_filter_correct:
  assumes "cbpf run" and "12 \<le> length out"
    and "d SC_IP_LOW = ucast ip" and "d SC_IP_HIGH = ucast (drop_bit 32 ip)"
  shows "snd (gen_addr_filter start_addr end_addr out) = 12 \<and>
    run (fst (gen_addr_filter start_addr end_addr out)) d 0 a =
      Some (if start_addr \<le> ip \<and> ip < end_addr then SECCOMP_RET_ALLOW else SECCOMP_RET_TRAP)"
  using addr_filter_decides [OF assms(1) take_gen_addr_filter [OF assms(2)] assms(3,4)]
  by (simp add: gen_addr_filter_def length_addr_filter)

theorem gen_addr_filter_correct_witness:
  "cbpf bpf_exec \<and>
   bpf_exec (fst (gen_addr_filter 0x3000000000 0x3000009000 (replicate 32 load_low)))
     (\<lambda>off. if off = SC_IP_LOW then 0x4711 else 0x30) 0 0 = Some SECCOMP_RET_ALLOW"
proof -
  define d :: "u32 \<Rightarrow> u32" where "d = (\<lambda>off. if off = SC_IP_LOW then 0x4711 else 0x30)"
  have "d SC_IP_LOW = ucast (0x3000004711 :: u64)" "d SC_IP_HIGH = ucast (drop_bit 32 (0x3000004711 :: u64))"
    by (simp_all add: d_def riscv_const)
  from gen_addr_filter_correct [OF exec.cbpf_axioms _ this,
      of "replicate 32 load_low" "0x3000000000" "0x3000009000" 0]
  show ?thesis
    using exec.cbpf_axioms by (simp add: d_def)
qed

end
