(* ===== verification/Riscv_Bits.thy ===== *)
theory Riscv_Bits
  imports Prelude
begin

text \<open>
  The header \<^verbatim>\<open>src/src/common/riscv-bits.h\<close>: fields of 32-bit instructions, the
  named constants of the RISC-V encoding, the accessors that its \<^verbatim>\<open>bitfield\<close> macro
  generates for \<open>sstatus\<close>, \<open>sip\<close>/\<open>sie\<close>, \<open>satp\<close>, page table entries and
  virtual addresses, and the two tests on compressed instructions.

  The macro is one pair of functions of the start and width of a field; every generated
  accessor is an instance.  The locale \<open>bitfield\<close> states what the clients rely on (the
  bits a getter reads, the bits a setter writes), \<open>bitfield_pair\<close> that of two fields
  which do not overlap, and both are interpreted on the generated accessors.
\<close>

section \<open>Fields of 32-bit instructions\<close>

text \<open>\<^verbatim>\<open>ins_bitfield(name, start, width)\<close>\<close>

definition ins_bitfield :: "nat \<Rightarrow> nat \<Rightarrow> u32 \<Rightarrow> u32" where
  "ins_bitfield start width instr = drop_bit start instr AND (push_bit width 1 - 1)"

definition ins_opcode :: "u32 \<Rightarrow> u32" where [field_defs]: "ins_opcode = ins_bitfield 0 7"
definition ins_rd :: "u32 \<Rightarrow> u32" where [field_defs]: "ins_rd = ins_bitfield 7 5"
definition ins_funct3 :: "u32 \<Rightarrow> u32" where [field_defs]: "ins_funct3 = ins_bitfield 12 3"
definition ins_rs1 :: "u32 \<Rightarrow> u32" where [field_defs]: "ins_rs1 = ins_bitfield 15 5"
definition ins_rs2 :: "u32 \<Rightarrow> u32" where [field_defs]: "ins_rs2 = ins_bitfield 20 5"
definition ins_funct7 :: "u32 \<Rightarrow> u32" where [field_defs]: "ins_funct7 = ins_bitfield 25 7"
definition ins_csr :: "u32 \<Rightarrow> u32" where [field_defs]: "ins_csr = ins_bitfield 20 12"

section \<open>Constants\<close>

definition OPCODE_SYSTEM :: u32 where [riscv_const]: "OPCODE_SYSTEM = 0b1110011"
definition OPCODE_LOAD :: u32 where [riscv_const]: "OPCODE_LOAD = 0b0000011"
definition OPCODE_STORE :: u32 where [riscv_const]: "OPCODE_STORE = 0b0100011"
definition OPCODE_AMO :: u32 where [riscv_const]: "OPCODE_AMO = 0b0101111"
definition FUNCT7_WFI :: u32 where [riscv_const]: "FUNCT7_WFI = 0b001000"
definition RS2_WFI :: u32 where [riscv_const]: "RS2_WFI = 0b00101"
definition FUNCT7_SRET :: u32 where [riscv_const]: "FUNCT7_SRET = 0b0001000"
definition RS2_SRET :: u32 where [riscv_const]: "RS2_SRET = 0b00010"
definition FUNCT7_SFENCE_VMA :: u32 where [riscv_const]: "FUNCT7_SFENCE_VMA = 0b0001001"
definition FUNCT3_NOT_CSR :: u32 where [riscv_const]: "FUNCT3_NOT_CSR = 0b000"
definition CSR_USE_UIMM :: u32 where [riscv_const]: "CSR_USE_UIMM = 0b100"
definition CSR_OP_MASK :: u32 where [riscv_const]: "CSR_OP_MASK = 0b011"
definition CSR_OP_RW :: u32 where [riscv_const]: "CSR_OP_RW = 0b001"
definition CSR_OP_RS :: u32 where [riscv_const]: "CSR_OP_RS = 0b010"
definition CSR_OP_RC :: u32 where [riscv_const]: "CSR_OP_RC = 0b011"
definition CSR_SSTATUS :: u32 where [riscv_const]: "CSR_SSTATUS = 0x100"
definition CSR_SIE :: u32 where [riscv_const]: "CSR_SIE = 0x104"
definition CSR_STVEC :: u32 where [riscv_const]: "CSR_STVEC = 0x105"
definition CSR_SSCRATCH :: u32 where [riscv_const]: "CSR_SSCRATCH = 0x140"
definition CSR_SEPC :: u32 where [riscv_const]: "CSR_SEPC = 0x141"
definition CSR_SCAUSE :: u32 where [riscv_const]: "CSR_SCAUSE = 0x142"
definition CSR_STVAL :: u32 where [riscv_const]: "CSR_STVAL = 0x143"
definition CSR_SIP :: u32 where [riscv_const]: "CSR_SIP = 0x144"
definition CSR_SATP :: u32 where [riscv_const]: "CSR_SATP = 0x180"

definition PRIV_U :: u64 where [riscv_const]: "PRIV_U = 0x00"
definition PRIV_S :: u64 where [riscv_const]: "PRIV_S = 0x10"
definition PRIV_M :: u64 where [riscv_const]: "PRIV_M = 0x11"
definition STVEC_MODE_MASK :: u64 where [riscv_const]: "STVEC_MODE_MASK = 0b11"
definition STVEC_DIRECT :: u64 where [riscv_const]: "STVEC_DIRECT = 0b00"
definition STVEC_VECTORED :: u64 where [riscv_const]: "STVEC_VECTORED = 0b01"
definition SCAUSE_IS_INT :: u64 where [riscv_const]: "SCAUSE_IS_INT = push_bit 63 1"
definition SCAUSE_ILLEGAL :: u64 where [riscv_const]: "SCAUSE_ILLEGAL = 2"
definition SCAUSE_UECALL :: u64 where [riscv_const]: "SCAUSE_UECALL = 8"
definition SCAUSE_INSTR_PF :: u64 where [riscv_const]: "SCAUSE_INSTR_PF = 12"
definition SCAUSE_LOAD_PF :: u64 where [riscv_const]: "SCAUSE_LOAD_PF = 13"
definition SCAUSE_STORE_PF :: u64 where [riscv_const]: "SCAUSE_STORE_PF = 15"
definition SCAUSE_TIMER :: u64 where [riscv_const]: "SCAUSE_TIMER = SCAUSE_IS_INT OR 5"

section \<open>The bitfield macro\<close>

definition bf_mask :: "nat \<Rightarrow> nat \<Rightarrow> u64" where
  "bf_mask start width = push_bit start (push_bit width 1 - 1)"

definition bf_get :: "nat \<Rightarrow> nat \<Rightarrow> u64 \<Rightarrow> u64" where
  "bf_get start width data = drop_bit start data AND (push_bit width 1 - 1)"

definition bf_set :: "nat \<Rightarrow> nat \<Rightarrow> u64 \<Rightarrow> u64 \<Rightarrow> u64" where
  "bf_set start width data field =
     (data AND NOT (bf_mask start width)) OR push_bit start field"

subsection \<open>sstatus\<close>

definition MASK_sstatus_sd :: u64 where [field_defs]: "MASK_sstatus_sd = bf_mask 63 1"
definition get_sstatus_sd :: "u64 \<Rightarrow> u64" where [field_defs]: "get_sstatus_sd = bf_get 63 1"
definition set_sstatus_sd :: "u64 \<Rightarrow> u64 \<Rightarrow> u64" where [field_defs]: "set_sstatus_sd = bf_set 63 1"
definition MASK_sstatus_uxl :: u64 where [field_defs]: "MASK_sstatus_uxl = bf_mask 32 1"
definition get_sstatus_uxl :: "u64 \<Rightarrow> u64" where [field_defs]: "get_sstatus_uxl = bf_get 32 1"
definition set_sstatus_uxl :: "u64 \<Rightarrow> u64 \<Rightarrow> u64" where [field_defs]: "set_sstatus_uxl = bf_set 32 1"
definition MASK_sstatus_mxr :: u64 where [field_defs]: "MASK_sstatus_mxr = bf_mask 19 1"
definition get_sstatus_mxr :: "u64 \<Rightarrow> u64" where [field_defs]: "get_sstatus_mxr = bf_get 19 1"
definition set_sstatus_mxr :: "u64 \<Rightarrow> u64 \<Rightarrow> u64" where [field_defs]: "set_sstatus_mxr = bf_set 19 1"
definition MASK_sstatus_sum :: u64 where [field_defs]: "MASK_sstatus_sum = bf_mask 18 1"
definition get_sstatus_sum :: "u64 \<Rightarrow> u64" where [field_defs]: "get_sstatus_sum = bf_get 18 1"
definition set_sstatus_sum :: "u64 \<Rightarrow> u64 \<Rightarrow> u64" where [field_defs]: "set_sstatus_sum = bf_set 18 1"
definition MASK_sstatus_xs :: u64 where [field_defs]: "MASK_sstatus_xs = bf_mask 15 2"
definition get_sstatus_xs :: "u64 \<Rightarrow> u64" where [field_defs]: "get_sstatus_xs = bf_get 15 2"
definition set_sstatus_xs :: "u64 \<Rightarrow> u64 \<Rightarrow> u64" where [field_defs]: "set_sstatus_xs = bf_set 15 2"
definition MASK_sstatus_fs :: u64 where [field_defs]: "MASK_sstatus_fs = bf_mask 13 2"
definition get_sstatus_fs :: "u64 \<Rightarrow> u64" where [field_defs]: "get_sstatus_fs = bf_get 13 2"
definition set_sstatus_fs :: "u64 \<Rightarrow> u64 \<Rightarrow> u64" where [field_defs]: "set_sstatus_fs = bf_set 13 2"
definition MASK_sstatus_spp :: u64 where [field_defs]: "MASK_sstatus_spp = bf_mask 8 1"
definition get_sstatus_spp :: "u64 \<Rightarrow> u64" where [field_defs]: "get_sstatus_spp = bf_get 8 1"
definition set_sstatus_spp :: "u64 \<Rightarrow> u64 \<Rightarrow> u64" where [field_defs]: "set_sstatus_spp = bf_set 8 1"
definition MASK_sstatus_spie :: u64 where [field_defs]: "MASK_sstatus_spie = bf_mask 5 1"
definition get_sstatus_spie :: "u64 \<Rightarrow> u64" where [field_defs]: "get_sstatus_spie = bf_get 5 1"
definition set_sstatus_spie :: "u64 \<Rightarrow> u64 \<Rightarrow> u64" where [field_defs]: "set_sstatus_spie = bf_set 5 1"
definition MASK_sstatus_upie :: u64 where [field_defs]: "MASK_sstatus_upie = bf_mask 4 1"
definition get_sstatus_upie :: "u64 \<Rightarrow> u64" where [field_defs]: "get_sstatus_upie = bf_get 4 1"
definition set_sstatus_upie :: "u64 \<Rightarrow> u64 \<Rightarrow> u64" where [field_defs]: "set_sstatus_upie = bf_set 4 1"
definition MASK_sstatus_sie :: u64 where [field_defs]: "MASK_sstatus_sie = bf_mask 1 1"
definition get_sstatus_sie :: "u64 \<Rightarrow> u64" where [field_defs]: "get_sstatus_sie = bf_get 1 1"
definition set_sstatus_sie :: "u64 \<Rightarrow> u64 \<Rightarrow> u64" where [field_defs]: "set_sstatus_sie = bf_set 1 1"
definition MASK_sstatus_uie :: u64 where [field_defs]: "MASK_sstatus_uie = bf_mask 0 1"
definition get_sstatus_uie :: "u64 \<Rightarrow> u64" where [field_defs]: "get_sstatus_uie = bf_get 0 1"
definition set_sstatus_uie :: "u64 \<Rightarrow> u64 \<Rightarrow> u64" where [field_defs]: "set_sstatus_uie = bf_set 0 1"

definition SSTATUS_XS_OFF :: u64 where [riscv_const]: "SSTATUS_XS_OFF = 0"
definition SSTATUS_XS_INITIAL :: u64 where [riscv_const]: "SSTATUS_XS_INITIAL = 1"
definition SSTATUS_XS_CLEAN :: u64 where [riscv_const]: "SSTATUS_XS_CLEAN = 2"
definition SSTATUS_XS_DIRTY :: u64 where [riscv_const]: "SSTATUS_XS_DIRTY = 3"
definition SSTATUS_SPP_S :: u64 where [riscv_const]: "SSTATUS_SPP_S = 1"
definition SSTATUS_SPP_U :: u64 where [riscv_const]: "SSTATUS_SPP_U = 0"
definition SSTATUS_WRITABLE_MASK :: u64 where [riscv_const]: "SSTATUS_WRITABLE_MASK = MASK_sstatus_mxr OR MASK_sstatus_sum OR MASK_sstatus_spp OR MASK_sstatus_spie OR MASK_sstatus_sie"

subsection \<open>sie and sip\<close>

definition MASK_six_sti :: u64 where [field_defs]: "MASK_six_sti = bf_mask 5 1"
definition get_six_sti :: "u64 \<Rightarrow> u64" where [field_defs]: "get_six_sti = bf_get 5 1"
definition set_six_sti :: "u64 \<Rightarrow> u64 \<Rightarrow> u64" where [field_defs]: "set_six_sti = bf_set 5 1"

definition SIX_WRITABLE_MASK :: u64 where [riscv_const]: "SIX_WRITABLE_MASK = MASK_six_sti"

subsection \<open>satp\<close>

definition MASK_satp_ppn :: u64 where [field_defs]: "MASK_satp_ppn = bf_mask 0 44"
definition get_satp_ppn :: "u64 \<Rightarrow> u64" where [field_defs]: "get_satp_ppn = bf_get 0 44"
definition set_satp_ppn :: "u64 \<Rightarrow> u64 \<Rightarrow> u64" where [field_defs]: "set_satp_ppn = bf_set 0 44"
definition MASK_satp_asid :: u64 where [field_defs]: "MASK_satp_asid = bf_mask 44 16"
definition get_satp_asid :: "u64 \<Rightarrow> u64" where [field_defs]: "get_satp_asid = bf_get 44 16"
definition set_satp_asid :: "u64 \<Rightarrow> u64 \<Rightarrow> u64" where [field_defs]: "set_satp_asid = bf_set 44 16"
definition MASK_satp_mode :: u64 where [field_defs]: "MASK_satp_mode = bf_mask 60 4"
definition get_satp_mode :: "u64 \<Rightarrow> u64" where [field_defs]: "get_satp_mode = bf_get 60 4"
definition set_satp_mode :: "u64 \<Rightarrow> u64 \<Rightarrow> u64" where [field_defs]: "set_satp_mode = bf_set 60 4"

definition SATP_MODE_BARE :: u64 where [riscv_const]: "SATP_MODE_BARE = 0"
definition SATP_MODE_SV39 :: u64 where [riscv_const]: "SATP_MODE_SV39 = 8"

subsection \<open>Page table entries\<close>

definition MASK_pte_flags :: u64 where [field_defs]: "MASK_pte_flags = bf_mask 0 8"
definition get_pte_flags :: "u64 \<Rightarrow> u64" where [field_defs]: "get_pte_flags = bf_get 0 8"
definition set_pte_flags :: "u64 \<Rightarrow> u64 \<Rightarrow> u64" where [field_defs]: "set_pte_flags = bf_set 0 8"
definition MASK_pte_rsw :: u64 where [field_defs]: "MASK_pte_rsw = bf_mask 8 2"
definition get_pte_rsw :: "u64 \<Rightarrow> u64" where [field_defs]: "get_pte_rsw = bf_get 8 2"
definition set_pte_rsw :: "u64 \<Rightarrow> u64 \<Rightarrow> u64" where [field_defs]: "set_pte_rsw = bf_set 8 2"
definition MASK_pte_ppn :: u64 where [field_defs]: "MASK_pte_ppn = bf_mask 10 44"
definition get_pte_ppn :: "u64 \<Rightarrow> u64" where [field_defs]: "get_pte_ppn = bf_get 10 44"
definition set_pte_ppn :: "u64 \<Rightarrow> u64 \<Rightarrow> u64" where [field_defs]: "set_pte_ppn = bf_set 10 44"

definition PTE_V :: u64 where [riscv_const]: "PTE_V = push_bit 0 1"
definition PTE_R :: u64 where [riscv_const]: "PTE_R = push_bit 1 1"
definition PTE_W :: u64 where [riscv_const]: "PTE_W = push_bit 2 1"
definition PTE_X :: u64 where [riscv_const]: "PTE_X = push_bit 3 1"
definition PTE_U :: u64 where [riscv_const]: "PTE_U = push_bit 4 1"
definition PTE_G :: u64 where [riscv_const]: "PTE_G = push_bit 5 1"
definition PTE_A :: u64 where [riscv_const]: "PTE_A = push_bit 6 1"
definition PTE_D :: u64 where [riscv_const]: "PTE_D = push_bit 7 1"

subsection \<open>Virtual addresses\<close>

definition MASK_va_ppn0 :: u64 where [field_defs]: "MASK_va_ppn0 = bf_mask 30 9"
definition get_va_ppn0 :: "u64 \<Rightarrow> u64" where [field_defs]: "get_va_ppn0 = bf_get 30 9"
definition set_va_ppn0 :: "u64 \<Rightarrow> u64 \<Rightarrow> u64" where [field_defs]: "set_va_ppn0 = bf_set 30 9"
definition MASK_va_ppn1 :: u64 where [field_defs]: "MASK_va_ppn1 = bf_mask 21 9"
definition get_va_ppn1 :: "u64 \<Rightarrow> u64" where [field_defs]: "get_va_ppn1 = bf_get 21 9"
definition set_va_ppn1 :: "u64 \<Rightarrow> u64 \<Rightarrow> u64" where [field_defs]: "set_va_ppn1 = bf_set 21 9"
definition MASK_va_ppn2 :: u64 where [field_defs]: "MASK_va_ppn2 = bf_mask 12 9"
definition get_va_ppn2 :: "u64 \<Rightarrow> u64" where [field_defs]: "get_va_ppn2 = bf_get 12 9"
definition set_va_ppn2 :: "u64 \<Rightarrow> u64 \<Rightarrow> u64" where [field_defs]: "set_va_ppn2 = bf_set 12 9"
definition MASK_va_off :: u64 where [field_defs]: "MASK_va_off = bf_mask 0 12"
definition get_va_off :: "u64 \<Rightarrow> u64" where [field_defs]: "get_va_off = bf_get 0 12"
definition set_va_off :: "u64 \<Rightarrow> u64 \<Rightarrow> u64" where [field_defs]: "set_va_off = bf_set 0 12"

section \<open>Compressed loads and stores\<close>

definition rvc_looks_like_load :: "u16 \<Rightarrow> bool" where
  "rvc_looks_like_load instr =
     (let op = instr AND 0b11; funct3 = drop_bit 13 instr
      in (op = 0b00 \<or> op = 0b10) \<and> (funct3 = 0b001 \<or> funct3 = 0b010 \<or> funct3 = 0b011))"

definition rvc_looks_like_store :: "u16 \<Rightarrow> bool" where
  "rvc_looks_like_store instr =
     (let op = instr AND 0b11; funct3 = drop_bit 13 instr
      in (op = 0b00 \<or> op = 0b10) \<and> (funct3 = 0b101 \<or> funct3 = 0b110 \<or> funct3 = 0b111))"

text \<open>
  One-bit fields in the words of the architecture manual: setting or clearing bit \<open>n\<close>.
\<close>

definition put_bit :: "nat \<Rightarrow> bool \<Rightarrow> u64 \<Rightarrow> u64" where
  "put_bit n b w = (if b then set_bit n w else unset_bit n w)"

section \<open>What the accessors promise\<close>

lemma bit_ins_bitfield: "bit (ins_bitfield s w i) n \<longleftrightarrow> n < w \<and> bit i (s + n)"
  by (auto simp: ins_bitfield_def bit_and_iff bit_drop_bit_eq bit_mask_iff mask_eq_decr_exp [symmetric]
      dest: bit_imp_le_length)

lemma bit_field_ones: "bit (2 ^ w - 1 :: u64) n \<longleftrightarrow> n < w \<and> n < 64"
  by (auto simp: mask_eq_decr_exp [symmetric] bit_mask_iff)

lemma bit_bf_get: "bit (bf_get s w d) n \<longleftrightarrow> n < w \<and> bit d (s + n)"
  by (auto simp: bf_get_def bit_and_iff bit_drop_bit_eq bit_field_ones dest: bit_imp_le_length)

lemma bit_bf_mask: "bit (bf_mask s w) n \<longleftrightarrow> s \<le> n \<and> n < s + w \<and> n < 64"
  by (auto simp: bf_mask_def bit_push_bit_iff bit_field_ones)

lemma bit_bf_set:
  assumes "f < 2 ^ w" "s + w \<le> 64" "w < 64" "n < 64"
  shows "bit (bf_set s w d f) n \<longleftrightarrow>
    (if s \<le> n \<and> n < s + w then bit f (n - s) else bit d n)"
proof -
  have "\<not> n < s + w \<Longrightarrow> \<not> bit f (n - s)"
    using assms less_exp_bit_False [of f w "n - s"] by auto
  then show ?thesis
    using assms(4)
    by (auto simp: bf_set_def bit_or_iff bit_and_iff bit_not_iff bit_push_bit_iff bit_bf_mask)
qed

locale bitfield =
  fixes start width :: nat
    and getf :: "u64 \<Rightarrow> u64"
    and setf :: "u64 \<Rightarrow> u64 \<Rightarrow> u64"
  assumes fits: "start + width \<le> 64" "width < 64"
    and bit_getf: "bit (getf d) n \<longleftrightarrow> n < width \<and> bit d (start + n)"
    and bit_setf: "f < 2 ^ width \<Longrightarrow> n < 64 \<Longrightarrow>
      bit (setf d f) n \<longleftrightarrow> (if start \<le> n \<and> n < start + width then bit f (n - start) else bit d n)"
begin

lemma get_set:
  assumes "f < 2 ^ width"
  shows "getf (setf d f) = f"
proof (rule bit_word_eqI)
  fix n assume "n < LENGTH(64)"
  show "bit (getf (setf d f)) n = bit f n"
  proof (cases "n < width")
    case True
    then show ?thesis using assms fits by (simp add: bit_getf bit_setf)
  next
    case False
    then show ?thesis using assms fits less_exp_bit_False [of f width n] by (simp add: bit_getf)
  qed
qed

lemma get_less: "getf d < 2 ^ width"
proof -
  have "getf d AND mask width = getf d"
    by (rule bit_word_eqI) (auto simp: bit_getf bit_and_iff bit_mask_iff dest: bit_imp_le_length)
  then show ?thesis
    using fits by (simp add: mask_eq_iff word_2p_lem word_size)
qed

lemma set_get: "setf d (getf d) = d"
  by (rule bit_word_eqI) (use get_less [of d] in \<open>auto simp: bit_getf bit_setf\<close>)

lemma set_set: "f < 2 ^ width \<Longrightarrow> g < 2 ^ width \<Longrightarrow> setf (setf d f) g = setf d g"
  by (rule bit_word_eqI) (auto simp: bit_setf)

lemma set_outside: "f < 2 ^ width \<Longrightarrow> n < start \<or> start + width \<le> n \<Longrightarrow> bit (setf d f) n = bit d n"
  by (cases "n < 64") (auto simp: bit_setf dest: bit_imp_le_length)

end

locale bitfield_pair =
  A: bitfield sA wA getA setA + B: bitfield sB wB getB setB
  for sA wA getA setA sB wB getB setB +
  assumes disjoint: "sA + wA \<le> sB \<or> sB + wB \<le> sA"
begin

lemma get_other: "g < 2 ^ wB \<Longrightarrow> getA (setB d g) = getA d"
  by (rule bit_word_eqI)
    (use disjoint A.fits in \<open>auto simp: A.bit_getf B.set_outside\<close>)

lemma set_comm: "f < 2 ^ wA \<Longrightarrow> g < 2 ^ wB \<Longrightarrow> setA (setB d g) f = setB (setA d f) g"
  by (rule bit_word_eqI) (use disjoint in \<open>auto simp: A.bit_setf B.bit_setf\<close>)

end

lemma bitfield_bf: "s + w \<le> 64 \<Longrightarrow> w < 64 \<Longrightarrow> bitfield s w (bf_get s w) (bf_set s w)"
  by (rule bitfield.intro) (simp_all add: bit_bf_get bit_bf_set)

text \<open>
  The generated accessors of the fields that the emulator reads or writes.
\<close>

interpretation sstatus_sd: bitfield 63 1 get_sstatus_sd set_sstatus_sd
  unfolding field_defs by (rule bitfield_bf) simp_all

interpretation sstatus_mxr: bitfield 19 1 get_sstatus_mxr set_sstatus_mxr
  unfolding field_defs by (rule bitfield_bf) simp_all

interpretation sstatus_sum: bitfield 18 1 get_sstatus_sum set_sstatus_sum
  unfolding field_defs by (rule bitfield_bf) simp_all

interpretation sstatus_xs: bitfield 15 2 get_sstatus_xs set_sstatus_xs
  unfolding field_defs by (rule bitfield_bf) simp_all

interpretation sstatus_fs: bitfield 13 2 get_sstatus_fs set_sstatus_fs
  unfolding field_defs by (rule bitfield_bf) simp_all

interpretation sstatus_spp: bitfield 8 1 get_sstatus_spp set_sstatus_spp
  unfolding field_defs by (rule bitfield_bf) simp_all

interpretation sstatus_spie: bitfield 5 1 get_sstatus_spie set_sstatus_spie
  unfolding field_defs by (rule bitfield_bf) simp_all

interpretation sstatus_sie: bitfield 1 1 get_sstatus_sie set_sstatus_sie
  unfolding field_defs by (rule bitfield_bf) simp_all

interpretation six_sti: bitfield 5 1 get_six_sti set_six_sti
  unfolding field_defs by (rule bitfield_bf) simp_all

interpretation satp_ppn: bitfield 0 44 get_satp_ppn set_satp_ppn
  unfolding field_defs by (rule bitfield_bf) simp_all

interpretation satp_asid: bitfield 44 16 get_satp_asid set_satp_asid
  unfolding field_defs by (rule bitfield_bf) simp_all

interpretation satp_mode: bitfield 60 4 get_satp_mode set_satp_mode
  unfolding field_defs by (rule bitfield_bf) simp_all

interpretation pte_flags: bitfield 0 8 get_pte_flags set_pte_flags
  unfolding field_defs by (rule bitfield_bf) simp_all

interpretation pte_ppn: bitfield 10 44 get_pte_ppn set_pte_ppn
  unfolding field_defs by (rule bitfield_bf) simp_all

interpretation va_ppn0: bitfield 30 9 get_va_ppn0 set_va_ppn0
  unfolding field_defs by (rule bitfield_bf) simp_all

interpretation va_ppn1: bitfield 21 9 get_va_ppn1 set_va_ppn1
  unfolding field_defs by (rule bitfield_bf) simp_all

interpretation va_ppn2: bitfield 12 9 get_va_ppn2 set_va_ppn2
  unfolding field_defs by (rule bitfield_bf) simp_all

interpretation va_off: bitfield 0 12 get_va_off set_va_off
  unfolding field_defs by (rule bitfield_bf) simp_all

interpretation sie_spie: bitfield_pair 1 1 get_sstatus_sie set_sstatus_sie 5 1 get_sstatus_spie set_sstatus_spie
  by unfold_locales simp

interpretation spie_sie: bitfield_pair 5 1 get_sstatus_spie set_sstatus_spie 1 1 get_sstatus_sie set_sstatus_sie
  by unfold_locales simp

interpretation sie_spp: bitfield_pair 1 1 get_sstatus_sie set_sstatus_sie 8 1 get_sstatus_spp set_sstatus_spp
  by unfold_locales simp

interpretation spp_sie: bitfield_pair 8 1 get_sstatus_spp set_sstatus_spp 1 1 get_sstatus_sie set_sstatus_sie
  by unfold_locales simp

interpretation spie_spp: bitfield_pair 5 1 get_sstatus_spie set_sstatus_spie 8 1 get_sstatus_spp set_sstatus_spp
  by unfold_locales simp

interpretation spp_spie: bitfield_pair 8 1 get_sstatus_spp set_sstatus_spp 5 1 get_sstatus_spie set_sstatus_spie
  by unfold_locales simp

interpretation mode_asid: bitfield_pair 60 4 get_satp_mode set_satp_mode 44 16 get_satp_asid set_satp_asid
  by unfold_locales simp

interpretation ppn_asid: bitfield_pair 0 44 get_satp_ppn set_satp_ppn 44 16 get_satp_asid set_satp_asid
  by unfold_locales simp

interpretation sd_sie: bitfield_pair 63 1 get_sstatus_sd set_sstatus_sd 1 1 get_sstatus_sie set_sstatus_sie
  by unfold_locales simp

interpretation sd_spie: bitfield_pair 63 1 get_sstatus_sd set_sstatus_sd 5 1 get_sstatus_spie set_sstatus_spie
  by unfold_locales simp

interpretation sd_spp: bitfield_pair 63 1 get_sstatus_sd set_sstatus_sd 8 1 get_sstatus_spp set_sstatus_spp
  by unfold_locales simp

interpretation xs_sie: bitfield_pair 15 2 get_sstatus_xs set_sstatus_xs 1 1 get_sstatus_sie set_sstatus_sie
  by unfold_locales simp

interpretation xs_spie: bitfield_pair 15 2 get_sstatus_xs set_sstatus_xs 5 1 get_sstatus_spie set_sstatus_spie
  by unfold_locales simp

interpretation xs_spp: bitfield_pair 15 2 get_sstatus_xs set_sstatus_xs 8 1 get_sstatus_spp set_sstatus_spp
  by unfold_locales simp

interpretation fs_sie: bitfield_pair 13 2 get_sstatus_fs set_sstatus_fs 1 1 get_sstatus_sie set_sstatus_sie
  by unfold_locales simp

interpretation fs_spie: bitfield_pair 13 2 get_sstatus_fs set_sstatus_fs 5 1 get_sstatus_spie set_sstatus_spie
  by unfold_locales simp

interpretation fs_spp: bitfield_pair 13 2 get_sstatus_fs set_sstatus_fs 8 1 get_sstatus_spp set_sstatus_spp
  by unfold_locales simp

interpretation fs_xs: bitfield_pair 13 2 get_sstatus_fs set_sstatus_fs 15 2 get_sstatus_xs set_sstatus_xs
  by unfold_locales simp

interpretation fs_sd: bitfield_pair 13 2 get_sstatus_fs set_sstatus_fs 63 1 get_sstatus_sd set_sstatus_sd
  by unfold_locales simp

interpretation xs_sd: bitfield_pair 15 2 get_sstatus_xs set_sstatus_xs 63 1 get_sstatus_sd set_sstatus_sd
  by unfold_locales simp

lemmas field_get_set =
  sstatus_sd.get_set sstatus_mxr.get_set sstatus_sum.get_set sstatus_xs.get_set
  sstatus_fs.get_set sstatus_spp.get_set sstatus_spie.get_set sstatus_sie.get_set
  six_sti.get_set satp_ppn.get_set satp_asid.get_set satp_mode.get_set pte_flags.get_set
  pte_ppn.get_set va_ppn0.get_set va_ppn1.get_set va_ppn2.get_set va_off.get_set

lemmas field_get_other =
  sie_spie.get_other spie_sie.get_other sie_spp.get_other spp_sie.get_other spie_spp.get_other
  spp_spie.get_other mode_asid.get_other ppn_asid.get_other sd_sie.get_other sd_spie.get_other
  sd_spp.get_other xs_sie.get_other xs_spie.get_other xs_spp.get_other fs_sie.get_other
  fs_spie.get_other fs_spp.get_other fs_xs.get_other fs_sd.get_other xs_sd.get_other

subsection \<open>One-bit fields\<close>

lemma bit_put_bit: "bit (put_bit m b w) n \<longleftrightarrow> (if n = m then b \<and> n < 64 else bit w n)"
  by (auto simp: put_bit_def bit_simps dest: bit_imp_le_length)

lemma bf_get_1: "n < 64 \<Longrightarrow> bf_get n 1 d = of_bool (bit d n)"
  by (rule bit_word_eqI) (auto simp: bit_bf_get bit_of_bool_iff)

lemma bf_set_1: "n < 64 \<Longrightarrow> bf_set n 1 d (of_bool b) = put_bit n b d"
  by (rule bit_word_eqI) (auto simp: bit_bf_set bit_put_bit bit_of_bool_iff)

lemma status_bits:
  "get_sstatus_sie st = of_bool (bit st 1)" "get_sstatus_spie st = of_bool (bit st 5)"
  "get_sstatus_spp st = of_bool (bit st 8)"
  "set_sstatus_sie st (of_bool b) = put_bit 1 b st" "set_sstatus_spie st (of_bool b) = put_bit 5 b st"
  "set_sstatus_spp st (of_bool b) = put_bit 8 b st"
  by (simp_all add: field_defs bf_get_1 [simplified] bf_set_1 [simplified])

lemma status_consts:
  "set_sstatus_sie st 0 = put_bit 1 False st" "set_sstatus_spie st 1 = put_bit 5 True st"
  "set_sstatus_spp st 0 = put_bit 8 False st" "set_sstatus_spp st 1 = put_bit 8 True st"
  using status_bits(4) [of st False] status_bits(5) [of st True] status_bits(6) [of st False]
    status_bits(6) [of st True]
  by simp_all

lemmas status_simps = status_bits status_consts bit_put_bit

lemma writable_mask_bits:
  "bit SSTATUS_WRITABLE_MASK n \<longleftrightarrow> n \<in> {1, 5, 8, 18, 19}"
  "bit SIX_WRITABLE_MASK n \<longleftrightarrow> n = 5"
  by (auto simp: riscv_const field_defs bit_or_iff bit_bf_mask)

end
