(* ===== verification/Priv.thy ===== *)
theory Priv
  imports Riscv_Bits Syscalls
begin

text \<open>
  The privileged architecture: \<^verbatim>\<open>src/src/urvirt-stub/riscv-priv.h\<close> and the first half
  of \<^verbatim>\<open>src/src/urvirt-stub/riscv-priv.c\<close> (lines 13 to 229): the emulated CSRs, the
  emulation of privileged instructions and the entry into a guest trap.

  The state of the stub while a signal is handled is the record \<open>machine\<close>: the trace of
  system calls, the \<open>priv_state\<close> kept in \<open>CONFIG_FD\<close>, and the general registers of the
  interrupted guest, \<open>ucontext->uc_mcontext.__gregs\<close>, in which index 0 is the \<open>pc\<close>.
\<close>

section \<open>State\<close>

record priv_state =
  stub_start :: u64
  stub_size :: u64
  kernel_size :: u64
  timerid :: u64
  priv_mode :: u64
  sstatus :: u64
  sscratch :: u64
  stvec :: u64
  sepc :: u64
  scause :: u64
  stval :: u64
  sip :: u64
  sie :: u64
  satp :: u64
  urvb_block_id :: u64
  urvb_buf :: u64
  should_clear_vm :: bool
  counter_ill :: u64
  counter_segv :: u64
  counter_sret :: u64
  counter_uecall :: u64
  counter_secall :: u64

record machine = world +
  priv :: priv_state
  gregs :: "nat \<Rightarrow> u64"

definition upd_priv :: "(priv_state \<Rightarrow> priv_state) \<Rightarrow> (machine, unit) prog" where
  "upd_priv f = modify (\<lambda>s. s\<lparr>priv := f (priv s)\<rparr>)"

definition set_greg :: "nat \<Rightarrow> u64 \<Rightarrow> (machine, unit) prog" where
  "set_greg i v = modify (\<lambda>s. s\<lparr>gregs := (gregs s)(i := v)\<rparr>)"

definition advance_pc :: "u64 \<Rightarrow> (machine, unit) prog" where
  "advance_pc n = modify (\<lambda>s. s\<lparr>gregs := (gregs s)(0 := gregs s 0 + n)\<rparr>)"

text \<open>A log line followed by \<^verbatim>\<open>asm("ebreak")\<close>.\<close>

definition log_ebreak :: "env \<Rightarrow> string \<Rightarrow> (machine, 'a) prog" where
  "log_ebreak E msg = andthen (write_log E msg) (\<lambda>_. halt Ebreak)"

section \<open>CSRs\<close>

definition sanitize_stvec :: "u64 \<Rightarrow> u64" where
  "sanitize_stvec v =
     (let mode = v AND STVEC_MODE_MASK
      in if mode = STVEC_DIRECT \<or> mode = STVEC_VECTORED then v
         else v AND NOT STVEC_MODE_MASK)"

definition initialize_priv :: "priv_state \<Rightarrow> priv_state" where
  "initialize_priv p =
     (let p = p\<lparr>priv_mode := PRIV_S, sscratch := 0, stvec := 0, sepc := 0, scause := 0, satp := 0,
                sip := 0, sie := 0\<rparr>;
          p = p\<lparr>sstatus := 0\<rparr>;
          p = p\<lparr>sstatus := set_sstatus_fs (sstatus p) SSTATUS_XS_DIRTY\<rparr>;
          p = p\<lparr>sstatus := set_sstatus_xs (sstatus p) SSTATUS_XS_DIRTY\<rparr>;
          p = p\<lparr>sstatus := set_sstatus_sd (sstatus p) 1\<rparr>
      in p\<lparr>counter_ill := 0, counter_segv := 0, counter_sret := 0, counter_uecall := 0,
           counter_secall := 0\<rparr>)"

definition read_csr :: "env \<Rightarrow> u32 \<Rightarrow> (machine, u64) prog" where
  "read_csr E csr =
     (if csr = CSR_SSCRATCH then gets (\<lambda>s. sscratch (priv s))
      else if csr = CSR_STVEC then gets (\<lambda>s. stvec (priv s))
      else if csr = CSR_SEPC then gets (\<lambda>s. sepc (priv s))
      else if csr = CSR_SSTATUS then gets (\<lambda>s. sstatus (priv s))
      else if csr = CSR_SIE then gets (\<lambda>s. sie (priv s))
      else if csr = CSR_SIP then gets (\<lambda>s. sip (priv s))
      else if csr = CSR_SCAUSE then gets (\<lambda>s. scause (priv s))
      else if csr = CSR_STVAL then gets (\<lambda>s. stval (priv s))
      else if csr = CSR_SATP then gets (\<lambda>s. satp (priv s))
      else log_ebreak E ''Unimplemented CSR read'')"

definition write_csr :: "env \<Rightarrow> u32 \<Rightarrow> u64 \<Rightarrow> (machine, unit) prog" where
  "write_csr E csr v =
     (if csr = CSR_SSCRATCH then upd_priv (\<lambda>p. p\<lparr>sscratch := v\<rparr>)
      else if csr = CSR_STVEC then upd_priv (\<lambda>p. p\<lparr>stvec := sanitize_stvec v\<rparr>)
      else if csr = CSR_SEPC then upd_priv (\<lambda>p. p\<lparr>sepc := v\<rparr>)
      else if csr = CSR_SSTATUS then
        upd_priv (\<lambda>p. p\<lparr>sstatus :=
          (v AND SSTATUS_WRITABLE_MASK) OR (sstatus p AND NOT SSTATUS_WRITABLE_MASK)\<rparr>)
      else if csr = CSR_SIE then
        upd_priv (\<lambda>p. p\<lparr>sie := (v AND SIX_WRITABLE_MASK) OR (sie p AND NOT SIX_WRITABLE_MASK)\<rparr>)
      else if csr = CSR_SIP then
        upd_priv (\<lambda>p. p\<lparr>sip := (v AND SIX_WRITABLE_MASK) OR (sip p AND NOT SIX_WRITABLE_MASK)\<rparr>)
      else if csr = CSR_SCAUSE then upd_priv (\<lambda>p. p\<lparr>scause := v\<rparr>)
      else if csr = CSR_STVAL then upd_priv (\<lambda>p. p\<lparr>stval := v\<rparr>)
      else if csr = CSR_SATP then
        (if get_satp_mode v = SATP_MODE_SV39 \<or> get_satp_mode v = SATP_MODE_BARE then
           upd_priv (\<lambda>p. p\<lparr>satp := set_satp_asid v 0, should_clear_vm := True\<rparr>)
         else skip)
      else log_ebreak E ''Unimplemented CSR write'')"

section \<open>Privileged instructions\<close>

definition sret_priv :: "priv_state \<Rightarrow> priv_state" where
  "sret_priv p =
     (let p = p\<lparr>counter_sret := counter_sret p + 1\<rparr>;
          spp = get_sstatus_spp (sstatus p);
          p = p\<lparr>sstatus := set_sstatus_sie (sstatus p) (get_sstatus_spie (sstatus p))\<rparr>;
          p = p\<lparr>sstatus := set_sstatus_spie (sstatus p) 1\<rparr>;
          p = p\<lparr>sstatus := set_sstatus_spp (sstatus p) 0\<rparr>
      in if spp = SSTATUS_SPP_U then p\<lparr>priv_mode := PRIV_U, should_clear_vm := True\<rparr>
         else p\<lparr>priv_mode := PRIV_S\<rparr>)"

definition handle_not_csr :: "env \<Rightarrow> u32 \<Rightarrow> (machine, unit) prog" where
  "handle_not_csr E instr =
     (if ins_funct7 instr = FUNCT7_SFENCE_VMA \<and> ins_rd instr = 0 then
        andthen (upd_priv (\<lambda>p. p\<lparr>should_clear_vm := True\<rparr>)) (\<lambda>_. advance_pc 4)
      else if ins_funct7 instr = FUNCT7_WFI \<and> ins_rs2 instr = RS2_WFI
              \<and> ins_rs1 instr = 0 \<and> ins_rd instr = 0 then
        advance_pc 4
      else if ins_funct7 instr = FUNCT7_SRET \<and> ins_rs2 instr = RS2_SRET
              \<and> ins_rs1 instr = 0 \<and> ins_rd instr = 0 then
        andthen (upd_priv sret_priv) (\<lambda>_.
        andthen (gets priv) (\<lambda>p. set_greg 0 (sepc p)))
      else log_ebreak E ''Invalid instruction: non-CSR'')"

definition handle_csr :: "env \<Rightarrow> u32 \<Rightarrow> (machine, unit) prog" where
  "handle_csr E instr =
     andthen (gets gregs) (\<lambda>regs.
     let csr = ins_csr instr;
         op = ins_funct3 instr AND CSR_OP_MASK;
         use_uimm = (ins_funct3 instr AND CSR_USE_UIMM \<noteq> 0);
         rd = unat (ins_rd instr);
         write_value =
           (if use_uimm then ucast (ins_rs1 instr)
            else if ins_rs1 instr = 0 then 0 else regs (unat (ins_rs1 instr)));
         will_write = (if use_uimm then write_value \<noteq> 0 else ins_rs1 instr \<noteq> 0)
     in andthen
          (if op = CSR_OP_RW then
             andthen (whenM (rd \<noteq> 0) (andthen (read_csr E csr) (\<lambda>v. set_greg rd v))) (\<lambda>_.
             write_csr E csr write_value)
           else if op = CSR_OP_RS then
             andthen (read_csr E csr) (\<lambda>orig.
             andthen (whenM will_write (write_csr E csr (orig OR write_value))) (\<lambda>_.
             whenM (rd \<noteq> 0) (set_greg rd orig)))
           else if op = CSR_OP_RC then
             andthen (read_csr E csr) (\<lambda>orig.
             andthen (whenM will_write (write_csr E csr (orig AND NOT write_value))) (\<lambda>_.
             whenM (rd \<noteq> 0) (set_greg rd orig)))
           else log_ebreak E ''Invalid csr operation'')
          (\<lambda>_. advance_pc 4))"

definition handle_priv_instr :: "env \<Rightarrow> u32 \<Rightarrow> (machine, unit) prog" where
  "handle_priv_instr E instr =
     (if ins_opcode instr = OPCODE_SYSTEM then
        (if ins_funct3 instr = FUNCT3_NOT_CSR then handle_not_csr E instr
         else handle_csr E instr)
      else log_ebreak E ''Invalid instruction: not SYSTEM'')"

section \<open>Traps\<close>

definition trap_target :: "priv_state \<Rightarrow> u64 \<Rightarrow> u64" where
  "trap_target p cause =
     (let base = stvec p AND NOT STVEC_MODE_MASK;
          mode = stvec p AND STVEC_MODE_MASK
      in if mode = STVEC_DIRECT \<or> cause AND SCAUSE_IS_INT = 0 then base
         else base + cause * 4)"

definition trap_priv :: "u64 \<Rightarrow> u64 \<Rightarrow> u64 \<Rightarrow> priv_state \<Rightarrow> priv_state" where
  "trap_priv pc cause tval p =
     (let p = p\<lparr>sepc := pc, scause := cause, stval := tval\<rparr>;
          p = (if priv_mode p = PRIV_S
               then p\<lparr>sstatus := set_sstatus_spp (sstatus p) SSTATUS_SPP_S\<rparr>
               else p\<lparr>sstatus := set_sstatus_spp (sstatus p) SSTATUS_SPP_U\<rparr>);
          p = p\<lparr>priv_mode := PRIV_S\<rparr>;
          p = p\<lparr>sstatus := set_sstatus_spie (sstatus p) (get_sstatus_sie (sstatus p))\<rparr>
      in p\<lparr>sstatus := set_sstatus_sie (sstatus p) 0\<rparr>)"

definition enter_trap :: "u64 \<Rightarrow> u64 \<Rightarrow> (machine, unit) prog" where
  "enter_trap cause tval =
     andthen (gets (\<lambda>s. gregs s 0)) (\<lambda>pc.
     andthen (upd_priv (trap_priv pc cause tval)) (\<lambda>_.
     andthen (gets priv) (\<lambda>p.
     andthen (set_greg 0 (trap_target p cause)) (\<lambda>_.
     upd_priv (\<lambda>p. p\<lparr>should_clear_vm := True\<rparr>)))))"

section \<open>Well-formedness\<close>

text \<open>
  What every operation keeps of the privileged state: a known privilege mode, a supported
  \<open>stvec\<close> and \<open>satp\<close> mode with ASID 0, only the timer bit in \<open>sip\<close> and \<open>sie\<close>, and
  the read-only part of \<open>sstatus\<close> at its reset value (SD, FS and XS dirty).
  \<open>config_of\<close> is the part of the state that is written once at startup.
\<close>

definition priv_inv :: "priv_state \<Rightarrow> bool" where
  "priv_inv p \<longleftrightarrow>
     (priv_mode p = PRIV_U \<or> priv_mode p = PRIV_S)
     \<and> (stvec p AND STVEC_MODE_MASK = STVEC_DIRECT \<or> stvec p AND STVEC_MODE_MASK = STVEC_VECTORED)
     \<and> (get_satp_mode (satp p) = SATP_MODE_BARE \<or> get_satp_mode (satp p) = SATP_MODE_SV39)
     \<and> get_satp_asid (satp p) = 0
     \<and> sip p AND NOT SIX_WRITABLE_MASK = 0
     \<and> sie p AND NOT SIX_WRITABLE_MASK = 0
     \<and> sstatus p AND NOT SSTATUS_WRITABLE_MASK = 0x800000000001E000"

definition config_of :: "priv_state \<Rightarrow> u64 \<times> u64 \<times> u64 \<times> u64" where
  "config_of p = (stub_start p, stub_size p, kernel_size p, timerid p)"

definition guest_inv :: "u64 \<times> u64 \<times> u64 \<times> u64 \<Rightarrow> priv_state \<Rightarrow> bool" where
  "guest_inv cfg p \<longleftrightarrow> priv_inv p \<and> config_of p = cfg"

section \<open>Effects of the operations\<close>

lemma upd_priv_apply [simp]: "upd_priv f s = Ok () (s\<lparr>priv := f (priv s)\<rparr>)"
  by (simp add: upd_priv_def)

lemma set_greg_apply [simp]: "set_greg i v s = Ok () (s\<lparr>gregs := (gregs s)(i := v)\<rparr>)"
  by (simp add: set_greg_def)

lemma advance_pc_apply [simp]:
  "advance_pc n s = Ok () (s\<lparr>gregs := (gregs s)(0 := gregs s 0 + n)\<rparr>)"
  by (simp add: advance_pc_def)

lemma log_ebreak_apply [simp]:
  "log_ebreak E msg s = Stop Ebreak (s\<lparr>trace := trace s @ [log_call msg]\<rparr>)"
  by (simp add: log_ebreak_def)

section \<open>The operations keep the state well-formed\<close>

lemma put_bit_writable:
  "n \<in> {1, 5, 8, 18, 19} \<Longrightarrow>
   put_bit n b st AND NOT SSTATUS_WRITABLE_MASK = st AND NOT SSTATUS_WRITABLE_MASK"
  by (rule bit_word_eqI) (auto simp: bit_simps bit_put_bit writable_mask_bits)

lemma masked_write:
  "((v AND m) OR (old AND NOT m)) AND NOT m = old AND NOT (m :: u64)"
  by (rule bit_word_eqI) (auto simp: bit_simps)

lemma sanitize_stvec_mode:
  "sanitize_stvec v AND STVEC_MODE_MASK = STVEC_DIRECT \<or>
   sanitize_stvec v AND STVEC_MODE_MASK = STVEC_VECTORED"
proof -
  have "(v AND NOT STVEC_MODE_MASK) AND STVEC_MODE_MASK = 0"
    by (rule bit_word_eqI) (auto simp: bit_simps)
  then show ?thesis by (auto simp: sanitize_stvec_def Let_def STVEC_DIRECT_def)
qed

lemma initialize_priv_inv: "priv_inv (initialize_priv p)"
  by (simp add: priv_inv_def initialize_priv_def Let_def riscv_const field_defs bf_get_def bf_set_def
      bf_mask_def)

lemma initialize_priv_config: "config_of (initialize_priv p) = config_of p"
  by (simp add: config_of_def initialize_priv_def Let_def)

lemma sret_priv_inv: "priv_inv p \<Longrightarrow> priv_inv (sret_priv p)"
  by (simp add: priv_inv_def sret_priv_def Let_def status_consts status_bits put_bit_writable)

lemma trap_priv_inv: "priv_inv p \<Longrightarrow> priv_inv (trap_priv a cause tval p)"
  by (simp add: priv_inv_def trap_priv_def Let_def status_simps put_bit_writable SSTATUS_SPP_S_def
      SSTATUS_SPP_U_def)

lemma priv_inv_upd:
  "priv_inv p \<Longrightarrow> w AND NOT SSTATUS_WRITABLE_MASK = sstatus p AND NOT SSTATUS_WRITABLE_MASK \<Longrightarrow>
   priv_inv (p\<lparr>sstatus := w\<rparr>)"
  "priv_inv p \<Longrightarrow> w AND NOT SIX_WRITABLE_MASK = sie p AND NOT SIX_WRITABLE_MASK \<Longrightarrow>
   priv_inv (p\<lparr>sie := w\<rparr>)"
  "priv_inv p \<Longrightarrow> w AND NOT SIX_WRITABLE_MASK = sip p AND NOT SIX_WRITABLE_MASK \<Longrightarrow>
   priv_inv (p\<lparr>sip := w\<rparr>)"
  by (simp_all add: priv_inv_def)

lemma write_priv_inv:
  assumes "priv_inv p"
  shows "priv_inv (p\<lparr>stvec := sanitize_stvec v\<rparr>)"
    "priv_inv (p\<lparr>sstatus := (v AND SSTATUS_WRITABLE_MASK) OR (sstatus p AND NOT SSTATUS_WRITABLE_MASK)\<rparr>)"
    "priv_inv (p\<lparr>sie := (v AND SIX_WRITABLE_MASK) OR (sie p AND NOT SIX_WRITABLE_MASK)\<rparr>)"
    "priv_inv (p\<lparr>sip := (v AND SIX_WRITABLE_MASK) OR (sip p AND NOT SIX_WRITABLE_MASK)\<rparr>)"
    "get_satp_mode v = SATP_MODE_SV39 \<or> get_satp_mode v = SATP_MODE_BARE \<Longrightarrow>
       priv_inv (p\<lparr>satp := set_satp_asid v 0\<rparr>)"
proof -
  show "priv_inv (p\<lparr>stvec := sanitize_stvec v\<rparr>)"
    using assms sanitize_stvec_mode [of v] by (simp add: priv_inv_def)
  show "get_satp_mode v = SATP_MODE_SV39 \<or> get_satp_mode v = SATP_MODE_BARE \<Longrightarrow>
       priv_inv (p\<lparr>satp := set_satp_asid v 0\<rparr>)"
    using assms by (auto simp: priv_inv_def satp_asid.get_set mode_asid.get_other)
qed (simp_all add: assms priv_inv_upd masked_write)

lemma plain_priv_inv [simp]:
  "priv_inv (p\<lparr>sscratch := v\<rparr>) = priv_inv p" "priv_inv (p\<lparr>sepc := v\<rparr>) = priv_inv p"
  "priv_inv (p\<lparr>scause := v\<rparr>) = priv_inv p" "priv_inv (p\<lparr>stval := v\<rparr>) = priv_inv p"
  "priv_inv (p\<lparr>should_clear_vm := b\<rparr>) = priv_inv p"
  "priv_inv (p\<lparr>counter_ill := v\<rparr>) = priv_inv p" "priv_inv (p\<lparr>counter_segv := v\<rparr>) = priv_inv p"
  "priv_inv (p\<lparr>counter_uecall := v\<rparr>) = priv_inv p" "priv_inv (p\<lparr>counter_secall := v\<rparr>) = priv_inv p"
  "priv_inv (p\<lparr>urvb_block_id := v\<rparr>) = priv_inv p" "priv_inv (p\<lparr>urvb_buf := v\<rparr>) = priv_inv p"
  by (simp_all add: priv_inv_def)

lemma config_of_simps [simp]:
  "config_of (p\<lparr>priv_mode := v\<rparr>) = config_of p" "config_of (p\<lparr>sstatus := v\<rparr>) = config_of p"
  "config_of (p\<lparr>sscratch := v\<rparr>) = config_of p" "config_of (p\<lparr>stvec := v\<rparr>) = config_of p"
  "config_of (p\<lparr>sepc := v\<rparr>) = config_of p" "config_of (p\<lparr>scause := v\<rparr>) = config_of p"
  "config_of (p\<lparr>stval := v\<rparr>) = config_of p" "config_of (p\<lparr>sip := v\<rparr>) = config_of p"
  "config_of (p\<lparr>sie := v\<rparr>) = config_of p" "config_of (p\<lparr>satp := v\<rparr>) = config_of p"
  "config_of (p\<lparr>urvb_block_id := v\<rparr>) = config_of p" "config_of (p\<lparr>urvb_buf := v\<rparr>) = config_of p"
  "config_of (p\<lparr>should_clear_vm := b\<rparr>) = config_of p" "config_of (p\<lparr>counter_ill := v\<rparr>) = config_of p"
  "config_of (p\<lparr>counter_segv := v\<rparr>) = config_of p" "config_of (p\<lparr>counter_sret := v\<rparr>) = config_of p"
  "config_of (p\<lparr>counter_uecall := v\<rparr>) = config_of p" "config_of (p\<lparr>counter_secall := v\<rparr>) = config_of p"
  "config_of (sret_priv p) = config_of p" "config_of (trap_priv a cause tval p) = config_of p"
  by (simp_all add: config_of_def sret_priv_def trap_priv_def Let_def)

section \<open>Invariants of the privileged state\<close>

text \<open>
  A property \<open>J\<close> of the privileged state is untouched by system calls and by changes of the
  guest's registers.  \<open>csr_inv\<close> lists the updates that emulated instructions make, and carries
  \<open>J\<close> through their emulation.
\<close>

locale machine_inv =
  fixes J :: "priv_state \<Rightarrow> bool"
begin

lemma keeps_upd_priv [keeps_rules]:
  "(\<And>p. J p \<Longrightarrow> J (f p)) \<Longrightarrow> keeps (\<lambda>s. J (priv s)) (upd_priv f)"
  by (simp add: keeps_def)

lemma keeps_set_greg [keeps_rules]:
  "keeps (\<lambda>s. J (priv s)) (set_greg i v)" "keeps (\<lambda>s. J (priv s)) (advance_pc n)"
  by (simp_all add: keeps_def)

end

sublocale machine_inv \<subseteq> call_inv "\<lambda>s :: machine. J (priv s)" "\<lambda>_. True"
  by unfold_locales simp

context machine_inv
begin

lemma keeps_log_ebreak [keeps_rules]: "keeps (\<lambda>s. J (priv s)) (log_ebreak E msg)"
  unfolding log_ebreak_def by (intro keeps_rules TrueI)

lemma keeps_read_csr [keeps_rules]: "keeps (\<lambda>s. J (priv s)) (read_csr E csr)"
  unfolding read_csr_def by (intro keeps_rules)

end

locale csr_inv = machine_inv +
  assumes plain_csr: "J p \<Longrightarrow> J (p\<lparr>sscratch := v\<rparr>)" "J p \<Longrightarrow> J (p\<lparr>sepc := v\<rparr>)"
      "J p \<Longrightarrow> J (p\<lparr>scause := v\<rparr>)" "J p \<Longrightarrow> J (p\<lparr>stval := v\<rparr>)"
    and stvec_csr: "J p \<Longrightarrow> J (p\<lparr>stvec := sanitize_stvec v\<rparr>)"
    and masked_csr:
      "J p \<Longrightarrow> J (p\<lparr>sstatus := (v AND SSTATUS_WRITABLE_MASK) OR (sstatus p AND NOT SSTATUS_WRITABLE_MASK)\<rparr>)"
      "J p \<Longrightarrow> J (p\<lparr>sie := (v AND SIX_WRITABLE_MASK) OR (sie p AND NOT SIX_WRITABLE_MASK)\<rparr>)"
      "J p \<Longrightarrow> J (p\<lparr>sip := (v AND SIX_WRITABLE_MASK) OR (sip p AND NOT SIX_WRITABLE_MASK)\<rparr>)"
    and satp_csr: "J p \<Longrightarrow> get_satp_mode v = SATP_MODE_SV39 \<or> get_satp_mode v = SATP_MODE_BARE \<Longrightarrow>
      J (p\<lparr>satp := set_satp_asid v 0, should_clear_vm := True\<rparr>)"
    and clear_request: "J p \<Longrightarrow> J (p\<lparr>should_clear_vm := True\<rparr>)"
    and sret_update: "J p \<Longrightarrow> J (sret_priv p)"
begin

lemma keeps_write_csr [keeps_rules]: "keeps (\<lambda>s. J (priv s)) (write_csr E csr v)"
  unfolding write_csr_def
  by (intro keeps_rules) (simp_all add: plain_csr stvec_csr masked_csr satp_csr)

lemma keeps_handle_priv_instr [keeps_rules]: "keeps (\<lambda>s. J (priv s)) (handle_priv_instr E instr)"
  unfolding handle_priv_instr_def handle_not_csr_def handle_csr_def
  by (intro keeps_rules) (simp_all add: clear_request sret_update)

end

text \<open>
  \<open>signal_inv\<close> lists the updates of the signal handlers beside instruction emulation; the
  later theories carry \<open>J\<close> through each of them.
\<close>

locale signal_inv = machine_inv +
  assumes counters: "J p \<Longrightarrow> J (p\<lparr>counter_ill := v\<rparr>)" "J p \<Longrightarrow> J (p\<lparr>counter_segv := v\<rparr>)"
      "J p \<Longrightarrow> J (p\<lparr>counter_uecall := v\<rparr>)" "J p \<Longrightarrow> J (p\<lparr>counter_secall := v\<rparr>)"
    and device: "J p \<Longrightarrow> J (p\<lparr>urvb_block_id := v\<rparr>)" "J p \<Longrightarrow> J (p\<lparr>urvb_buf := v\<rparr>)"
    and timer: "J p \<Longrightarrow> J (p\<lparr>sip := set_six_sti (sip p) (of_bool b)\<rparr>)"
    and trap: "J p \<Longrightarrow> J ((trap_priv ip cause tval p)\<lparr>should_clear_vm := True\<rparr>)"
    and emulate: "J (priv s) \<Longrightarrow> priv_mode (priv s) = PRIV_S \<Longrightarrow>
      J (priv (outcome_state (handle_priv_instr E instr s)))"
begin

lemma keeps_enter_trap [keeps_rules]: "keeps (\<lambda>s. J (priv s)) (enter_trap cause tval)"
  by (simp add: keeps_def enter_trap_def trap)

end

interpretation guest_csr: csr_inv "guest_inv cfg" for cfg
  by unfold_locales (simp_all add: guest_inv_def write_priv_inv sret_priv_inv)

text \<open>A machine right after startup, for concrete instances.\<close>

definition sample_priv :: priv_state where
  "sample_priv = initialize_priv
    \<lparr>stub_start = 0x3000000000, stub_size = 0x9000, kernel_size = 0x4000, timerid = 0,
     priv_mode = 0, sstatus = 0, sscratch = 0, stvec = 0, sepc = 0, scause = 0, stval = 0, sip = 0,
     sie = 0, satp = 0, urvb_block_id = 0, urvb_buf = 0, should_clear_vm = False, counter_ill = 0,
     counter_segv = 0, counter_sret = 0, counter_uecall = 0, counter_secall = 0\<rparr>"

definition sample_machine :: machine where
  "sample_machine = \<lparr>trace = [], priv = sample_priv, gregs = (\<lambda>_. 0)\<rparr>"

lemma sample_inv: "priv_inv (priv sample_machine)"
  by (simp add: sample_machine_def sample_priv_def initialize_priv_inv)

end
