(* ===== verification/Page_Table.thy ===== *)
theory Page_Table
  imports Priv
begin

text \<open>
  The page table walker of \<^verbatim>\<open>src/src/urvirt-stub/riscv-priv.c\<close> (lines 231 to 299) and its
  relation to the Sv39 translation of the RISC-V manual, stated on natural numbers.
\<close>

section \<open>Definitions\<close>

text \<open>
  A 64-bit little-endian read through the pointer \<open>ram\<close> that maps \<open>RAM_FD\<close>.  A failed mapping
  faults; a read that leaves the mapping is undefined.
\<close>

fun le_word :: "u8 list \<Rightarrow> u64" where
  "le_word [] = 0"
| "le_word (b # bs) = ucast b OR push_bit 8 (le_word bs)"

definition ram64 :: "(u64 \<Rightarrow> u8) \<Rightarrow> u64 \<Rightarrow> u64" where
  "ram64 f off = le_word (map (\<lambda>i. f (off + of_nat i)) [0..<8])"

definition read_ram64 :: "env \<Rightarrow> u64 \<Rightarrow> u64 \<Rightarrow> (machine, u64) prog" where
  "read_ram64 E ram off =
     andthen (deref ram) (\<lambda>_.
     if unat off + 8 \<le> unat RAM_SIZE then gets (\<lambda>s. ram64 (ramf E (trace s)) off)
     else halt Undefined)"

definition fl :: "u64 \<Rightarrow> u64 \<Rightarrow> bool" where
  "fl entry f \<longleftrightarrow> get_pte_flags entry AND f \<noteq> 0"

definition va_sign_ok :: "u64 \<Rightarrow> bool" where
  "va_sign_ok va \<longleftrightarrow> va = signed_drop_bit (63 - 39) (push_bit (63 - 39) va)"

function walk ::
  "env \<Rightarrow> u64 \<Rightarrow> u64 \<Rightarrow> u64 list \<Rightarrow> nat \<Rightarrow> u64 \<Rightarrow> (machine, (u64 \<times> u64) option) prog" where
  "walk E ram va vpn level pt_addr =
     (if level < 3 then
        (if pt_addr < RAM_START \<or> RAM_START + RAM_SIZE \<le> pt_addr then
           log_ebreak E ''pt address out of range''
         else
           andthen (read_ram64 E ram (pt_addr - RAM_START + vpn ! level * 8)) (\<lambda>entry.
           if \<not> fl entry PTE_V then ret None
           else if \<not> fl entry PTE_R \<and> fl entry PTE_W then ret None
           else if level < 2 then
             (if fl entry PTE_R \<or> fl entry PTE_W \<or> fl entry PTE_X then
                log_ebreak E ''Unimplemented large pages''
              else walk E ram va vpn (level + 1) (push_bit 12 (get_pte_ppn entry)))
           else if fl entry PTE_W \<and> \<not> fl entry PTE_R then ret None
           else ret (Some (push_bit 12 (get_pte_ppn entry) OR get_va_off va, entry))))
      else halt Undefined)"
  by pat_completeness auto
termination
  by (relation "measure (\<lambda>(E, ram, va, vpn, level, pt). 3 - level)") auto

declare walk.simps [simp del]

definition lookup_pa_in_ram ::
  "env \<Rightarrow> u64 \<Rightarrow> u64 \<Rightarrow> (machine, (u64 \<times> u64) option) prog" where
  "lookup_pa_in_ram E ram va =
     andthen (gets priv) (\<lambda>p.
     if get_satp_mode (satp p) = SATP_MODE_BARE then ret (Some (va, 0))
     else if \<not> va_sign_ok va then ret None
     else walk E ram va [get_va_ppn0 va, get_va_ppn1 va, get_va_ppn2 va] 0
            (push_bit 12 (get_satp_ppn (satp p))))"

definition lookup_pa :: "env \<Rightarrow> u64 \<Rightarrow> (machine, (u64 \<times> u64) option) prog" where
  "lookup_pa E va =
     andthen (s_mmap E 0 RAM_SIZE (PROT_READ OR PROT_WRITE OR PROT_EXEC) MAP_SHARED RAM_FD 0) (\<lambda>ram.
     andthen (lookup_pa_in_ram E ram va) (\<lambda>res.
     andthen (s_munmap E ram RAM_SIZE) (\<lambda>_.
     ret res)))"

section \<open>Sv39 on natural numbers\<close>

text \<open>
  \<open>mem a\<close> is the 64-bit word at physical address \<open>a\<close>.  Level 2 is the root.  The walk ends
  with a leaf of some level, a page fault, an entry of the last level that points to a further
  table (a page fault in the manual), or a table outside the emulated RAM.
\<close>

datatype translation = Leaf nat nat | Fault | No_leaf nat | Out_of_ram

definition pte_bit :: "nat \<Rightarrow> nat \<Rightarrow> bool" where
  "pte_bit pte n \<longleftrightarrow> odd (pte div 2 ^ n)"

definition pte_target :: "nat \<Rightarrow> nat" where
  "pte_target pte = pte div 2 ^ 10 mod 2 ^ 44 * 4096"

definition va_index :: "nat \<Rightarrow> nat \<Rightarrow> nat" where
  "va_index va i = va div 2 ^ (12 + 9 * i) mod 512"

fun sv39 :: "(nat \<Rightarrow> nat) \<Rightarrow> nat \<Rightarrow> nat \<Rightarrow> nat \<Rightarrow> translation" where
  "sv39 mem va i table =
     (if table < 0x80000000 \<or> 0x81000000 \<le> table then Out_of_ram
      else let pte = mem (table + 8 * va_index va i)
           in if \<not> pte_bit pte 0 \<or> (\<not> pte_bit pte 1 \<and> pte_bit pte 2) then Fault
              else if pte_bit pte 1 \<or> pte_bit pte 3 then Leaf i pte
              else if i = 0 then No_leaf pte
              else sv39 mem va (i - 1) (pte_target pte))"

declare sv39.simps [simp del]

text \<open>The words of the RAM file, by physical address.\<close>

definition ram_words :: "(u64 \<Rightarrow> u8) \<Rightarrow> nat \<Rightarrow> nat" where
  "ram_words f a = unat (ram64 f (of_nat a - RAM_START))"

text \<open>What the walker makes of the result.\<close>

definition walk_result :: "u64 \<Rightarrow> translation \<Rightarrow> (machine, (u64 \<times> u64) option) prog" where
  "walk_result va t = (case t of
     Leaf i pte \<Rightarrow>
       (if i = 0 then ret (Some (of_nat (pte_target pte + unat va mod 4096), of_nat pte))
        else andthen (modify (\<lambda>s. s\<lparr>trace := trace s @ [log_call ''Unimplemented large pages'']\<rparr>))
               (\<lambda>_. halt Ebreak))
   | No_leaf pte \<Rightarrow> ret (Some (of_nat (pte_target pte + unat va mod 4096), of_nat pte))
   | Fault \<Rightarrow> ret None
   | Out_of_ram \<Rightarrow>
       andthen (modify (\<lambda>s. s\<lparr>trace := trace s @ [log_call ''pt address out of range'']\<rparr>))
               (\<lambda>_. halt Ebreak))"

definition satp_root :: "u64 \<Rightarrow> nat" where
  "satp_root v = unat v mod 2 ^ 44 * 4096"

text \<open>The canonical address with the same low 39 bits.\<close>

definition sign_ext_39 :: "u64 \<Rightarrow> u64" where
  "sign_ext_39 va = signed_take_bit 38 va"

abbreviation vpns :: "u64 \<Rightarrow> u64 list" where
  "vpns va \<equiv> [get_va_ppn0 va, get_va_ppn1 va, get_va_ppn2 va]"

text \<open>The call that maps the RAM file for the walk.\<close>

definition ram_map_call :: ecall where
  "ram_map_call = Ecall SYS_mmap [Reg 0, Reg RAM_SIZE,
     int_arg (PROT_READ OR PROT_WRITE OR PROT_EXEC), int_arg MAP_SHARED, int_arg RAM_FD, Reg 0]"

section \<open>Lemmas\<close>

lemma unat_bf_get: "w < 64 \<Longrightarrow> unat (bf_get s w d) = unat d div 2 ^ s mod 2 ^ w"
proof -
  assume w: "w < 64"
  have "bf_get s w d = take_bit w (drop_bit s d)"
    by (rule bit_word_eqI) (auto simp: bit_bf_get bit_simps)
  then show ?thesis
    by (simp add: unsigned_take_bit_eq unat_drop_bit_eq take_bit_nat_def drop_bit_nat_def)
qed

lemma fl_bit: "n < 8 \<Longrightarrow> fl entry (push_bit n 1) \<longleftrightarrow> pte_bit (unat entry) n"
proof -
  assume n: "n < 8"
  have "get_pte_flags entry AND 2 ^ n = 0 \<longleftrightarrow> \<not> bit entry n"
    using n by (simp add: and_exp_eq_0_iff_not_bit field_defs bit_bf_get)
  moreover have "bit entry n \<longleftrightarrow> odd (unat entry div 2 ^ n)"
    using bit_unsigned_iff [of entry n, where ?'a = nat] by (simp add: bit_iff_odd [where ?'a = nat])
  ultimately show ?thesis
    by (simp add: fl_def pte_bit_def push_bit_eq_mult)
qed

lemma pte_flag_bits:
  "fl entry PTE_V \<longleftrightarrow> pte_bit (unat entry) 0" "fl entry PTE_R \<longleftrightarrow> pte_bit (unat entry) 1"
  "fl entry PTE_W \<longleftrightarrow> pte_bit (unat entry) 2" "fl entry PTE_X \<longleftrightarrow> pte_bit (unat entry) 3"
  unfolding PTE_V_def PTE_R_def PTE_W_def PTE_X_def by (rule fl_bit, simp)+

lemma pte_target_word: "unat (push_bit 12 (get_pte_ppn entry)) = pte_target (unat entry)"
proof -
  have "unat (get_pte_ppn entry) = unat entry div 2 ^ 10 mod 2 ^ 44"
    by (simp add: field_defs unat_bf_get)
  moreover have "unat entry div 2 ^ 10 mod 2 ^ 44 * 2 ^ 12 < (2 :: nat) ^ 64"
    using mod_less_divisor [of "(2 :: nat) ^ 44" "unat entry div 2 ^ 10"] by simp
  ultimately show ?thesis
    by (simp add: pte_target_def push_bit_eq_mult unat_mult_lem [THEN iffD1] unat_word_ariths)
qed

lemma pa_word:
  "push_bit 12 (get_pte_ppn entry) OR get_va_off va = of_nat (pte_target (unat entry) + unat va mod 4096)"
proof -
  have "push_bit 12 (get_pte_ppn entry) OR get_va_off va = push_bit 12 (get_pte_ppn entry) + get_va_off va"
    by (rule disjunctive_add_eq_or [symmetric]) (auto simp: bit_eq_iff bit_simps field_defs bit_bf_get)
  also have "\<dots> = of_nat (unat (push_bit 12 (get_pte_ppn entry)) + unat (get_va_off va))"
    by simp
  finally show ?thesis
    by (simp only: pte_target_word) (simp add: field_defs unat_bf_get)
qed

lemma vpns_index: "i \<le> 2 \<Longrightarrow> unat (vpns va ! (2 - i)) = va_index (unat va) i"
proof -
  assume "i \<le> 2"
  then consider "i = 0" | "i = 1" | "i = 2" by linarith
  then show ?thesis
    by cases (simp_all add: va_index_def field_defs unat_bf_get)
qed

lemma ram_range:
  "pt < RAM_START \<longleftrightarrow> unat pt < 0x80000000" "RAM_START + RAM_SIZE \<le> pt \<longleftrightarrow> 0x81000000 \<le> unat pt"
  by (simp_all add: riscv_const word_less_nat_alt word_le_nat_alt)

lemma entry_offset:
  assumes "0x80000000 \<le> unat pt" "unat pt < 0x81000000" "unat pt mod 4096 = 0" "unat v < 512"
  shows "unat (pt - RAM_START + v * 8) = unat pt - 0x80000000 + 8 * unat v"
    "unat pt - 0x80000000 + 8 * unat v + 8 \<le> 0x1000000"
proof -
  obtain j where j: "unat pt = 4096 * j"
    using assms(3) by (auto simp: mod_eq_0_iff_dvd)
  then have "j < 0x81000" using assms(2) by simp
  then have "unat pt < 0x81000000 - 4095"
    using j by simp
  then show "unat pt - 0x80000000 + 8 * unat v + 8 \<le> 0x1000000"
    using assms(1,4) by linarith
  have "unat (pt - RAM_START) = unat pt - 0x80000000"
    using assms(1) by (simp add: unat_sub_if' riscv_const)
  moreover have "unat (v * 8) = 8 * unat v"
    using assms(4) by (simp add: unat_word_ariths)
  ultimately show "unat (pt - RAM_START + v * 8) = unat pt - 0x80000000 + 8 * unat v"
    using assms by (simp add: unat_word_ariths)
qed

lemma read_entry:
  assumes "\<not> is_err ram" "0x80000000 \<le> unat pt" "unat pt < 0x81000000" "unat pt mod 4096 = 0" "unat v < 512"
  shows "read_ram64 E ram (pt - RAM_START + v * 8) s =
    Ok (of_nat (ram_words (ramf E (trace s)) (unat pt + 8 * unat v))) s"
proof -
  have "of_nat (unat pt + 8 * unat v) - RAM_START = pt - RAM_START + v * 8"
    by (simp add: mult.commute)
  then have "of_nat (ram_words f (unat pt + 8 * unat v)) = ram64 f (pt - RAM_START + v * 8)" for f
    by (simp add: ram_words_def algebra_simps)
  moreover have "unat (pt - RAM_START + v * 8) + 8 \<le> unat RAM_SIZE"
    using entry_offset [OF assms(2-5)] by (simp add: riscv_const)
  ultimately show ?thesis
    using assms(1) by (simp add: read_ram64_def deref_def)
qed

lemma pte_target_aligned: "pte_target pte mod 4096 = 0"
  by (simp add: pte_target_def)

lemma walk_step:
  assumes "level < 3" "0x80000000 \<le> unat pt" "unat pt < 0x81000000"
    and "read_ram64 E ram (pt - RAM_START + vpn ! level * 8) s = Ok entry s"
  shows "walk E ram va vpn level pt s =
    (if \<not> pte_bit (unat entry) 0 \<or> (\<not> pte_bit (unat entry) 1 \<and> pte_bit (unat entry) 2) then Ok None s
     else if level < 2 \<and> (pte_bit (unat entry) 1 \<or> pte_bit (unat entry) 3) then
       Stop Ebreak (s\<lparr>trace := trace s @ [log_call ''Unimplemented large pages'']\<rparr>)
     else if level < 2 then walk E ram va vpn (level + 1) (push_bit 12 (get_pte_ppn entry)) s
     else Ok (Some (of_nat (pte_target (unat entry) + unat va mod 4096), entry)) s)"
proof -
  have "\<not> (pt < RAM_START \<or> RAM_START + RAM_SIZE \<le> pt)"
    using assms(2,3) by (simp add: ram_range)
  then show ?thesis
    using assms(1,4) by (subst walk.simps) (auto simp: pte_flag_bits pa_word)
qed

lemma walk_sv39:
  assumes "\<not> is_err ram" "i \<le> 2" "unat pt mod 4096 = 0"
  shows "walk E ram va (vpns va) (2 - i) pt s =
    walk_result va (sv39 (ram_words (ramf E (trace s))) (unat va) i (unat pt)) s"
  using assms(2,3)
proof (induction i arbitrary: pt rule: less_induct)
  case (less i)
  show ?case
  proof (cases "unat pt < 0x80000000 \<or> 0x81000000 \<le> unat pt")
    case True
    then show ?thesis
      using less.prems
      by (subst walk.simps, subst sv39.simps) (auto simp: ram_range walk_result_def)
  next
    case False
    let ?v = "vpns va ! (2 - i)"
    let ?mem = "ram_words (ramf E (trace s))"
    let ?pte = "?mem (unat pt + 8 * va_index (unat va) i)"
    define entry :: u64 where "entry = of_nat ?pte"
    have v: "unat ?v = va_index (unat va) i" using vpns_index less.prems by blast
    have pte: "?pte = unat entry" by (simp add: entry_def ram_words_def)
    have "read_ram64 E ram (pt - RAM_START + ?v * 8) s = Ok entry s"
      using read_entry [OF assms(1), of pt ?v E s] False less.prems v
      by (simp add: entry_def va_index_def)
    note step = walk_step [OF _ _ _ this, of va]
    have next_level: "0 < i \<Longrightarrow> walk E ram va (vpns va) (2 - i + 1) (push_bit 12 (get_pte_ppn entry)) s =
        walk_result va (sv39 ?mem (unat va) (i - 1) (pte_target (unat entry))) s"
      using less.IH [of "i - 1" "push_bit 12 (get_pte_ppn entry)"] less.prems
      by (simp add: pte_target_word pte_target_aligned Suc_diff_Suc [symmetric] Suc_diff_le)
    have "sv39 ?mem (unat va) i (unat pt) =
        (if \<not> pte_bit (unat entry) 0 \<or> (\<not> pte_bit (unat entry) 1 \<and> pte_bit (unat entry) 2) then Fault
         else if pte_bit (unat entry) 1 \<or> pte_bit (unat entry) 3 then Leaf i (unat entry)
         else if i = 0 then No_leaf (unat entry)
         else sv39 ?mem (unat va) (i - 1) (pte_target (unat entry)))"
      using False by (subst sv39.simps) (simp add: pte Let_def)
    then show ?thesis
      using False less.prems next_level step by (auto simp: walk_result_def)
  qed
qed


lemma satp_root_word: "unat (push_bit 12 (get_satp_ppn v)) = satp_root v"
proof -
  have "unat (get_satp_ppn v) = unat v mod 2 ^ 44"
    by (simp add: field_defs unat_bf_get)
  moreover have "unat v mod 2 ^ 44 * 2 ^ 12 < (2 :: nat) ^ 64"
    using mod_less_divisor [of "(2 :: nat) ^ 44" "unat v"] by simp
  ultimately show ?thesis
    by (simp add: satp_root_def push_bit_eq_mult unat_word_ariths)
qed

lemma lookup_in_ram_sv39:
  assumes "get_satp_mode (satp (priv s)) \<noteq> SATP_MODE_BARE" "va_sign_ok va" "\<not> is_err ram"
  shows "lookup_pa_in_ram E ram va s =
    walk_result va (sv39 (ram_words (ramf E (trace s))) (unat va) 2 (satp_root (satp (priv s)))) s"
  using assms walk_sv39 [OF assms(3), of 2 "push_bit 12 (get_satp_ppn (satp (priv s)))" E va s]
  by (simp add: lookup_pa_in_ram_def satp_root_word satp_root_def)

lemma va_sign_bits: "va_sign_ok va \<longleftrightarrow> (\<forall>n<64. bit va n = bit va (min n 39))"
proof -
  have "bit (signed_drop_bit 24 (push_bit 24 va)) n = bit va (min n 39)" if "n < 64" for n
  proof (cases "n < 40")
    case True
    then show ?thesis
      by (cases "n = 39") (simp_all add: bit_signed_drop_bit_iff bit_push_bit_iff min_def)
  next
    case False
    then show ?thesis
      using that by (simp add: bit_signed_drop_bit_iff bit_push_bit_iff min_def)
  qed
  then show ?thesis
    unfolding va_sign_ok_def bit_eq_iff by simp
qed

lemma va_sign_sint: "va_sign_ok va \<longleftrightarrow> - (2 ^ 39) \<le> sint va \<and> sint va < 2 ^ 39"
proof -
  have s: "bit (sint va) n = bit va (min n 63)" for n
    by (cases "n < 64") (auto simp: bit_sint_iff min_def not_less dest: bit_imp_le_length)
  have "signed_take_bit 39 (sint va) = sint va \<longleftrightarrow> (\<forall>n. bit va (min n 63) = bit va (min n 39))"
    unfolding bit_eq_iff by (simp add: bit_signed_take_bit_iff s min.commute min.left_commute) metis
  also have "\<dots> \<longleftrightarrow> (\<forall>n<64. bit va n = bit va (min n 39))"
  proof
    assume a: "\<forall>n<64. bit va n = bit va (min n 39)"
    show "\<forall>n. bit va (min n 63) = bit va (min n 39)"
    proof
      fix n
      show "bit va (min n 63) = bit va (min n 39)"
      proof (cases "n < 64")
        case True
        then have "min n 63 = n" by simp
        moreover have "bit va n = bit va (min n 39)" using a True by blast
        ultimately show ?thesis by (simp only:)
      next
        case False
        then have "min n 63 = 63" "min n 39 = 39" by simp_all
        moreover have "bit va 63 = bit va (min 63 39)" by (rule a [rule_format]) simp
        ultimately show ?thesis by simp
      qed
    qed
  next
    assume a: "\<forall>n. bit va (min n 63) = bit va (min n 39)"
    show "\<forall>n<64. bit va n = bit va (min n 39)"
    proof (intro allI impI)
      fix n :: nat assume "n < 64"
      then have "min n 63 = n" by simp
      then show "bit va n = bit va (min n 39)" using a [rule_format, of n] by simp
    qed
  qed
  finally show ?thesis
    unfolding va_sign_bits by (metis signed_take_bit_int_eq_self_iff)
qed

lemma read_ram_no_undef:
  "unat off + 8 \<le> unat RAM_SIZE \<Longrightarrow> read_ram64 E ram off s \<noteq> Stop Undefined s'"
  by (simp add: read_ram64_def deref_def)

lemma walk_va_cong:
  "get_va_off va' = get_va_off va \<Longrightarrow> walk E ram va' vpn level pt s = walk E ram va vpn level pt s"
proof (induction E ram va vpn level pt arbitrary: s rule: walk.induct)
  case (1 E ram va vpn level pt)
  then show ?case
    by (subst (1 2) walk.simps) (auto simp: andthen_apply split: outcome.split)
qed

lemma sign_ext_39_bits: "n < 64 \<Longrightarrow> bit (sign_ext_39 va) n = bit va (if n < 39 then n else 38)"
  by (cases "n = 38") (auto simp: sign_ext_39_def bit_signed_take_bit_iff min_def)

lemma sign_ext_39_fields:
  "s + w \<le> 39 \<Longrightarrow> bf_get s w (sign_ext_39 va) = bf_get s w va"
  by (rule bit_word_eqI) (auto simp: bit_bf_get sign_ext_39_bits)

lemma sign_ext_39_ok: "va_sign_ok (sign_ext_39 va)"
  unfolding va_sign_bits by (auto simp: sign_ext_39_bits min_def)

lemma lookup_pa_walk:
  assumes "get_satp_mode (satp (priv s)) \<noteq> SATP_MODE_BARE" and "va_sign_ok va"
    and "t = trace s @ [ram_map_call]" and "\<not> is_err (sysret E t)"
  shows "lookup_pa E va s =
    andthen (walk_result va (sv39 (ram_words (ramf E t)) (unat va) 2 (satp_root (satp (priv s)))))
      (\<lambda>res. andthen (s_munmap E (sysret E t) RAM_SIZE) (\<lambda>_. ret res)) (s\<lparr>trace := t\<rparr>)"
proof -
  have "lookup_pa_in_ram E (sysret E t) va (s\<lparr>trace := t\<rparr>) =
    walk_result va (sv39 (ram_words (ramf E t)) (unat va) 2 (satp_root (satp (priv s)))) (s\<lparr>trace := t\<rparr>)"
    using lookup_in_ram_sv39 [of "s\<lparr>trace := t\<rparr>" va "sysret E t" E] assms by simp
  then show ?thesis
    by (simp add: lookup_pa_def assms(3) ram_map_call_def Let_def andthen_apply)
qed

text \<open>The outcome of the walk for the current \<open>satp\<close>, and the calls \<open>lookup_pa\<close> makes.\<close>

definition guest_walk :: "env \<Rightarrow> u64 \<Rightarrow> machine \<Rightarrow> translation" where
  "guest_walk E va s =
     sv39 (ram_words (ramf E (trace s @ [ram_map_call]))) (unat va) 2 (satp_root (satp (priv s)))"

definition walk_trace :: "env \<Rightarrow> machine \<Rightarrow> ecall list" where
  "walk_trace E s = trace s @ [ram_map_call,
     Ecall SYS_munmap [Reg (sysret E (trace s @ [ram_map_call])), Reg RAM_SIZE]]"

definition translating :: "env \<Rightarrow> u64 \<Rightarrow> machine \<Rightarrow> bool" where
  "translating E va s \<longleftrightarrow> get_satp_mode (satp (priv s)) \<noteq> SATP_MODE_BARE \<and> va_sign_ok va
     \<and> \<not> is_err (sysret E (trace s @ [ram_map_call]))"

lemma lookup_pa_result:
  assumes "translating E va s"
  shows "guest_walk E va s = Leaf 0 pte \<Longrightarrow> lookup_pa E va s =
      Ok (Some (of_nat (pte_target pte + unat va mod 4096), of_nat pte)) (s\<lparr>trace := walk_trace E s\<rparr>)"
    and "guest_walk E va s = Fault \<Longrightarrow> lookup_pa E va s = Ok None (s\<lparr>trace := walk_trace E s\<rparr>)"
  using assms lookup_pa_walk [of s va "trace s @ [ram_map_call]" E]
  by (simp_all add: translating_def guest_walk_def walk_result_def walk_trace_def Let_def)

lemma sv39_leaf:
  "sv39 mem va i table = Leaf j pte \<Longrightarrow> \<exists>a. pte = mem a \<and> pte_bit pte 0"
proof (induction i arbitrary: table rule: less_induct)
  case (less i)
  show ?case
    using less.prems less.IH [of "i - 1" "pte_target (mem (table + 8 * va_index va i))"]
    by (subst (asm) sv39.simps) (auto simp: Let_def split: if_splits)
qed

lemma guest_leaf:
  assumes "guest_walk E va s = Leaf j pte"
  shows "pte < 2 ^ 64" "pte_bit pte 0" "(of_nat pte :: u64) \<noteq> 0" "unat (of_nat pte :: u64) = pte"
proof -
  obtain a where a: "pte = ram_words (ramf E (trace s @ [ram_map_call])) a" and v: "pte_bit pte 0"
    using sv39_leaf assms unfolding guest_walk_def by blast
  show v: "pte_bit pte 0" by (fact v)
  show b: "pte < 2 ^ 64"
    using unsigned_less [where ?'a = nat, of "ram64 (ramf E (trace s @ [ram_map_call])) (of_nat a - RAM_START)"]
    by (simp add: a ram_words_def)
  then show u: "unat (of_nat pte :: u64) = pte"
    by (simp add: unsigned_of_nat take_bit_nat_eq_self)
  show "(of_nat pte :: u64) \<noteq> 0"
  proof
    assume "(of_nat pte :: u64) = 0"
    then have "pte = 0" using u by simp
    then show False using v by (simp add: pte_bit_def)
  qed
qed

context machine_inv
begin

lemma keeps_walk [keeps_rules]: "keeps (\<lambda>s. J (priv s)) (walk E ram va vpn level pt)"
proof (induction level arbitrary: pt rule: measure_induct_rule [of "\<lambda>l. 3 - l"])
  case (less level)
  then show ?case
    by (subst walk.simps) (auto simp: read_ram64_def intro!: keeps_rules)
qed

lemma keeps_lookup_pa [keeps_rules]: "keeps (\<lambda>s. J (priv s)) (lookup_pa E va)"
  unfolding lookup_pa_def lookup_pa_in_ram_def by (intro keeps_rules TrueI)

end

section \<open>Properties\<close>

text \<open>
  C5: the walker implements Sv39.  With translation on, an address the walker accepts and the
  RAM file mapped, \<open>lookup_pa\<close> returns what the three-level Sv39 walk over the RAM contents
  gives: the physical address and leaf entry, or no translation on an invalid entry.  The two
  unsupported cases, a leaf above the last level and a table outside RAM, end in \<open>ebreak\<close>
  after a log line.  The mapping of the RAM file is released again.
\<close>

theorem lookup_pa_sv39:
  assumes "get_satp_mode (satp (priv s)) \<noteq> SATP_MODE_BARE" and "va_sign_ok va"
    and "t = trace s @ [ram_map_call]" and "\<not> is_err (sysret E t)"
  shows "lookup_pa E va s =
    andthen (walk_result va (sv39 (ram_words (ramf E t)) (unat va) 2 (satp_root (satp (priv s)))))
      (\<lambda>res. andthen (s_munmap E (sysret E t) RAM_SIZE) (\<lambda>_. ret res)) (s\<lparr>trace := t\<rparr>)"
  using assms by (rule lookup_pa_walk)

text \<open>
  A guest page table: the page \<open>0x1000\<close> is mapped to \<open>0x80005000\<close> with all permissions,
  \<open>0x2000\<close> to \<open>0x80006000\<close> read-only, \<open>0x3000\<close> to the registers at \<open>0x10400000\<close>.
\<close>

definition sample_ram :: "u64 \<Rightarrow> u8" where
  "sample_ram off = (case map_of
     [(0, 0x01), (1, 0x04), (3, 0x20), (0x1000, 0x01), (0x1001, 0x08), (0x1003, 0x20),
      (0x2008, 0x0f), (0x2009, 0x14), (0x200b, 0x20), (0x2010, 0x03), (0x2011, 0x18), (0x2013, 0x20),
      (0x2018, 0x07), (0x201a, 0x10), (0x201b, 0x04)] off of None \<Rightarrow> 0 | Some b \<Rightarrow> b)"

definition sample_env :: env where
  "sample_env = idle_env\<lparr>sysret := (\<lambda>_. 0x2000000000), ramf := (\<lambda>_. sample_ram)\<rparr>"

definition paged_machine :: machine where
  "paged_machine = sample_machine\<lparr>priv := sample_priv\<lparr>satp := 0x8000000000080000\<rparr>\<rparr>"

lemma sample_ram_words:
  "ram_words sample_ram 0x80000000 = 0x20000401" "ram_words sample_ram 0x80001000 = 0x20000801"
  "ram_words sample_ram 0x80002008 = 0x2000140f" "ram_words sample_ram 0x80002010 = 0x20001803"
  "ram_words sample_ram 0x80002018 = 0x04100007" "ram_words sample_ram 0x80002028 = 0"
  by (simp_all add: ram_words_def ram64_def sample_ram_def upt_rec riscv_const)

lemma sample_walk:
  "sv39 (ram_words sample_ram) 0x1234 2 0x80000000 = Leaf 0 0x2000140f"
  "sv39 (ram_words sample_ram) 0x2234 2 0x80000000 = Leaf 0 0x20001803"
  "sv39 (ram_words sample_ram) 0x3000 2 0x80000000 = Leaf 0 0x04100007"
  "sv39 (ram_words sample_ram) 0x5000 2 0x80000000 = Fault"
  by (simp_all add: sv39.simps sample_ram_words va_index_def pte_bit_def pte_target_def)

theorem lookup_pa_sv39_witness:
  "\<not> is_err (sysret sample_env [ram_map_call]) \<and> va_sign_ok 0x1234 \<and>
   lookup_pa sample_env 0x1234 paged_machine = Ok (Some (0x80005234, 0x2000140f))
     (paged_machine\<lparr>trace := [ram_map_call, Ecall SYS_munmap [Reg 0x2000000000, Reg RAM_SIZE]]\<rparr>)"
proof -
  have m: "get_satp_mode (satp (priv paged_machine)) \<noteq> SATP_MODE_BARE"
    by (simp add: paged_machine_def field_defs bf_get_def riscv_const)
  have v: "va_sign_ok 0x1234" by (simp add: va_sign_sint)
  have e: "\<not> is_err (sysret sample_env [ram_map_call])" by (simp add: sample_env_def is_err_def)
  have t: "[ram_map_call] = trace paged_machine @ [ram_map_call]"
    by (simp add: paged_machine_def sample_machine_def)
  have r: "satp_root (satp (priv paged_machine)) = 0x80000000"
    by (simp add: paged_machine_def satp_root_def)
  have f: "ramf sample_env [ram_map_call] = sample_ram" "sysret sample_env [ram_map_call] = 0x2000000000"
    by (simp_all add: sample_env_def)
  show ?thesis
    using lookup_pa_sv39 [OF m v t e] v e
    by (simp add: f r sample_walk walk_result_def pte_target_def Let_def)
qed

text \<open>
  C17: memory safety of the walk.  Whatever the guest put into \<open>satp\<close>, the page tables and the
  faulting address, and whatever the kernel answers, the walker never reads outside the mapped
  RAM and never falls off its loop.
\<close>

theorem lookup_pa_defined: "lookup_pa E va s \<noteq> Stop Undefined s'"
proof -
  have w: "lookup_pa_in_ram E ram va t \<noteq> Stop Undefined s'" for ram t
  proof (cases "is_err ram")
    case True
    then show ?thesis
      by (simp add: lookup_pa_in_ram_def) (subst walk.simps, simp add: read_ram64_def deref_def)
  next
    case False
    then show ?thesis
      using lookup_in_ram_sv39 [of t va ram E] by (auto simp: lookup_pa_in_ram_def walk_result_def split: translation.splits if_splits)
  qed
  then show ?thesis by (auto simp: lookup_pa_def Let_def andthen_apply split: outcome.splits)
qed

text \<open>
  The sign-extension check accepts exactly the addresses that fit 40 signed bits, one bit
  more than an Sv39 address has.
\<close>

lemma va_sign_ok_range: "va_sign_ok va \<longleftrightarrow> - (2 ^ 39) \<le> sint va \<and> sint va < 2 ^ 39"
  by (rule va_sign_sint)

text \<open>
  C34: an address the check accepts is translated as the canonical address with the same low
  39 bits, so a non-canonical address such as \<open>0x4000000000\<close> is an alias of a canonical
  one instead of a page fault.
\<close>

theorem noncanonical_alias:
  assumes "va_sign_ok va" and "get_satp_mode (satp (priv s)) \<noteq> SATP_MODE_BARE"
  shows "lookup_pa_in_ram E ram va s = lookup_pa_in_ram E ram (sign_ext_39 va) s"
  using assms
  by (simp add: lookup_pa_in_ram_def sign_ext_39_ok field_defs sign_ext_39_fields
      walk_va_cong [of va "sign_ext_39 va"])

theorem noncanonical_alias_witness:
  "va_sign_ok 0x4000000000 \<and> sign_ext_39 0x4000000000 = 0xFFFFFFC000000000 \<and>
   lookup_pa_in_ram sample_env 0x2000000000 0x4000000000 paged_machine =
   lookup_pa_in_ram sample_env 0x2000000000 0xFFFFFFC000000000 paged_machine"
proof -
  have m: "get_satp_mode (satp (priv paged_machine)) \<noteq> SATP_MODE_BARE"
    by (simp add: paged_machine_def field_defs bf_get_def riscv_const)
  have v: "va_sign_ok 0x4000000000" by (simp add: va_sign_sint)
  have x: "sign_ext_39 0x4000000000 = 0xFFFFFFC000000000" by (simp add: sign_ext_39_def)
  show ?thesis
    using noncanonical_alias [OF v m, of sample_env "0x2000000000"] v x by simp
qed


lemma sample_translating:
  assumes "va_sign_ok va" and "s = paged_machine\<lparr>priv := (priv paged_machine)\<lparr>priv_mode := m\<rparr>, gregs := g\<rparr>"
    and "E = sample_env\<lparr>gmem := f\<rparr>"
  shows "translating E va s" "guest_walk E va s = sv39 (ram_words sample_ram) (unat va) 2 0x80000000"
  using assms
  by (simp_all add: translating_def guest_walk_def paged_machine_def sample_machine_def sample_env_def is_err_def
      field_defs bf_get_def riscv_const satp_root_def)

lemma paged_inv: "priv_inv (priv paged_machine)" "priv_inv ((priv paged_machine)\<lparr>priv_mode := PRIV_U\<rparr>)"
  using initialize_priv_inv
  by (simp_all add: paged_machine_def sample_priv_def priv_inv_def field_defs bf_get_def riscv_const)

end
