(* ===== verification/Printf_Num.thy ===== *)
theory Printf_Num
  imports Syscalls
begin

text \<open>
  The output functions, the scanning and printing of integers of
  \<^verbatim>\<open>src/src/urvirt-stub/printf.c\<close> (lines 101 to 326).  Characters are bytes, \<open>size_t\<close> is 64
  and \<open>unsigned int\<close> 32 bits wide.

  An output function takes the character, the sink, the index and the limit and gives the new
  sink, as \<open>out_fct_type\<close> does; the sink is any type, so that one model serves the character
  device, a memory buffer and the null sink.  The conversion buffers are lists whose length is
  the C variable \<open>len\<close>.
\<close>

section \<open>Constants and output functions\<close>

definition PRINTF_NTOA_BUFFER_SIZE :: nat where "PRINTF_NTOA_BUFFER_SIZE = 32"

definition FLAGS_ZEROPAD :: u32 where [riscv_const]: "FLAGS_ZEROPAD = push_bit 0 1"
definition FLAGS_LEFT :: u32 where [riscv_const]: "FLAGS_LEFT = push_bit 1 1"
definition FLAGS_PLUS :: u32 where [riscv_const]: "FLAGS_PLUS = push_bit 2 1"
definition FLAGS_SPACE :: u32 where [riscv_const]: "FLAGS_SPACE = push_bit 3 1"
definition FLAGS_HASH :: u32 where [riscv_const]: "FLAGS_HASH = push_bit 4 1"
definition FLAGS_UPPERCASE :: u32 where [riscv_const]: "FLAGS_UPPERCASE = push_bit 5 1"
definition FLAGS_CHAR :: u32 where [riscv_const]: "FLAGS_CHAR = push_bit 6 1"
definition FLAGS_SHORT :: u32 where [riscv_const]: "FLAGS_SHORT = push_bit 7 1"
definition FLAGS_LONG :: u32 where [riscv_const]: "FLAGS_LONG = push_bit 8 1"
definition FLAGS_LONG_LONG :: u32 where [riscv_const]: "FLAGS_LONG_LONG = push_bit 9 1"
definition FLAGS_PRECISION :: u32 where [riscv_const]: "FLAGS_PRECISION = push_bit 10 1"
definition FLAGS_ADAPT_EXP :: u32 where [riscv_const]: "FLAGS_ADAPT_EXP = push_bit 11 1"

abbreviation has :: "u32 \<Rightarrow> u32 \<Rightarrow> bool" where
  "has flags f \<equiv> flags AND f \<noteq> 0"

type_synonym 'b out_fct = "u8 \<Rightarrow> 'b \<Rightarrow> u64 \<Rightarrow> u64 \<Rightarrow> 'b"

abbreviation ch :: "char \<Rightarrow> u8" where
  "ch c \<equiv> of_char c"

text \<open>
  A memory buffer is the list of its bytes; \<open>None\<close> marks that a byte was stored outside it.
\<close>

definition out_buffer :: "u8 list option out_fct" where
  "out_buffer c b idx maxlen =
     (if idx < maxlen then
        (case b of None \<Rightarrow> None
         | Some bs \<Rightarrow> if unat idx < length bs then Some (bs[unat idx := c]) else None)
      else b)"

definition out_null :: "'b out_fct" where
  "out_null c b idx maxlen = b"

definition putchar :: "env \<Rightarrow> u8 \<Rightarrow> ('x world_scheme, unit) prog" where
  "putchar E c = andthen (s_write E 2 [c] 1) (\<lambda>_. skip)"

definition out_char :: "env \<Rightarrow> 'x world_scheme out_fct" where
  "out_char E c s idx maxlen = (if c \<noteq> 0 then outcome_state (putchar E c s) else s)"

definition out_fct_wrapper :: "(u8 \<Rightarrow> 'b \<Rightarrow> 'b) \<Rightarrow> 'b out_fct" where
  "out_fct_wrapper f c b idx maxlen = (if c \<noteq> 0 then f c b else b)"

text \<open>\<^verbatim>\<open>out(c, buffer, idx++, maxlen)\<close>, once and for a sequence of characters.\<close>

definition emit :: "'b out_fct \<Rightarrow> u64 \<Rightarrow> u8 \<Rightarrow> 'b \<times> u64 \<Rightarrow> 'b \<times> u64" where
  "emit out maxlen c st = (out c (fst st) (snd st) maxlen, snd st + 1)"

definition emits :: "'b out_fct \<Rightarrow> u64 \<Rightarrow> u8 list \<Rightarrow> 'b \<times> u64 \<Rightarrow> 'b \<times> u64" where
  "emits out maxlen cs st = fold (emit out maxlen) cs st"

section \<open>Scanning\<close>

definition strnlen_s :: "u8 list \<Rightarrow> u64 \<Rightarrow> u32" where
  "strnlen_s str maxsize = of_nat (min (length str) (unat maxsize))"

definition is_digit :: "u8 \<Rightarrow> bool" where
  "is_digit c \<longleftrightarrow> ch CHR ''0'' \<le> c \<and> c \<le> ch CHR ''9''"

fun atoi_from :: "u32 \<Rightarrow> u8 list \<Rightarrow> u32 \<times> u8 list" where
  "atoi_from i [] = (i, [])"
| "atoi_from i (c # str) =
     (if is_digit c then atoi_from (i * 10 + ucast (c - ch CHR ''0'')) str else (i, c # str))"

definition atoi :: "u8 list \<Rightarrow> u32 \<times> u8 list" where
  "atoi str = atoi_from 0 str"

section \<open>Numbers\<close>

text \<open>
  \<open>out_rev\<close>: pad with spaces on the left, the buffer in reverse, pad on the right up to
  \<open>width\<close> characters since \<open>start_idx\<close>.
\<close>

definition out_rev ::
  "'b out_fct \<Rightarrow> u64 \<Rightarrow> u8 list \<Rightarrow> u32 \<Rightarrow> u32 \<Rightarrow> 'b \<times> u64 \<Rightarrow> 'b \<times> u64" where
  "out_rev out maxlen buf width flags st0 =
     (let st = (if \<not> has flags FLAGS_LEFT \<and> \<not> has flags FLAGS_ZEROPAD
                then emits out maxlen (replicate (unat width - length buf) (ch CHR '' '')) st0
                else st0);
          st = emits out maxlen (rev buf) st
      in if has flags FLAGS_LEFT
         then emits out maxlen (replicate (unat width - unat (snd st - snd st0)) (ch CHR '' '')) st
         else st)"

text \<open>\<^verbatim>\<open>while ((len < n) && (len < PRINTF_NTOA_BUFFER_SIZE)) buf[len++] = '0';\<close>\<close>

definition pad_zeros :: "nat \<Rightarrow> u8 list \<Rightarrow> u8 list" where
  "pad_zeros n buf = buf @ replicate (min n PRINTF_NTOA_BUFFER_SIZE - length buf) (ch CHR ''0'')"

definition push_if_room :: "u8 \<Rightarrow> u8 list \<Rightarrow> u8 list" where
  "push_if_room c buf = (if length buf < PRINTF_NTOA_BUFFER_SIZE then buf @ [c] else buf)"

definition ntoa_pad :: "u8 list \<Rightarrow> bool \<Rightarrow> u32 \<Rightarrow> u32 \<Rightarrow> u32 \<Rightarrow> u8 list \<times> u32" where
  "ntoa_pad buf negative prec width flags =
     (if has flags FLAGS_LEFT then (buf, width)
      else
        let width = (if width \<noteq> 0 \<and> has flags FLAGS_ZEROPAD
                        \<and> (negative \<or> has flags (FLAGS_PLUS OR FLAGS_SPACE))
                     then width - 1 else width);
            buf = pad_zeros (unat prec) buf;
            buf = (if has flags FLAGS_ZEROPAD then pad_zeros (unat width) buf else buf)
        in (buf, width))"

definition ntoa_hash :: "u8 list \<Rightarrow> u32 \<Rightarrow> u32 \<Rightarrow> u32 \<Rightarrow> u32 \<Rightarrow> u8 list" where
  "ntoa_hash buf base prec width flags =
     (if has flags FLAGS_HASH then
        let buf = (if \<not> has flags FLAGS_PRECISION \<and> buf \<noteq> []
                      \<and> (length buf = unat prec \<or> length buf = unat width)
                   then let buf = butlast buf
                        in if buf \<noteq> [] \<and> base = 16 then butlast buf else buf
                   else buf);
            buf = (if base = 16 \<and> \<not> has flags FLAGS_UPPERCASE \<and> length buf < PRINTF_NTOA_BUFFER_SIZE
                   then buf @ [ch CHR ''x'']
                   else if base = 16 \<and> has flags FLAGS_UPPERCASE
                           \<and> length buf < PRINTF_NTOA_BUFFER_SIZE
                   then buf @ [ch CHR ''X'']
                   else if base = 2 \<and> length buf < PRINTF_NTOA_BUFFER_SIZE
                   then buf @ [ch CHR ''b'']
                   else buf)
        in push_if_room (ch CHR ''0'') buf
      else buf)"

definition ntoa_sign :: "u8 list \<Rightarrow> bool \<Rightarrow> u32 \<Rightarrow> u8 list" where
  "ntoa_sign buf negative flags =
     (if negative then push_if_room (ch CHR ''-'') buf
      else if has flags FLAGS_PLUS then push_if_room (ch CHR ''+'') buf
      else if has flags FLAGS_SPACE then push_if_room (ch CHR '' '') buf
      else buf)"

definition ntoa_format ::
  "'b out_fct \<Rightarrow> u64 \<Rightarrow> u8 list \<Rightarrow> bool \<Rightarrow> u32 \<Rightarrow> u32 \<Rightarrow> u32 \<Rightarrow> u32 \<Rightarrow> 'b \<times> u64 \<Rightarrow> 'b \<times> u64" where
  "ntoa_format out maxlen buf negative base prec width flags st =
     (let (buf, width) = ntoa_pad buf negative prec width flags;
          buf = ntoa_hash buf base prec width flags;
          buf = ntoa_sign buf negative flags
      in out_rev out maxlen buf width flags st)"

definition digit_char :: "u32 \<Rightarrow> u8 \<Rightarrow> u8" where
  "digit_char flags d =
     (if d < 10 then ch CHR ''0'' + d
      else (if has flags FLAGS_UPPERCASE then ch CHR ''A'' else ch CHR ''a'') + d - 10)"

text \<open>The \<open>do\<close>-\<open>while\<close> loop that stores the digits, least significant first.\<close>

function ntoa_digits :: "u64 \<Rightarrow> u32 \<Rightarrow> u64 \<Rightarrow> u8 list \<Rightarrow> u8 list" where
  "ntoa_digits base flags v buf =
     (let buf = buf @ [digit_char flags (ucast (v mod base))];
          v = v div base
      in if v \<noteq> 0 \<and> length buf < PRINTF_NTOA_BUFFER_SIZE then ntoa_digits base flags v buf else buf)"
  by pat_completeness auto
termination
  by (relation "measure (\<lambda>(base, flags, v, buf). PRINTF_NTOA_BUFFER_SIZE - length buf)") auto

declare ntoa_digits.simps [simp del]

definition ntoa_long ::
  "'b out_fct \<Rightarrow> u64 \<Rightarrow> u64 \<Rightarrow> bool \<Rightarrow> u64 \<Rightarrow> u32 \<Rightarrow> u32 \<Rightarrow> u32 \<Rightarrow> 'b \<times> u64 \<Rightarrow> 'b \<times> u64" where
  "ntoa_long out maxlen v negative base prec width flags st =
     (let flags = (if v = 0 then flags AND NOT FLAGS_HASH else flags);
          buf = (if \<not> has flags FLAGS_PRECISION \<or> v \<noteq> 0 then ntoa_digits base flags v [] else [])
      in ntoa_format out maxlen buf negative (ucast base) prec width flags st)"

text \<open>\<open>unsigned long long\<close> has the width of \<open>unsigned long\<close>.\<close>

definition ntoa_long_long ::
  "'b out_fct \<Rightarrow> u64 \<Rightarrow> u64 \<Rightarrow> bool \<Rightarrow> u64 \<Rightarrow> u32 \<Rightarrow> u32 \<Rightarrow> u32 \<Rightarrow> 'b \<times> u64 \<Rightarrow> 'b \<times> u64" where
  "ntoa_long_long out maxlen v negative base prec width flags st =
     (let flags = (if v = 0 then flags AND NOT FLAGS_HASH else flags);
          buf = (if \<not> has flags FLAGS_PRECISION \<or> v \<noteq> 0 then ntoa_digits base flags v [] else [])
      in ntoa_format out maxlen buf negative (ucast base) prec width flags st)"

section \<open>The text that is printed\<close>

text \<open>The sink that keeps every character.\<close>

definition collect :: "u8 list out_fct" where
  "collect c b idx maxlen = b @ [c]"

definition rev_text :: "u8 list \<Rightarrow> u32 \<Rightarrow> u32 \<Rightarrow> u8 list" where
  "rev_text buf width flags =
     (let pad = replicate (unat width - length buf) (ch CHR '' '')
      in (if \<not> has flags FLAGS_LEFT \<and> \<not> has flags FLAGS_ZEROPAD then pad else [])
         @ rev buf @ (if has flags FLAGS_LEFT then pad else []))"

definition ntoa_buffer :: "u64 \<Rightarrow> bool \<Rightarrow> u64 \<Rightarrow> u32 \<Rightarrow> u32 \<Rightarrow> u32 \<Rightarrow> u8 list" where
  "ntoa_buffer v negative base prec width flags =
     (let buf = (if \<not> has flags FLAGS_PRECISION \<or> v \<noteq> 0 then ntoa_digits base flags v [] else []);
          padded = ntoa_pad buf negative prec width flags
      in ntoa_sign (ntoa_hash (fst padded) (ucast base) prec (snd padded) flags) negative flags)"

definition ntoa_text :: "u64 \<Rightarrow> bool \<Rightarrow> u64 \<Rightarrow> u32 \<Rightarrow> u32 \<Rightarrow> u32 \<Rightarrow> u8 list" where
  "ntoa_text v negative base prec width flags0 =
     (let flags = (if v = 0 then flags0 AND NOT FLAGS_HASH else flags0)
      in rev_text (ntoa_buffer v negative base prec width flags)
           (snd (ntoa_pad [] negative prec width flags)) flags)"

section \<open>Printing is independent of the sink\<close>

lemma emits_simps [simp]:
  "emits out m [] st = st" "emits out m (c # cs) st = emits out m cs (emit out m c st)"
  "emits out m (xs @ ys) st = emits out m ys (emits out m xs st)"
  by (simp_all add: emits_def)

lemma emits_index: "snd (emits out m cs st) = snd st + of_nat (length cs)"
  by (induction cs arbitrary: st) (simp_all add: emit_def algebra_simps)

lemma emits_collect: "emits collect m cs (b, i) = (b @ cs, i + of_nat (length cs))"
  by (induction cs arbitrary: b i) (simp_all add: emit_def collect_def algebra_simps)

lemma out_rev_emits:
  assumes "length buf \<le> 32"
  shows "out_rev out m buf width flags st = emits out m (rev_text buf width flags) st"
proof -
  have "(of_nat (length buf) :: u64) + x - x = of_nat (length buf)" for x by simp
  moreover have "unat (of_nat (length buf) :: u64) = length buf"
    using assms by (simp add: unsigned_of_nat take_bit_nat_eq_self)
  ultimately show ?thesis
    by (simp add: out_rev_def rev_text_def Let_def emits_index)
qed

lemma pad_zeros_length: "length buf \<le> 32 \<Longrightarrow> length (pad_zeros n buf) \<le> 32"
  by (simp add: pad_zeros_def PRINTF_NTOA_BUFFER_SIZE_def)

lemma push_if_room_length: "length buf \<le> 32 \<Longrightarrow> length (push_if_room c buf) \<le> 32"
  by (simp add: push_if_room_def PRINTF_NTOA_BUFFER_SIZE_def)

lemma ntoa_pad_length: "length buf \<le> 32 \<Longrightarrow> length (fst (ntoa_pad buf n prec width flags)) \<le> 32"
  by (simp add: ntoa_pad_def Let_def pad_zeros_length)

lemma ntoa_hash_length: "length buf \<le> 32 \<Longrightarrow> length (ntoa_hash buf base prec width flags) \<le> 32"
  by (auto simp: ntoa_hash_def Let_def PRINTF_NTOA_BUFFER_SIZE_def intro!: push_if_room_length)

lemma ntoa_sign_length: "length buf \<le> 32 \<Longrightarrow> length (ntoa_sign buf n flags) \<le> 32"
  by (simp add: ntoa_sign_def push_if_room_length)

lemma ntoa_digits_length: "length buf < 32 \<Longrightarrow> length (ntoa_digits base flags v buf) \<le> 32"
proof (induction base flags v buf rule: ntoa_digits.induct)
  case (1 base flags v buf)
  then show ?case
    by (subst ntoa_digits.simps) (auto simp: Let_def PRINTF_NTOA_BUFFER_SIZE_def)
qed

lemma ntoa_buffer_length: "length (ntoa_buffer v n base prec width flags) \<le> 32"
  by (simp add: ntoa_buffer_def Let_def ntoa_digits_length ntoa_sign_length ntoa_hash_length
      ntoa_pad_length)

lemma ntoa_pad_width: "snd (ntoa_pad buf n prec width flags) = snd (ntoa_pad [] n prec width flags)"
  by (simp add: ntoa_pad_def Let_def)

lemma ntoa_long_emits:
  "ntoa_long out m v n base prec width flags st = emits out m (ntoa_text v n base prec width flags) st"
  "ntoa_long_long out m v n base prec width flags st = emits out m (ntoa_text v n base prec width flags) st"
proof -
  show "ntoa_long out m v n base prec width flags st = emits out m (ntoa_text v n base prec width flags) st"
    unfolding ntoa_long_def ntoa_text_def ntoa_format_def Let_def case_prod_beta
    by (subst out_rev_emits) (simp_all add: ntoa_pad_width [of "ntoa_digits _ _ _ _"] ntoa_buffer_def Let_def
        ntoa_digits_length ntoa_sign_length ntoa_hash_length ntoa_pad_length)
  then show "ntoa_long_long out m v n base prec width flags st = emits out m (ntoa_text v n base prec width flags) st"
    by (simp add: ntoa_long_def ntoa_long_long_def)
qed

lemma fst_emits_collect [simp]: "fst (emits collect m cs ([], 0)) = cs"
  by (simp add: emits_collect)

section \<open>Numerals\<close>

text \<open>The digits of \<open>n\<close> in base \<open>b\<close>, least significant first, and their value.\<close>

function lsd :: "nat \<Rightarrow> nat \<Rightarrow> nat list" where
  "lsd b n = (if b \<le> 1 \<or> n < b then [n] else n mod b # lsd b (n div b))"
  by pat_completeness auto
termination
  by (relation "measure snd") (auto intro: div_less_dividend)

declare lsd.simps [simp del]

fun lsd_value :: "nat \<Rightarrow> nat list \<Rightarrow> nat" where
  "lsd_value b [] = 0"
| "lsd_value b (d # ds) = d + b * lsd_value b ds"

definition numeral_text :: "u32 \<Rightarrow> nat \<Rightarrow> nat \<Rightarrow> u8 list" where
  "numeral_text flags b n = map (\<lambda>d. digit_char flags (of_nat d)) (rev (lsd b n))"

lemma lsd_value: "lsd_value b (lsd b n) = n"
proof (induction b n rule: lsd.induct)
  case (1 b n)
  then show ?case
    by (subst lsd.simps) simp
qed

lemma lsd_digit: "2 \<le> b \<Longrightarrow> d \<in> set (lsd b n) \<Longrightarrow> d < b"
proof (induction b n rule: lsd.induct)
  case (1 b n)
  then show ?case
    by (subst (asm) (2) lsd.simps) (auto split: if_splits)
qed

lemma lsd_length: "n < b ^ Suc k \<Longrightarrow> 2 \<le> b \<Longrightarrow> length (lsd b n) \<le> Suc k"
proof (induction k arbitrary: n)
  case 0
  then show ?case by (subst lsd.simps) simp
next
  case (Suc k)
  then have "n div b < b ^ Suc k" by (simp add: less_mult_imp_div_less mult.commute)
  then show ?case using Suc by (subst lsd.simps) simp
qed

lemma ntoa_digits_lsd:
  assumes "2 \<le> unat base" "unat base \<le> 256" "length buf + length (lsd (unat base) (unat v)) \<le> 32"
  shows "ntoa_digits base flags v buf =
    buf @ map (\<lambda>d. digit_char flags (of_nat d)) (lsd (unat base) (unat v))"
  using assms
proof (induction base flags v buf rule: ntoa_digits.induct)
  case (1 base flags v buf)
  have z: "v div base = 0 \<longleftrightarrow> unat v < unat base"
    using "1.prems"(1) by (auto simp: word_unat_eq_iff unat_div_distrib div_eq_0_iff)
  have c: "ucast (v mod base) = (of_nat (unat v mod unat base) :: u8)"
    by (simp add: unat_mod_distrib [symmetric])
  show ?case
  proof (cases "unat v < unat base")
    case True
    then show ?thesis
      using z c by (subst ntoa_digits.simps, subst lsd.simps) (simp add: Let_def)
  next
    case False
    have l: "lsd (unat base) (unat v) = unat v mod unat base # lsd (unat base) (unat (v div base))"
      using "1.prems"(1) False by (subst lsd.simps) (simp add: unat_div_distrib)
    have "lsd (unat base) (unat (v div base)) \<noteq> []"
      by (subst lsd.simps) simp
    then obtain x xs where "lsd (unat base) (unat (v div base)) = x # xs" by (meson list.exhaust)
    then have r: "length (buf @ [x]) < PRINTF_NTOA_BUFFER_SIZE" for x
      using "1.prems"(3) l by (simp add: PRINTF_NTOA_BUFFER_SIZE_def)
    show ?thesis
      using "1.IH" [OF refl refl] "1.prems" False z c l r
      by (subst ntoa_digits.simps) (simp add: Let_def)
  qed
qed

lemma lsd10_length: "unat (v :: u64) < 2 ^ 64 \<Longrightarrow> length (lsd 10 (unat v)) \<le> 20"
  using lsd_length [of "unat v" 10 19] by simp

lemma lsd16_length: "unat (v :: u64) < 2 ^ 64 \<Longrightarrow> length (lsd 16 (unat v)) \<le> 16"
  using lsd_length [of "unat v" 16 15] by simp

definition signed_text :: "int \<Rightarrow> u8 list" where
  "signed_text i = (if i < 0 then [ch CHR ''-''] else []) @ numeral_text 0 10 (nat \<bar>i\<bar>)"

lemma no_flags: "numeral_text FLAGS_LONG b n = numeral_text 0 b n"
  by (simp add: numeral_text_def digit_char_def riscv_const)

lemma ntoa_plain:
  assumes "f = 0 \<or> f = FLAGS_LONG" "base = 10 \<or> base = 16"
  shows "ntoa_text v n base 0 0 f =
    (if n then [ch CHR ''-''] else []) @ numeral_text f (unat base) (unat v)"
proof -
  have flags: "FLAGS_LONG AND FLAGS_LEFT = 0" "FLAGS_LONG AND FLAGS_ZEROPAD = 0" "FLAGS_LONG AND FLAGS_PRECISION = 0"
      "FLAGS_LONG AND FLAGS_HASH = 0" "FLAGS_LONG AND FLAGS_PLUS = 0" "FLAGS_LONG AND FLAGS_SPACE = 0"
      "FLAGS_LONG AND NOT FLAGS_HASH = FLAGS_LONG"
    by (simp_all add: riscv_const)
  have "length (lsd (unat base) (unat v)) \<le> 20"
    using assms(2) lsd10_length [of v] lsd16_length [of v] unsigned_less [of v, where ?'a = nat] by auto
  then have "ntoa_digits base f v [] = rev (numeral_text f (unat base) (unat v))"
      "length (numeral_text f (unat base) (unat v)) \<le> 20"
    using assms(2) by (auto simp: ntoa_digits_lsd numeral_text_def rev_map)
  then have "ntoa_buffer v n base 0 0 g = rev ((if n then [ch CHR ''-''] else []) @ numeral_text f (unat base) (unat v))"
    if "g = f" for g
    using assms(1) that
    by (auto simp: ntoa_buffer_def ntoa_pad_def ntoa_hash_def ntoa_sign_def pad_zeros_def push_if_room_def
        PRINTF_NTOA_BUFFER_SIZE_def flags)
  moreover have "rev_text buf 0 f = rev buf" for buf
    using assms(1) by (auto simp: rev_text_def flags)
  ultimately show ?thesis
    using assms(1) by (auto simp: ntoa_text_def ntoa_pad_def flags)
qed

lemma unat_widen: "unat (ucast (x :: u32) :: u64) = unat x"
  using unsigned_less [of x, where ?'a = nat]
  by (simp add: unsigned_ucast_eq take_bit_nat_eq_self)

end
