(* ===== verification/Float64.thy ===== *)
theory Float64
  imports Prelude Complex_Main "HOL-Library.Log_Nat"
begin

text \<open>
  The type \<open>double\<close> of C on riscv64, IEEE 754 binary64 with rounding to nearest, ties to even, as
  far as \<^verbatim>\<open>src/src/urvirt-stub/printf.c\<close> uses it.  A \<open>double\<close> is its 64 bits.  Every operation
  computes the exact rational result and rounds it once; the definitions are executable.
\<close>

section \<open>Format\<close>

definition f_expo_field :: "u64 \<Rightarrow> int" where
  "f_expo_field a = uint a div 2 ^ 52 mod 2 ^ 11"

definition f_man_field :: "u64 \<Rightarrow> int" where
  "f_man_field a = uint a mod 2 ^ 52"

definition f_sign :: "u64 \<Rightarrow> bool" where
  "f_sign a \<longleftrightarrow> 2 ^ 63 \<le> uint a"

definition f_nan :: "u64 \<Rightarrow> bool" where
  "f_nan a \<longleftrightarrow> f_expo_field a = 2047 \<and> f_man_field a \<noteq> 0"

definition f_inf :: "u64 \<Rightarrow> bool" where
  "f_inf a \<longleftrightarrow> f_expo_field a = 2047 \<and> f_man_field a = 0"

definition mag_val :: "int \<Rightarrow> int \<Rightarrow> rat" where
  "mag_val e f = (if e = 0 then of_int f * 2 powi - 1074 else of_int (2 ^ 52 + f) * 2 powi (e - 1075))"

definition f_val :: "u64 \<Rightarrow> rat" where
  "f_val a = (let v = mag_val (f_expo_field a) (f_man_field a) in if f_sign a then - v else v)"

section \<open>Rounding\<close>

definition half_even :: "rat \<Rightarrow> int" where
  "half_even r = (let m = \<lfloor>r\<rfloor>; d = r - of_int m
     in if d < 1 / 2 then m else if 1 / 2 < d then m + 1 else if even m then m else m + 1)"

definition log2_floor :: "rat \<Rightarrow> int" where
  "log2_floor r = (let (a, b) = quotient_of r; k = bitlen a - bitlen b
     in if 2 powi k \<le> r then k else k - 1)"

definition round_mag :: "rat \<Rightarrow> int" where
  "round_mag r = (if r = 0 then 0 else
     let e = max (- 1022) (log2_floor r); m = half_even (r / 2 powi (e - 52))
     in min ((e + 1022) * 2 ^ 52 + m) (2047 * 2 ^ 52))"

definition f_round :: "bool \<Rightarrow> rat \<Rightarrow> u64" where
  "f_round neg_zero r = of_int ((if r < 0 \<or> r = 0 \<and> neg_zero then 2 ^ 63 else 0) + round_mag \<bar>r\<bar>)"

section \<open>Operations\<close>

definition NAN :: u64 where "NAN = 0x7FF8000000000000"
definition DBL_MAX :: u64 where "DBL_MAX = 0x7FEFFFFFFFFFFFFF"

definition infinity :: "bool \<Rightarrow> u64" where
  "infinity s = (if s then 0xFFF0000000000000 else 0x7FF0000000000000)"

definition f_lit :: "rat \<Rightarrow> u64" where "f_lit r = f_round False r"
definition f_of_int :: "int \<Rightarrow> u64" where "f_of_int n = f_round False (of_int n)"

definition f_neg :: "u64 \<Rightarrow> u64" where "f_neg a = a XOR 2 ^ 63"

definition f_add :: "u64 \<Rightarrow> u64 \<Rightarrow> u64" where
  "f_add a b =
     (if f_nan a \<or> f_nan b \<or> f_inf a \<and> f_inf b \<and> f_sign a \<noteq> f_sign b then NAN
      else if f_inf a then a else if f_inf b then b
      else f_round (f_sign a \<and> f_sign b) (f_val a + f_val b))"

definition f_sub :: "u64 \<Rightarrow> u64 \<Rightarrow> u64" where
  "f_sub a b =
     (if f_nan a \<or> f_nan b \<or> f_inf a \<and> f_inf b \<and> f_sign a = f_sign b then NAN
      else if f_inf a then a else if f_inf b then infinity (\<not> f_sign b)
      else f_round (f_sign a \<and> \<not> f_sign b) (f_val a - f_val b))"

definition f_mul :: "u64 \<Rightarrow> u64 \<Rightarrow> u64" where
  "f_mul a b =
     (let s = (f_sign a \<noteq> f_sign b)
      in if f_nan a \<or> f_nan b \<or> f_inf a \<and> f_val b = 0 \<or> f_val a = 0 \<and> f_inf b then NAN
         else if f_inf a \<or> f_inf b then infinity s
         else f_round s (f_val a * f_val b))"

definition f_div :: "u64 \<Rightarrow> u64 \<Rightarrow> u64" where
  "f_div a b =
     (let s = (f_sign a \<noteq> f_sign b)
      in if f_nan a \<or> f_nan b \<or> f_inf a \<and> f_inf b \<or> f_val a = 0 \<and> f_val b = 0 then NAN
         else if f_inf a \<or> f_val b = 0 then infinity s
         else if f_inf b then f_round s 0
         else f_round s (f_val a / f_val b))"

text \<open>Comparisons; the value of an infinity is beyond every finite one.\<close>

definition f_lt :: "u64 \<Rightarrow> u64 \<Rightarrow> bool" where
  "f_lt a b \<longleftrightarrow> \<not> f_nan a \<and> \<not> f_nan b \<and> f_val a < f_val b"

definition f_le :: "u64 \<Rightarrow> u64 \<Rightarrow> bool" where
  "f_le a b \<longleftrightarrow> \<not> f_nan a \<and> \<not> f_nan b \<and> f_val a \<le> f_val b"

definition f_eq :: "u64 \<Rightarrow> u64 \<Rightarrow> bool" where
  "f_eq a b \<longleftrightarrow> \<not> f_nan a \<and> \<not> f_nan b \<and> f_val a = f_val b"

text \<open>Conversion to an integer type with the given range truncates; it is undefined outside the range.\<close>

definition f_trunc :: "u64 \<Rightarrow> int" where
  "f_trunc a = (if f_sign a then - \<lfloor>- f_val a\<rfloor> else \<lfloor>f_val a\<rfloor>)"

definition f_to_int :: "int \<Rightarrow> int \<Rightarrow> u64 \<Rightarrow> int option" where
  "f_to_int lo hi a = (if f_nan a \<or> f_inf a \<or> f_trunc a < lo \<or> hi < f_trunc a then None else Some (f_trunc a))"

section \<open>Rounding is exact on integers of 53 bits\<close>

lemma log2_floor_bounds:
  assumes "0 < r"
  shows "2 powi (log2_floor r) \<le> r" "r < 2 powi (log2_floor r + 1)"
proof -
  obtain a b where q: "quotient_of r = (a, b)" by fastforce
  have b: "0 < b" and r: "r = of_int a / of_int b"
    using quotient_of_denom_pos [OF q] quotient_of_div [OF q] by simp_all
  have a: "0 < a" using assms r b by (simp add: zero_less_divide_iff)
  have len: "2 powi (bitlen x - 1) \<le> (of_int x :: rat)" "(of_int x :: rat) < 2 powi (bitlen x)" if "0 < x" for x :: int
  proof -
    have "0 < bitlen x" using that by (simp add: bitlen_def) (simp add: floorlog_eq_zero_iff neq0_conv [symmetric] del: neq0_conv)
    moreover have "2 ^ nat (bitlen x - 1) \<le> x" "x < 2 ^ nat (bitlen x)" using bitlen_bounds [OF that] by auto
    ultimately show "2 powi (bitlen x - 1) \<le> (of_int x :: rat)" "(of_int x :: rat) < 2 powi (bitlen x)"
      by (simp_all add: power_int_def)
  qed
  let ?k = "bitlen a - bitlen b"
  have "2 powi (?k - 1) \<le> r" "r < 2 powi (?k + 1)"
  proof -
    have "2 powi (?k - 1) = (2 powi (bitlen a - 1) :: rat) / 2 powi bitlen b"
      by (simp flip: power_int_diff add: algebra_simps)
    also have "\<dots> \<le> r" unfolding r using len [OF a] len [OF b] b a by (intro frac_le) auto
    finally show "2 powi (?k - 1) \<le> r" .
    have "r < (2 powi bitlen a :: rat) / 2 powi (bitlen b - 1)"
      unfolding r using len [OF a] len [OF b] b a by (intro frac_less) auto
    also have "\<dots> = 2 powi (?k + 1)" by (simp flip: power_int_diff add: algebra_simps)
    finally show "r < 2 powi (?k + 1)" .
  qed
  then show "2 powi (log2_floor r) \<le> r" "r < 2 powi (log2_floor r + 1)"
    by (auto simp: log2_floor_def q Let_def)
qed

lemma half_even_int [simp]: "half_even (of_int m) = m"
  by (simp add: half_even_def)

lemma f_round_fields:
  assumes "0 \<le> round_mag \<bar>r\<bar>" "round_mag \<bar>r\<bar> \<le> 2047 * 2 ^ 52"
  shows "f_expo_field (f_round z r) = round_mag \<bar>r\<bar> div 2 ^ 52" "f_man_field (f_round z r) = round_mag \<bar>r\<bar> mod 2 ^ 52"
    "f_sign (f_round z r) \<longleftrightarrow> r < 0 \<or> r = 0 \<and> z"
proof -
  let ?s = "if r < 0 \<or> r = 0 \<and> z then 2 ^ 63 else (0 :: int)"
  have "0 \<le> ?s + round_mag \<bar>r\<bar>" "?s + round_mag \<bar>r\<bar> < 2 ^ 64" using assms by auto
  then have u: "uint (f_round z r) = ?s + round_mag \<bar>r\<bar>"
    unfolding f_round_def by (simp only: unsigned_of_int take_bit_int_eq_self_iff uint_word_of_int) (simp add: take_bit_int_eq_self)
  have d: "(?s + m) div 2 ^ 52 = (if r < 0 \<or> r = 0 \<and> z then 2 ^ 11 else 0) + m div 2 ^ 52" for m by (simp add: div_plus_div_distrib_dvd_left)
  have m: "(?s + m) mod 2 ^ 52 = m mod 2 ^ 52" for m by (simp add: mod_add_eq flip: mod_add_left_eq)
  have "0 \<le> round_mag \<bar>r\<bar> div 2 ^ 52" "round_mag \<bar>r\<bar> div 2 ^ 52 < 2 ^ 11" using assms by auto
  then show "f_expo_field (f_round z r) = round_mag \<bar>r\<bar> div 2 ^ 52"
    unfolding f_expo_field_def u d by (cases "r < 0 \<or> r = 0 \<and> z") (simp_all only: if_True if_False mod_add_self1 add_0 mod_pos_pos_trivial)
  show "f_man_field (f_round z r) = round_mag \<bar>r\<bar> mod 2 ^ 52"
    unfolding f_man_field_def u m ..
  show "f_sign (f_round z r) \<longleftrightarrow> r < 0 \<or> r = 0 \<and> z"
    unfolding f_sign_def u using assms by auto
qed

lemma round_mag_int:
  assumes "0 < n" "n < 2 ^ 53"
  defines "l \<equiv> log2_floor (of_int n)"
  shows "round_mag (of_int n) = (l + 1022) * 2 ^ 52 + n * 2 ^ nat (52 - l)" "0 \<le> l" "l \<le> 52"
    "2 ^ 52 \<le> n * 2 ^ nat (52 - l)" "n * 2 ^ nat (52 - l) < 2 ^ 53"
proof -
  have b: "2 powi l \<le> (of_int n :: rat)" "(of_int n :: rat) < 2 powi (l + 1)"
    unfolding l_def using log2_floor_bounds [of "of_int n"] assms(1) by simp_all
  show l0: "0 \<le> l"
  proof (rule ccontr)
    assume "\<not> 0 \<le> l"
    then have "2 powi (l + 1) \<le> (2 powi 0 :: rat)" by (intro power_int_increasing) auto
    then show False using b(2) assms(1) by (simp add: not_less [symmetric])
  qed
  have p: "2 powi k = (of_int (2 ^ nat k) :: rat)" if "0 \<le> k" for k using that by (simp add: power_int_def)
  have b': "2 ^ nat l \<le> n" "n < 2 ^ nat (l + 1)"
    using b l0 unfolding p [OF l0] p [of "l + 1", OF add_nonneg_nonneg [OF l0 zero_le_one]] by linarith+
  show l52: "l \<le> 52"
  proof (rule ccontr)
    assume "\<not> l \<le> 52"
    then have "(2 :: int) ^ 53 \<le> 2 ^ nat l" by (intro power_increasing) auto
    then show False using b'(1) assms(2) by linarith
  qed
  have s: "(2 :: int) ^ nat l * 2 ^ nat (52 - l) = 2 ^ 52" "(2 :: int) ^ nat (l + 1) * 2 ^ nat (52 - l) = 2 ^ 53"
    using l0 l52 by (simp_all flip: power_add nat_add_distrib)
  have "2 ^ nat l * 2 ^ nat (52 - l) \<le> n * 2 ^ nat (52 - l)" using b'(1) by simp
  then show lo: "2 ^ 52 \<le> n * 2 ^ nat (52 - l)" unfolding s .
  have "n * 2 ^ nat (52 - l) < 2 ^ nat (l + 1) * 2 ^ nat (52 - l)" using b'(2) by simp
  then show hi: "n * 2 ^ nat (52 - l) < 2 ^ 53" unfolding s .
  have "(of_int n :: rat) / 2 powi (l - 52) = of_int n * 2 powi (52 - l)"
    by (simp add: power_int_minus [symmetric] divide_inverse)
  also have "\<dots> = of_int (n * 2 ^ nat (52 - l))" using p [of "52 - l"] l52 by simp
  finally have "half_even (of_int n / 2 powi (l - 52)) = n * 2 ^ nat (52 - l)"
    by (simp only: half_even_int)
  moreover have "max (- 1022) l = l" using l0 by simp
  ultimately show "round_mag (of_int n) = (l + 1022) * 2 ^ 52 + n * 2 ^ nat (52 - l)"
    using assms(1) l0 l52 hi unfolding round_mag_def Let_def l_def [symmetric] by simp
qed

lemma packed:
  assumes "2 ^ 52 \<le> m" "m < 2 ^ 53"
  shows "((l + 1022) * 2 ^ 52 + m) div 2 ^ 52 = l + 1023" "((l + 1022) * 2 ^ 52 + m) mod 2 ^ 52 = m - (2 ^ 52 :: int)"
proof -
  have "(l + 1022) * 2 ^ 52 + m = (m - 2 ^ 52) + (l + 1023) * 2 ^ 52" by (simp add: algebra_simps)
  moreover have "0 \<le> m - 2 ^ 52" "m - 2 ^ 52 < 2 ^ 52" using assms by simp_all
  ultimately show "((l + 1022) * 2 ^ 52 + m) div 2 ^ 52 = l + 1023" "((l + 1022) * 2 ^ 52 + m) mod 2 ^ 52 = m - (2 ^ 52 :: int)"
    by (simp_all only: div_mult_self1 mod_mult_self1 div_pos_pos_trivial mod_pos_pos_trivial)
qed

lemma f_val_round_int:
  assumes "\<bar>n\<bar> < 2 ^ 53"
  shows "f_val (f_round z (of_int n)) = of_int n" "\<not> f_nan (f_round z (of_int n))" "\<not> f_inf (f_round z (of_int n))"
    "f_sign (f_round z (of_int n)) \<longleftrightarrow> n < 0 \<or> n = 0 \<and> z"
proof -
  have "f_val (f_round z (of_int n)) = of_int n \<and> \<not> f_nan (f_round z (of_int n)) \<and> \<not> f_inf (f_round z (of_int n))
    \<and> (f_sign (f_round z (of_int n)) \<longleftrightarrow> n < 0 \<or> n = 0 \<and> z)"
  proof (cases "n = 0")
    case True
    then have "round_mag \<bar>of_int n\<bar> = 0" by (simp add: round_mag_def)
    then show ?thesis using f_round_fields [of "of_int n" z] True
      by (auto simp: f_val_def f_nan_def f_inf_def mag_val_def Let_def)
  next
    case False
    define l where "l = log2_floor (of_int \<bar>n\<bar>)"
    define m where "m = \<bar>n\<bar> * 2 ^ nat (52 - l)"
    have r: "round_mag (of_int \<bar>n\<bar>) = (l + 1022) * 2 ^ 52 + m" "0 \<le> l" "l \<le> 52" "2 ^ 52 \<le> m" "m < 2 ^ 53"
      using round_mag_int [of "\<bar>n\<bar>"] False assms unfolding l_def m_def by simp_all
    have d: "((l + 1022) * 2 ^ 52 + m) div 2 ^ 52 = l + 1023" "((l + 1022) * 2 ^ 52 + m) mod 2 ^ 52 = m - 2 ^ 52"
      using packed [of m l] r(4,5) by simp_all
    have f: "f_expo_field (f_round z (of_int n)) = l + 1023" "f_man_field (f_round z (of_int n)) = m - 2 ^ 52"
      "f_sign (f_round z (of_int n)) \<longleftrightarrow> n < 0 \<or> n = 0 \<and> z"
      using f_round_fields [of "of_int n" z] r d by (simp_all add: of_int_abs [symmetric] del: of_int_abs)
    have "(of_int m :: rat) * 2 powi (l - 52) = of_int \<bar>n\<bar> * (2 powi (52 - l) * 2 powi (l - 52))"
      using r(3) by (simp add: m_def power_int_def)
    also have "\<dots> = of_int \<bar>n\<bar>" by (simp flip: power_int_add)
    finally have "mag_val (l + 1023) (m - 2 ^ 52) = of_int \<bar>n\<bar>"
      using r(2) by (simp add: mag_val_def algebra_simps)
    then show ?thesis using f r(2,3) False by (auto simp: f_val_def f_nan_def f_inf_def)
  qed
  then show "f_val (f_round z (of_int n)) = of_int n" "\<not> f_nan (f_round z (of_int n))" "\<not> f_inf (f_round z (of_int n))"
    "f_sign (f_round z (of_int n)) \<longleftrightarrow> n < 0 \<or> n = 0 \<and> z" by blast+
qed

section \<open>The value of a rounded number\<close>

lemma half_even_bounds: "of_int a \<le> r \<Longrightarrow> a \<le> half_even r" "r \<le> of_int b \<Longrightarrow> half_even r \<le> b"
proof -
  show "of_int a \<le> r \<Longrightarrow> a \<le> half_even r"
    by (auto simp: half_even_def Let_def le_floor_iff intro: order_trans [of a "\<lfloor>r\<rfloor>"])
  assume r: "r \<le> of_int b"
  show "half_even r \<le> b"
  proof (cases "r = of_int b")
    case False
    then have "\<lfloor>r\<rfloor> < b" using r by (simp add: floor_less_iff)
    then show ?thesis by (auto simp: half_even_def Let_def)
  qed simp
qed

lemma mag_decode:
  assumes "0 \<le> e" "e = 0 \<and> 0 \<le> m \<or> 2 ^ 52 \<le> m" "m \<le> 2 ^ 53"
  shows "mag_val ((e * 2 ^ 52 + m) div 2 ^ 52) ((e * 2 ^ 52 + m) mod 2 ^ 52) = of_int m * 2 powi (e - 1074)"
proof -
  consider "m < 2 ^ 52" "e = 0" "0 \<le> m" | "2 ^ 52 \<le> m" "m < 2 ^ 53" | "m = 2 ^ 53" using assms by linarith
  then show ?thesis
  proof cases
    case 1
    then show ?thesis by (simp add: mag_val_def)
  next
    case 2
    then have "(e * 2 ^ 52 + m) div 2 ^ 52 = e + 1" "(e * 2 ^ 52 + m) mod 2 ^ 52 = m - 2 ^ 52"
      using packed [of m "e - 1022"] by simp_all
    then show ?thesis using assms(1) by (simp add: mag_val_def algebra_simps)
  next
    case 3
    have "e * 2 ^ 52 + m = (e + 2) * 2 ^ 52" using 3 by simp
    then have "(e * 2 ^ 52 + m) div 2 ^ 52 = e + 2" "(e * 2 ^ 52 + m) mod 2 ^ 52 = 0"
      by (simp_all only: nonzero_mult_div_cancel_right mod_mult_self2_is_0) simp
    moreover have "(2 :: rat) powi (e - 1073) = 2 * 2 powi (e - 1074)"
      using power_int_add_1' [of "2 :: rat" "e - 1074"] by simp
    ultimately show ?thesis using assms(1) 3 by (simp add: mag_val_def)
  qed
qed

definition quantum :: "rat \<Rightarrow> rat" where
  "quantum r = 2 powi (max (- 1022) (log2_floor r) - 52)"

lemma half_even_range:
  assumes "0 < r"
  defines "e \<equiv> max (- 1022) (log2_floor r)" and "m \<equiv> half_even (r / quantum r)"
  shows "0 \<le> m" "m \<le> 2 ^ 53" "e = - 1022 \<or> 2 ^ 52 \<le> m"
proof -
  have q: "0 < quantum r" by (simp add: quantum_def)
  have p: "2 powi (k :: int) = 2 ^ 53 * (2 powi (k - 53) :: rat)" "2 powi (k :: int) = 2 ^ 52 * (2 powi (k - 52) :: rat)" for k
    by (simp_all add: power_int_diff)
  have "0 \<le> r / quantum r" using assms(1) q by simp
  then show "0 \<le> m" unfolding m_def by (intro half_even_bounds(1)) simp
  have "r < 2 powi (log2_floor r + 1)" using log2_floor_bounds(2) [OF assms(1)] .
  also have "\<dots> \<le> 2 powi (e + 1)" unfolding e_def by (intro power_int_increasing) auto
  also have "\<dots> = 2 ^ 53 * quantum r" unfolding quantum_def e_def [symmetric] p(1) [of "e + 1"] by simp
  finally show "m \<le> 2 ^ 53" unfolding m_def using q by (intro half_even_bounds(2)) (simp add: field_simps)
  show "e = - 1022 \<or> 2 ^ 52 \<le> m"
  proof (cases "log2_floor r \<le> - 1022")
    case False
    then have "e = log2_floor r" by (simp add: e_def)
    then have "2 ^ 52 * quantum r \<le> r"
      using log2_floor_bounds(1) [OF assms(1)] p(2) [of e] by (simp add: quantum_def e_def [symmetric])
    then have "2 ^ 52 \<le> r / quantum r" using q by (simp add: field_simps)
    then show ?thesis unfolding m_def by (intro disjI2 half_even_bounds(1)) simp
  qed (simp add: e_def)
qed

lemma f_val_round:
  assumes "0 < r" "log2_floor r < 1023"
  shows "f_val (f_round z r) = of_int (half_even (r / quantum r)) * quantum r"
    "\<not> f_nan (f_round z r)" "\<not> f_inf (f_round z r)" "\<not> f_sign (f_round z r)"
proof -
  define e where "e = max (- 1022) (log2_floor r)"
  define m where "m = half_even (r / quantum r)"
  have m: "0 \<le> m" "m \<le> 2 ^ 53" "e = - 1022 \<or> 2 ^ 52 \<le> m"
    using half_even_range [OF assms(1)] unfolding e_def m_def by auto
  have e: "- 1022 \<le> e" "e < 1023" using assms(2) by (auto simp: e_def)
  let ?c = "(e + 1022) * 2 ^ 52 + m"
  have c: "0 \<le> ?c" "?c < 2047 * 2 ^ 52" using m(1,2) e by auto
  have "round_mag r = min ?c (2047 * 2 ^ 52)"
    using assms(1) unfolding round_mag_def Let_def e_def [symmetric] m_def quantum_def by simp
  then have rm: "round_mag \<bar>r\<bar> = ?c" using assms(1) c by simp
  note f = f_round_fields [of r z, unfolded rm, OF c(1) less_imp_le [OF c(2)]]
  show s: "\<not> f_sign (f_round z r)" using f(3) assms(1) by simp
  have "?c div 2 ^ 52 < 2047" using c by auto
  then show "\<not> f_nan (f_round z r)" "\<not> f_inf (f_round z r)" unfolding f_nan_def f_inf_def f(1) by simp_all
  have "f_val (f_round z r) = mag_val (?c div 2 ^ 52) (?c mod 2 ^ 52)" unfolding f_val_def f(1,2) Let_def using s by simp
  also have "\<dots> = of_int m * 2 powi (e + 1022 - 1074)" using m e by (intro mag_decode) auto
  finally show "f_val (f_round z r) = of_int m * quantum r" unfolding quantum_def e_def by simp
qed

lemma f_val_round_bounds:
  assumes "0 \<le> r" "r < 2 ^ k" "k \<le> 1023"
  shows "0 \<le> f_val (f_round z r)" "f_val (f_round z r) \<le> 2 ^ k" "\<not> f_nan (f_round z r)" "\<not> f_inf (f_round z r)"
proof -
  have "0 \<le> f_val (f_round z r) \<and> f_val (f_round z r) \<le> 2 ^ k \<and> \<not> f_nan (f_round z r) \<and> \<not> f_inf (f_round z r)"
  proof (cases "r = 0")
    case True
    then show ?thesis using f_val_round_int [of 0 z] by simp
  next
    case False
    then have r: "0 < r" using assms(1) by simp
    have l: "log2_floor r < int k"
    proof (rule ccontr)
      assume "\<not> log2_floor r < int k"
      then have "2 powi (int k) \<le> (2 powi (log2_floor r) :: rat)" by (intro power_int_increasing) auto
      then show False using log2_floor_bounds(1) [OF r] assms(2) by simp
    qed
    then have "log2_floor r < 1023" using assms(3) by simp
    note v = f_val_round [OF r this, of z]
    have q: "0 < quantum r" by (simp add: quantum_def)
    have "of_int (half_even (r / quantum r)) * quantum r \<le> of_int (2 ^ 53) * quantum r"
      using half_even_range(2) [OF r] q by (intro mult_right_mono) (simp_all only: of_int_le_iff less_imp_le)
    also have "\<dots> = 2 powi (max (- 1022) (log2_floor r) + 1)"
    proof -
      have "(2 :: rat) powi (j + 1) = 2 ^ 53 * 2 powi (j - 52)" for j :: int
        using power_int_add [of "2 :: rat" 53 "j - 52"] by (simp add: algebra_simps)
      then show ?thesis by (simp add: quantum_def)
    qed
    also have "\<dots> \<le> 2 powi int k" using l by (intro power_int_increasing) auto
    finally have "f_val (f_round z r) \<le> 2 ^ k" using v(1) by simp
    moreover have "0 \<le> f_val (f_round z r)" unfolding v(1) using half_even_range(1) [OF r] q by simp
    ultimately show ?thesis using v by simp
  qed
  then show "0 \<le> f_val (f_round z r)" "f_val (f_round z r) \<le> 2 ^ k" "\<not> f_nan (f_round z r)" "\<not> f_inf (f_round z r)" by blast+
qed

text \<open>Rounding is off by at most half the distance of two neighbours.\<close>

lemma half_even_error: "\<bar>of_int (half_even r) - r\<bar> \<le> 1 / 2"
  using floor_correct [of r] unfolding half_even_def Let_def by (simp add: abs_le_iff)

lemma f_round_error:
  assumes "0 < r" "log2_floor r < 1023"
  shows "\<bar>f_val (f_round z r) - r\<bar> \<le> quantum r / 2"
proof -
  have q: "0 < quantum r" by (simp add: quantum_def)
  have "f_val (f_round z r) - r = (of_int (half_even (r / quantum r)) - r / quantum r) * quantum r"
    unfolding f_val_round(1) [OF assms] using q by (simp add: field_simps)
  then have "\<bar>f_val (f_round z r) - r\<bar> = \<bar>of_int (half_even (r / quantum r)) - r / quantum r\<bar> * quantum r"
    using q by (simp add: abs_mult)
  also have "\<dots> \<le> 1 / 2 * quantum r" using half_even_error q by (intro mult_right_mono) auto
  finally show ?thesis by simp
qed

text \<open>Rounding a value of the format gives it back.\<close>

lemma powi_less_cancel: "(2 :: rat) powi a < 2 powi b \<Longrightarrow> a < b"
  using power_int_increasing [of b a "2 :: rat"] by (force simp: not_less)

lemma log2_floor_unique:
  assumes "2 powi k \<le> r" "r < 2 powi (k + 1)"
  shows "log2_floor r = k"
proof -
  have "0 < (2 :: rat) powi k" by simp
  then have r: "0 < r" using assms(1) by linarith
  have "(2 powi k :: rat) < 2 powi (log2_floor r + 1)" "(2 powi log2_floor r :: rat) < 2 powi (k + 1)"
    using assms log2_floor_bounds [OF r] by linarith+
  then have "k < log2_floor r + 1" "log2_floor r < k + 1" by (simp_all only: powi_less_cancel)
  then show ?thesis by simp
qed

lemma f_val_multiple:
  assumes "\<not> f_nan v" "\<not> f_inf v" "0 < f_val v"
  shows "\<exists>m. f_val v = of_int m * quantum (f_val v)"
proof -
  define e f where "e = f_expo_field v" and "f = f_man_field v"
  have f: "0 \<le> f" "f < 2 ^ 52" and e: "0 \<le> e" "e < 2047"
    using assms(1,2) unfolding f_def e_def f_man_field_def f_nan_def f_inf_def f_expo_field_def
    by (auto simp: order_less_le)
  have "0 \<le> mag_val e f" using f by (simp add: mag_val_def)
  then have v: "f_val v = mag_val e f" using assms(3) by (auto simp: f_val_def e_def f_def Let_def split: if_splits)
  show ?thesis
  proof (cases "e = 0")
    case True
    have p: "(2 :: rat) powi - 1022 = of_int (2 ^ 52) * 2 powi - 1074"
      using power_int_add [of "2 :: rat" 52 "- 1074"] by simp
    have "f_val v < 2 powi - 1022"
      unfolding v p using True f by (simp only: mag_val_def if_True mult_less_cancel_right_pos of_int_less_iff) simp
    then have "(2 :: rat) powi log2_floor (f_val v) < 2 powi - 1022"
      using log2_floor_bounds(1) [OF assms(3)] by linarith
    then have "log2_floor (f_val v) < - 1022" by (rule powi_less_cancel)
    then have "quantum (f_val v) = 2 powi - 1074" by (simp add: quantum_def)
    moreover have "f_val v = of_int f * 2 powi - 1074" unfolding v mag_val_def using True by (simp only: simp_thms if_True)
    ultimately show ?thesis by metis
  next
    case False
    let ?q = "2 powi (e - 1075) :: rat"
    have val: "f_val v = of_int (2 ^ 52 + f) * ?q" using v False by (simp add: mag_val_def)
    have p: "(2 :: rat) powi (e - 1023) = of_int (2 ^ 52) * ?q" "(2 :: rat) powi (e - 1023 + 1) = of_int (2 ^ 53) * ?q"
      using power_int_add [of "2 :: rat" 52 "e - 1075"] power_int_add [of "2 :: rat" 53 "e - 1075"] by simp_all
    have "log2_floor (f_val v) = e - 1023"
      by (rule log2_floor_unique) (use f in \<open>simp_all only: val p mult_le_cancel_right_pos mult_less_cancel_right_pos of_int_le_iff of_int_less_iff zero_less_power_int zero_less_numeral\<close>, simp_all)
    then have "quantum (f_val v) = ?q" using e False by (simp add: quantum_def)
    then show ?thesis using val by metis
  qed
qed

lemma f_round_val:
  assumes "\<not> f_nan v" "\<not> f_inf v" "0 < f_val v" "log2_floor (f_val v) < 1023"
  shows "f_val (f_round z (f_val v)) = f_val v"
proof -
  obtain m where m: "f_val v = of_int m * quantum (f_val v)" using f_val_multiple [OF assms(1-3)] by blast
  have "0 < quantum (f_val v)" by (simp add: quantum_def)
  then have "f_val v / quantum (f_val v) = of_int m" by (subst (1) m) simp
  then show ?thesis unfolding f_val_round(1) [OF assms(3,4)] using m by simp
qed

text \<open>Where the value is not negative, the sign bit can only be that of a zero.\<close>

lemma f_sign_val: "f_sign v \<Longrightarrow> f_val v \<le> 0" "\<not> f_sign v \<Longrightarrow> 0 \<le> f_val v"
proof -
  have "0 \<le> mag_val (f_expo_field v) (f_man_field v)" by (simp add: mag_val_def f_man_field_def)
  then show "f_sign v \<Longrightarrow> f_val v \<le> 0" "\<not> f_sign v \<Longrightarrow> 0 \<le> f_val v" by (simp_all add: f_val_def Let_def)
qed

lemma f_trunc_nonneg: "0 \<le> f_val v \<Longrightarrow> f_trunc v = \<lfloor>f_val v\<rfloor>"
  using f_sign_val(1) [of v] by (auto simp: f_trunc_def)

lemma f_of_int_val:
  assumes "\<bar>n\<bar> < 2 ^ 53"
  shows "f_val (f_of_int n) = of_int n" "\<not> f_nan (f_of_int n)" "\<not> f_inf (f_of_int n)" "f_sign (f_of_int n) \<longleftrightarrow> n < 0"
  using f_val_round_int [OF assms, of False] by (simp_all add: f_of_int_def)

text \<open>Negation flips the sign bit.\<close>

lemma f_fields_bits:
  "f_expo_field a = uint (take_bit 11 (drop_bit 52 a))" "f_man_field a = uint (take_bit 52 a)" "f_sign a \<longleftrightarrow> bit a 63"
proof -
  show "f_expo_field a = uint (take_bit 11 (drop_bit 52 a))" "f_man_field a = uint (take_bit 52 a)"
    by (simp_all add: f_expo_field_def f_man_field_def take_bit_eq_mod drop_bit_eq_div uint_div uint_mod)
  have "bit a 63 \<longleftrightarrow> odd (uint a div 2 ^ 63)" using bit_iff_odd [of "uint a" 63] by (simp only: bit_uint_iff) simp
  moreover have "uint a div 2 ^ 63 = (if 2 ^ 63 \<le> uint a then 1 else 0)"
    using uint_lt2p [of a] by (auto intro: int_div_pos_eq [of _ _ _ "uint a - 2 ^ 63"] div_pos_pos_trivial)
  ultimately show "f_sign a \<longleftrightarrow> bit a 63" by (simp add: f_sign_def)
qed

lemma f_neg_val: "f_val (f_neg v) = - f_val v" "f_nan (f_neg v) = f_nan v" "f_inf (f_neg v) = f_inf v"
proof -
  have "take_bit 11 (drop_bit 52 (f_neg v)) = take_bit 11 (drop_bit 52 v)" "take_bit 52 (f_neg v) = take_bit 52 v"
    "bit (f_neg v) 63 = (\<not> bit v 63)"
    by (auto simp: f_neg_def bit_simps intro!: bit_word_eqI)
  then show "f_val (f_neg v) = - f_val v" "f_nan (f_neg v) = f_nan v" "f_inf (f_neg v) = f_inf v"
    by (simp_all add: f_val_def f_nan_def f_inf_def f_fields_bits Let_def)
qed

end
