(* ===== verification/Printf_Float.thy ===== *)
theory Printf_Float
  imports Printf_Num Float64
begin

text \<open>
  The floating point conversions of \<^verbatim>\<open>src/src/urvirt-stub/printf.c\<close> (lines 328 to 572): \<open>_ftoa\<close> for
  fixed and \<open>_etoa\<close> for exponential notation.

  Every floating point expression is evaluated operation by operation in binary64.  Integers that
  cannot leave the range of \<open>int\<close> are integers; a conversion of a value outside the target
  type and a read behind the table of powers of ten are undefined and give \<open>None\<close>.
\<close>

section \<open>Constants\<close>

definition PRINTF_FTOA_BUFFER_SIZE :: nat where "PRINTF_FTOA_BUFFER_SIZE = 32"
definition PRINTF_DEFAULT_FLOAT_PRECISION :: u32 where "PRINTF_DEFAULT_FLOAT_PRECISION = 6"
definition PRINTF_MAX_FLOAT :: u64 where "PRINTF_MAX_FLOAT = f_lit 1000000000"

text \<open>The table \<open>pow10\<close>; an index behind its end is undefined.\<close>

definition pow10 :: "u32 \<Rightarrow> u64 option" where
  "pow10 i = (if i \<le> 9 then Some (f_of_int (10 ^ unat i)) else None)"

definition f_to_i32 :: "u64 \<Rightarrow> int option" where
  "f_to_i32 a = f_to_int (- (2 ^ 31)) (2 ^ 31 - 1) a"

definition f_to_u64 :: "u64 \<Rightarrow> u64 option" where
  "f_to_u64 a = map_option of_int (f_to_int 0 (2 ^ 64 - 1) a)"

section \<open>Fixed notation\<close>

text \<open>The loops of \<open>_ftoa\<close>, in the order of the code.\<close>

function limit_precision :: "u8 list \<Rightarrow> u32 \<Rightarrow> u8 list \<times> u32" where
  "limit_precision buf prec =
     (if length buf < PRINTF_FTOA_BUFFER_SIZE \<and> 9 < prec
      then limit_precision (buf @ [ch CHR ''0'']) (prec - 1) else (buf, prec))"
  by pat_completeness auto
termination
  by (relation "measure (\<lambda>(buf, prec). PRINTF_FTOA_BUFFER_SIZE - length buf)") auto

function frac_digits :: "u8 list \<Rightarrow> u64 \<Rightarrow> u32 \<Rightarrow> u8 list \<times> u32" where
  "frac_digits buf fr count =
     (if length buf < PRINTF_FTOA_BUFFER_SIZE then
        let count = count - 1;
            buf = buf @ [48 + ucast (fr mod 10)];
            fr = fr div 10
        in if fr = 0 then (buf, count) else frac_digits buf fr count
      else (buf, count))"
  by pat_completeness auto
termination
  by (relation "measure (\<lambda>(buf, fr, count). PRINTF_FTOA_BUFFER_SIZE - length buf)") auto

function extra_zeros :: "u8 list \<Rightarrow> u32 \<Rightarrow> u8 list" where
  "extra_zeros buf count =
     (if length buf < PRINTF_FTOA_BUFFER_SIZE \<and> 0 < count
      then extra_zeros (buf @ [ch CHR ''0'']) (count - 1) else buf)"
  by pat_completeness auto
termination
  by (relation "measure (\<lambda>(buf, count). PRINTF_FTOA_BUFFER_SIZE - length buf)") auto

function whole_digits :: "u8 list \<Rightarrow> int \<Rightarrow> u8 list" where
  "whole_digits buf whole =
     (if length buf < PRINTF_FTOA_BUFFER_SIZE then
        let buf = buf @ [48 + of_int (whole mod 10)];
            whole = whole div 10
        in if whole = 0 then buf else whole_digits buf whole
      else buf)"
  by pat_completeness auto
termination
  by (relation "measure (\<lambda>(buf, whole). PRINTF_FTOA_BUFFER_SIZE - length buf)") auto

declare limit_precision.simps [simp del] frac_digits.simps [simp del] extra_zeros.simps [simp del]
  whole_digits.simps [simp del]

definition ftoa_push :: "u8 \<Rightarrow> u8 list \<Rightarrow> u8 list" where
  "ftoa_push c buf = (if length buf < PRINTF_FTOA_BUFFER_SIZE then buf @ [c] else buf)"

text \<open>Splitting a non-negative value into its whole and its rounded fractional part.\<close>

definition ftoa_split :: "u64 \<Rightarrow> u32 \<Rightarrow> (int \<times> u64) option" where
  "ftoa_split v prec =
     (case (f_to_i32 v, pow10 prec) of
        (Some whole, Some p) \<Rightarrow>
          let tmp = f_mul (f_sub v (f_of_int whole)) p
          in map_option (\<lambda>fr.
               let diff = f_sub tmp (f_of_int (uint fr))
               in if f_lt (f_lit (1 / 2)) diff then
                    (let fr = fr + 1
                     in if f_le p (f_of_int (uint fr)) then (whole + 1, 0) else (whole, fr))
                  else if f_lt diff (f_lit (1 / 2)) then (whole, fr)
                  else if fr = 0 \<or> fr AND 1 \<noteq> 0 then (whole, fr + 1)
                  else (whole, fr)) (f_to_u64 tmp)
      | _ \<Rightarrow> None)"

definition ftoa_body :: "u8 list \<Rightarrow> u64 \<Rightarrow> u32 \<Rightarrow> int \<times> u64 \<Rightarrow> u8 list" where
  "ftoa_body buf v prec parts =
     (let (whole, fr) = parts
      in if prec = 0 then
           let diff = f_sub v (f_of_int whole);
               whole = (if (\<not> f_lt diff (f_lit (1 / 2)) \<or> f_lt (f_lit (1 / 2)) diff) \<and> odd whole
                        then whole + 1 else whole)
           in whole_digits buf whole
         else
           let (buf, count) = frac_digits buf fr prec;
               buf = extra_zeros buf count;
               buf = ftoa_push (ch CHR ''.'') buf
           in whole_digits buf whole)"

definition ftoa_pad :: "u8 list \<Rightarrow> bool \<Rightarrow> u32 \<Rightarrow> u32 \<Rightarrow> u8 list \<times> u32" where
  "ftoa_pad buf negative width flags =
     (if \<not> has flags FLAGS_LEFT \<and> has flags FLAGS_ZEROPAD then
        let width = (if width \<noteq> 0 \<and> (negative \<or> has flags (FLAGS_PLUS OR FLAGS_SPACE)) then width - 1 else width)
        in (buf @ replicate (min (unat width) PRINTF_FTOA_BUFFER_SIZE - length buf) (ch CHR ''0''), width)
      else (buf, width))"

definition ftoa_sign :: "u8 list \<Rightarrow> bool \<Rightarrow> u32 \<Rightarrow> u8 list" where
  "ftoa_sign buf negative flags =
     (if negative then ftoa_push (ch CHR ''-'') buf
      else if has flags FLAGS_PLUS then ftoa_push (ch CHR ''+'') buf
      else if has flags FLAGS_SPACE then ftoa_push (ch CHR '' '') buf
      else buf)"

text \<open>\<open>_ftoa\<close> from the test for negative values on.\<close>

definition ftoa_fixed ::
  "'b out_fct \<Rightarrow> u64 \<Rightarrow> u64 \<Rightarrow> u32 \<Rightarrow> u32 \<Rightarrow> u32 \<Rightarrow> 'b \<times> u64 \<Rightarrow> ('b \<times> u64) option" where
  "ftoa_fixed out maxlen v0 prec0 width0 flags st =
     (let negative = f_lt v0 0;
          v = (if negative then f_sub 0 v0 else v0);
          prec = (if has flags FLAGS_PRECISION then prec0 else PRINTF_DEFAULT_FLOAT_PRECISION);
          (buf, prec) = limit_precision [] prec
      in map_option (\<lambda>parts.
           let buf = ftoa_body buf v prec parts;
               (buf, width) = ftoa_pad buf negative width0 flags;
               buf = ftoa_sign buf negative flags
           in out_rev out maxlen buf width flags st) (ftoa_split v prec))"

section \<open>Exponential notation\<close>

text \<open>
  The estimate of the decimal exponent and of the power of ten of a positive value, the \<open>union\<close>
  being the bits themselves.
\<close>

definition exp_estimate :: "u64 \<Rightarrow> int option" where
  "exp_estimate v =
     (let exp2 = uint (drop_bit 52 v AND 0x07FF) - 1023;
          convF = (v AND (push_bit 52 1 - 1)) OR push_bit 52 1023
      in f_to_i32 (f_add (f_add (f_lit (1760912590558 / 10 ^ 13)) (f_mul (f_of_int exp2) (f_lit (301029995663981 / 10 ^ 15))))
           (f_mul (f_sub convF (f_lit (3 / 2))) (f_lit (289529654602168 / 10 ^ 15)))))"

definition pow_estimate :: "int \<Rightarrow> u64 option" where
  "pow_estimate expval =
     map_option (\<lambda>exp2.
       let z = f_sub (f_mul (f_of_int expval) (f_lit (2302585092994046 / 10 ^ 15)))
                     (f_mul (f_of_int exp2) (f_lit (6931471805599453 / 10 ^ 16)));
           z2 = f_mul z z;
           convF = push_bit 52 (of_int (exp2 + 1023))
       in f_mul convF (f_add (f_of_int 1) (f_div (f_mul (f_of_int 2) z)
            (f_add (f_sub (f_of_int 2) z)
              (f_div z2 (f_add (f_of_int 6) (f_div z2 (f_add (f_of_int 10) (f_div z2 (f_of_int 14))))))))))
     (f_to_i32 (f_add (f_mul (f_of_int expval) (f_lit (3321928094887362 / 10 ^ 15))) (f_lit (1 / 2))))"

definition exponent_of :: "u64 \<Rightarrow> (int \<times> u64) option" where
  "exponent_of v =
     (case exp_estimate v of None \<Rightarrow> None
      | Some expval \<Rightarrow>
          map_option (\<lambda>convF. if f_lt v convF then (expval - 1, f_div convF (f_of_int 10)) else (expval, convF))
            (pow_estimate expval))"

text \<open>The precision, flags, exponent and room for the exponent after the test for \<open>%g\<close>.\<close>

definition etoa_mode :: "u64 \<Rightarrow> int \<Rightarrow> u32 \<Rightarrow> u32 \<Rightarrow> u32 \<times> u32 \<times> int \<times> u32" where
  "etoa_mode v expval prec flags =
     (let minwidth = (if expval < 100 \<and> - 100 < expval then 4 else 5)
      in if has flags FLAGS_ADAPT_EXP then
           if f_le (f_lit (1 / 10000)) v \<and> f_lt v (f_lit 1000000) then
             (if expval < sint prec then of_int (sint prec - expval - 1) else 0, flags OR FLAGS_PRECISION, 0, 0)
           else (if 0 < prec \<and> has flags FLAGS_PRECISION then prec - 1 else prec, flags, expval, minwidth)
         else (prec, flags, expval, minwidth))"

text \<open>The exponent part, behind a mantissa that began at the index \<open>start_idx\<close>.\<close>

definition etoa_exponent ::
  "'b out_fct \<Rightarrow> u64 \<Rightarrow> int \<Rightarrow> u32 \<Rightarrow> u32 \<Rightarrow> u32 \<Rightarrow> u64 \<Rightarrow> 'b \<times> u64 \<Rightarrow> 'b \<times> u64" where
  "etoa_exponent out maxlen expval minwidth width flags start_idx st =
     (if minwidth \<noteq> 0 then
        let st = emit out maxlen (if has flags FLAGS_UPPERCASE then ch CHR ''E'' else ch CHR ''e'') st;
            st = ntoa_long out maxlen (of_int \<bar>expval\<bar>) (expval < 0) 10 0 (minwidth - 1)
              (FLAGS_ZEROPAD OR FLAGS_PLUS) st
        in if has flags FLAGS_LEFT
           then emits out maxlen (replicate (unat width - unat (snd st - start_idx)) (ch CHR '' '')) st
           else st
      else st)"

text \<open>
  \<open>_ftoa\<close> and \<open>_etoa\<close> call each other; the first argument bounds the depth of the calls, and
  \<open>None\<close> is undefined behaviour or a deeper recursion.
\<close>

fun ftoa :: "nat \<Rightarrow> 'b out_fct \<Rightarrow> u64 \<Rightarrow> u64 \<Rightarrow> u32 \<Rightarrow> u32 \<Rightarrow> u32 \<Rightarrow> 'b \<times> u64 \<Rightarrow> ('b \<times> u64) option"
  and etoa :: "nat \<Rightarrow> 'b out_fct \<Rightarrow> u64 \<Rightarrow> u64 \<Rightarrow> u32 \<Rightarrow> u32 \<Rightarrow> u32 \<Rightarrow> 'b \<times> u64 \<Rightarrow> ('b \<times> u64) option" where
  "ftoa 0 out maxlen v prec width flags st = None"
| "ftoa (Suc n) out maxlen v prec width flags st =
     (if \<not> f_eq v v then Some (out_rev out maxlen (bytes_of ''nan'') width flags st)
      else if f_lt v (f_neg DBL_MAX) then Some (out_rev out maxlen (bytes_of ''fni-'') width flags st)
      else if f_lt DBL_MAX v then
        Some (out_rev out maxlen (if has flags FLAGS_PLUS then bytes_of ''fni+'' else bytes_of ''fni'') width flags st)
      else if f_lt PRINTF_MAX_FLOAT v \<or> f_lt v (f_neg PRINTF_MAX_FLOAT) then
        etoa n out maxlen v prec width flags st
      else ftoa_fixed out maxlen v prec width flags st)"
| "etoa 0 out maxlen v prec width flags st = None"
| "etoa (Suc n) out maxlen v0 prec0 width flags0 st =
     (if \<not> f_eq v0 v0 \<or> f_lt DBL_MAX v0 \<or> f_lt v0 (f_neg DBL_MAX) then ftoa n out maxlen v0 prec0 width flags0 st
      else
        let negative = f_lt v0 0;
            v = (if negative then f_neg v0 else v0);
            prec = (if has flags0 FLAGS_PRECISION then prec0 else PRINTF_DEFAULT_FLOAT_PRECISION)
        in case exponent_of v of None \<Rightarrow> None
           | Some (expval, convF) \<Rightarrow>
             (case etoa_mode v expval prec flags0 of (prec, flags, expval, minwidth) \<Rightarrow>
               let fwidth = (if minwidth < width then width - minwidth else 0);
                   fwidth = (if has flags FLAGS_LEFT \<and> minwidth \<noteq> 0 then 0 else fwidth);
                   v = (if expval \<noteq> 0 then f_div v convF else v)
               in map_option (etoa_exponent out maxlen expval minwidth width flags (snd st))
                    (ftoa n out maxlen (if negative then f_neg v else v) prec fwidth
                       (flags AND NOT FLAGS_ADAPT_EXP) st)))"

definition FP_DEPTH :: nat where "FP_DEPTH = 4"

section \<open>The buffer\<close>

lemma limit_precision_eq:
  "length buf \<le> 32 \<Longrightarrow> limit_precision buf prec =
     (let k = min (32 - length buf) (unat prec - 9) in (buf @ replicate k (ch CHR ''0''), prec - of_nat k))"
proof (induction buf prec rule: limit_precision.induct)
  case (1 buf prec)
  show ?case
  proof (cases "length buf < 32 \<and> 9 < prec")
    case True
    then have p: "unat (prec - 1) = unat prec - 1" "9 < unat prec"
      by (simp_all add: word_less_nat_alt unat_minus_one unat_gt_0 [symmetric] word_gt_0_no)
    define k where "k = min (32 - length (buf @ [ch CHR ''0''])) (unat (prec - 1) - 9)"
    have "min (32 - length buf) (unat prec - 9) = Suc k" using True p unfolding k_def by simp linarith
    moreover have "limit_precision (buf @ [ch CHR ''0'']) (prec - 1) =
        (buf @ ch CHR ''0'' # replicate k (ch CHR ''0''), prec - 1 - of_nat k)"
      using "1.IH" True unfolding k_def by (simp add: PRINTF_FTOA_BUFFER_SIZE_def Let_def)
    ultimately show ?thesis
      using True by (subst limit_precision.simps) (simp add: PRINTF_FTOA_BUFFER_SIZE_def Let_def)
  next
    case False
    then have "min (32 - length buf) (unat prec - 9) = 0" using "1.prems" by (auto simp: word_less_nat_alt)
    then show ?thesis using False by (subst limit_precision.simps) (auto simp: PRINTF_FTOA_BUFFER_SIZE_def Let_def)
  qed
qed

lemma frac_digits_length: "length buf \<le> 32 \<Longrightarrow> length (fst (frac_digits buf fr count)) \<le> 32"
  by (induction buf fr count rule: frac_digits.induct)
    (subst frac_digits.simps, simp add: PRINTF_FTOA_BUFFER_SIZE_def Let_def)

lemma extra_zeros_length: "length buf \<le> 32 \<Longrightarrow> length (extra_zeros buf count) \<le> 32"
  by (induction buf count rule: extra_zeros.induct)
    (subst extra_zeros.simps, simp add: PRINTF_FTOA_BUFFER_SIZE_def)

lemma whole_digits_length: "length buf \<le> 32 \<Longrightarrow> length (whole_digits buf w) \<le> 32"
  by (induction buf w rule: whole_digits.induct)
    (subst whole_digits.simps, simp add: PRINTF_FTOA_BUFFER_SIZE_def Let_def)

lemma ftoa_push_length: "length buf \<le> 32 \<Longrightarrow> length (ftoa_push c buf) \<le> 32"
  by (simp add: ftoa_push_def PRINTF_FTOA_BUFFER_SIZE_def)

lemma ftoa_body_length: "length buf \<le> 32 \<Longrightarrow> length (ftoa_body buf v prec parts) \<le> 32"
  by (auto simp: ftoa_body_def Let_def case_prod_beta whole_digits_length frac_digits_length extra_zeros_length ftoa_push_length)

lemma ftoa_pad_length: "length buf \<le> 32 \<Longrightarrow> length (fst (ftoa_pad buf n width flags)) \<le> 32"
  by (auto simp: ftoa_pad_def Let_def PRINTF_FTOA_BUFFER_SIZE_def)

lemma ftoa_sign_length: "length buf \<le> 32 \<Longrightarrow> length (ftoa_sign buf n flags) \<le> 32"
  by (simp add: ftoa_sign_def ftoa_push_length)

section \<open>Printing is independent of the sink\<close>

definition fixed_buffer :: "u64 \<Rightarrow> u32 \<Rightarrow> u32 \<Rightarrow> u32 \<Rightarrow> int \<times> u64 \<Rightarrow> u8 list" where
  "fixed_buffer v0 prec0 width0 flags parts =
     (let negative = f_lt v0 0;
          v = (if negative then f_sub 0 v0 else v0);
          prec = (if has flags FLAGS_PRECISION then prec0 else PRINTF_DEFAULT_FLOAT_PRECISION);
          (buf, prec) = limit_precision [] prec
      in ftoa_sign (fst (ftoa_pad (ftoa_body buf v prec parts) negative width0 flags)) negative flags)"

lemma fixed_buffer_length: "length (fixed_buffer v prec width flags parts) \<le> 32"
  by (simp add: fixed_buffer_def limit_precision_eq Let_def ftoa_sign_length ftoa_pad_length ftoa_body_length)

lemma ftoa_pad_width: "snd (ftoa_pad buf n width flags) = snd (ftoa_pad [] n width flags)"
  by (simp add: ftoa_pad_def Let_def)

definition fixed_text :: "u64 \<Rightarrow> u32 \<Rightarrow> u32 \<Rightarrow> u32 \<Rightarrow> u8 list option" where
  "fixed_text v prec width flags =
     map_option (\<lambda>parts. rev_text (fixed_buffer v prec width flags parts)
         (snd (ftoa_pad [] (f_lt v 0) width flags)) flags)
       (ftoa_split (if f_lt v 0 then f_sub 0 v else v)
         (snd (limit_precision [] (if has flags FLAGS_PRECISION then prec else PRINTF_DEFAULT_FLOAT_PRECISION))))"

lemma ftoa_fixed_emits:
  "ftoa_fixed out m v prec width flags st = map_option (\<lambda>cs. emits out m cs st) (fixed_text v prec width flags)"
proof -
  have "length (ftoa_body (fst (limit_precision [] p)) x q parts) \<le> 32" for p q x parts
    by (rule ftoa_body_length) (simp add: limit_precision_eq Let_def)
  note len = ftoa_sign_length [OF ftoa_pad_length [OF this]]
  show ?thesis
    unfolding ftoa_fixed_def fixed_text_def fixed_buffer_def Let_def case_prod_beta option.map_comp comp_def
    by (simp only: out_rev_emits [OF len] ftoa_pad_width [of "ftoa_body _ _ _ _"])
qed

text \<open>What the exponent part adds to the text \<open>cs\<close> of the mantissa.\<close>

definition exp_text :: "int \<Rightarrow> u32 \<Rightarrow> u32 \<Rightarrow> u32 \<Rightarrow> u8 list \<Rightarrow> u8 list" where
  "exp_text expval minwidth width flags cs =
     (if minwidth = 0 then cs else
       let cs = cs @ (if has flags FLAGS_UPPERCASE then ch CHR ''E'' else ch CHR ''e'') #
           ntoa_text (of_int \<bar>expval\<bar>) (expval < 0) 10 0 (minwidth - 1) (FLAGS_ZEROPAD OR FLAGS_PLUS)
       in if has flags FLAGS_LEFT
          then cs @ replicate (unat width - unat (of_nat (length cs) :: u64)) (ch CHR '' '') else cs)"

fun ftoa_text :: "nat \<Rightarrow> u64 \<Rightarrow> u32 \<Rightarrow> u32 \<Rightarrow> u32 \<Rightarrow> u8 list option"
  and etoa_text :: "nat \<Rightarrow> u64 \<Rightarrow> u32 \<Rightarrow> u32 \<Rightarrow> u32 \<Rightarrow> u8 list option" where
  "ftoa_text 0 v prec width flags = None"
| "ftoa_text (Suc n) v prec width flags =
     (if \<not> f_eq v v then Some (rev_text (bytes_of ''nan'') width flags)
      else if f_lt v (f_neg DBL_MAX) then Some (rev_text (bytes_of ''fni-'') width flags)
      else if f_lt DBL_MAX v then
        Some (rev_text (if has flags FLAGS_PLUS then bytes_of ''fni+'' else bytes_of ''fni'') width flags)
      else if f_lt PRINTF_MAX_FLOAT v \<or> f_lt v (f_neg PRINTF_MAX_FLOAT) then etoa_text n v prec width flags
      else fixed_text v prec width flags)"
| "etoa_text 0 v prec width flags = None"
| "etoa_text (Suc n) v0 prec0 width flags0 =
     (if \<not> f_eq v0 v0 \<or> f_lt DBL_MAX v0 \<or> f_lt v0 (f_neg DBL_MAX) then ftoa_text n v0 prec0 width flags0
      else
        let negative = f_lt v0 0;
            v = (if negative then f_neg v0 else v0);
            prec = (if has flags0 FLAGS_PRECISION then prec0 else PRINTF_DEFAULT_FLOAT_PRECISION)
        in case exponent_of v of None \<Rightarrow> None
           | Some (expval, convF) \<Rightarrow>
             (case etoa_mode v expval prec flags0 of (prec, flags, expval, minwidth) \<Rightarrow>
               let fwidth = (if minwidth < width then width - minwidth else 0);
                   fwidth = (if has flags FLAGS_LEFT \<and> minwidth \<noteq> 0 then 0 else fwidth);
                   v = (if expval \<noteq> 0 then f_div v convF else v)
               in map_option (exp_text expval minwidth width flags)
                    (ftoa_text n (if negative then f_neg v else v) prec fwidth (flags AND NOT FLAGS_ADAPT_EXP))))"

lemma etoa_exponent_emits:
  "etoa_exponent out m expval minwidth width flags (snd st) (emits out m cs st) =
     emits out m (exp_text expval minwidth width flags cs) st"
proof -
  have s: "snd (emits out m ds st) - snd st = of_nat (length ds)" for ds by (simp add: emits_index)
  have e: "ntoa_long out m x neg 10 0 w f (emit out m c (emits out m cs st)) =
      emits out m (cs @ c # ntoa_text x neg 10 0 w f) st" for x neg w f c
    by (simp add: ntoa_long_emits)
  show ?thesis unfolding etoa_exponent_def exp_text_def Let_def e s by simp
qed

lemma float_emits:
  "ftoa n out m v prec width flags st = map_option (\<lambda>cs. emits out m cs st) (ftoa_text n v prec width flags)"
  "etoa n out m v prec width flags st = map_option (\<lambda>cs. emits out m cs st) (etoa_text n v prec width flags)"
proof (induction n arbitrary: v prec width flags)
  case (Suc n)
  {
    case 1
    show ?case by (simp add: out_rev_emits bytes_of_def Suc.IH ftoa_fixed_emits)
  next
    case 2
    let ?v = "if f_lt v 0 then f_neg v else v"
    let ?p = "if has flags FLAGS_PRECISION then prec else PRINTF_DEFAULT_FLOAT_PRECISION"
    show ?case
    proof (cases "exponent_of ?v")
      case None
      then show ?thesis unfolding etoa.simps etoa_text.simps Let_def None by (simp add: Suc.IH)
    next
      case (Some r)
      obtain e c where r: "r = (e, c)" by fastforce
      obtain p f x w where m: "etoa_mode ?v e ?p flags = (p, f, x, w)" by (metis prod_cases4)
      show ?thesis
        unfolding etoa.simps etoa_text.simps Let_def Some r option.case prod.case m Suc.IH
        by (auto simp: option.map_comp comp_def etoa_exponent_emits intro!: option.map_cong)
    qed
  }
qed simp_all

section \<open>Values of at most \<open>10\<^sup>9\<close>\<close>

definition small :: "u64 \<Rightarrow> bool" where
  "small v \<longleftrightarrow> \<not> f_nan v \<and> \<not> f_inf v \<and> \<bar>f_val v\<bar> \<le> 10 ^ 9"

lemma limits:
  "f_val PRINTF_MAX_FLOAT = 10 ^ 9" "f_val (f_neg PRINTF_MAX_FLOAT) = - (10 ^ 9)"
  "10 ^ 9 \<le> f_val DBL_MAX" "f_val (f_neg DBL_MAX) \<le> - (10 ^ 9)"
  "f_val (f_lit (1 / 2)) = 1 / 2" "\<not> f_nan (f_lit (1 / 2))"
proof -
  have "PRINTF_MAX_FLOAT = f_of_int (10 ^ 9)" by (simp add: PRINTF_MAX_FLOAT_def f_lit_def f_of_int_def)
  then show m: "f_val PRINTF_MAX_FLOAT = 10 ^ 9" using f_of_int_val [of "10 ^ 9"] by simp
  then show "f_val (f_neg PRINTF_MAX_FLOAT) = - (10 ^ 9)" by (simp add: f_neg_val)
  define x :: rat where "x = 2 powi 971"
  have "f_val DBL_MAX = of_int (2 ^ 53 - 1) * x"
    by (simp add: f_val_def DBL_MAX_def f_sign_def f_expo_field_def f_man_field_def mag_val_def x_def del: power_int_numeral)
  moreover have "1 \<le> x" unfolding x_def using power_int_increasing [of 0 971 "2 :: rat"] by simp
  ultimately show d: "10 ^ 9 \<le> f_val DBL_MAX" by simp
  then show "f_val (f_neg DBL_MAX) \<le> - (10 ^ 9)" by (simp add: f_neg_val)
  show "f_val (f_lit (1 / 2)) = 1 / 2" "\<not> f_nan (f_lit (1 / 2))" by code_simp+
qed

lemma ftoa_text_small:
  assumes "small v"
  shows "ftoa_text (Suc n) v prec width flags = fixed_text v prec width flags"
proof -
  have "\<not> f_nan v" "- (10 ^ 9) \<le> f_val v" "f_val v \<le> 10 ^ 9" using assms by (auto simp: small_def abs_le_iff)
  then have "f_eq v v" "\<not> f_lt v (f_neg DBL_MAX)" "\<not> f_lt DBL_MAX v" "\<not> f_lt PRINTF_MAX_FLOAT v"
    "\<not> f_lt v (f_neg PRINTF_MAX_FLOAT)"
    using limits unfolding f_eq_def f_lt_def by linarith+
  then show ?thesis by simp
qed

text \<open>The integer part of a small value and the scaled rest.\<close>

lemma f_val_0: "f_val 0 = 0" "\<not> f_nan 0" "\<not> f_inf 0" "\<not> f_sign 0"
  by (simp_all add: f_val_def mag_val_def f_nan_def f_inf_def f_sign_def f_expo_field_def f_man_field_def)

lemma to_i32:
  assumes "small v" "0 \<le> f_val v"
  shows "f_to_i32 v = Some \<lfloor>f_val v\<rfloor>" "0 \<le> \<lfloor>f_val v\<rfloor>" "\<lfloor>f_val v\<rfloor> \<le> 10 ^ 9"
proof -
  have "f_val v \<le> of_int (10 ^ 9)" using assms(1) by (simp add: small_def abs_le_iff)
  with assms(2) show b: "0 \<le> \<lfloor>f_val v\<rfloor>" "\<lfloor>f_val v\<rfloor> \<le> 10 ^ 9" by (simp_all add: floor_le_iff)
  show "f_to_i32 v = Some \<lfloor>f_val v\<rfloor>"
    using b assms by (simp add: f_to_i32_def f_to_int_def f_trunc_nonneg small_def)
qed

text \<open>The scaled fraction, and what the code gets of it.\<close>

lemma scaled:
  assumes "small v" "0 \<le> f_val v" "prec \<le> (9 :: u32)"
  defines "tmp \<equiv> f_mul (f_sub v (f_of_int \<lfloor>f_val v\<rfloor>)) (f_of_int (10 ^ unat prec))"
  shows "f_to_u64 tmp = Some (of_int \<lfloor>f_val tmp\<rfloor>)" "0 \<le> f_val tmp" "f_val tmp \<le> 2 ^ 30"
    "\<not> f_nan tmp" "\<not> f_inf tmp" "f_val v = of_int \<lfloor>f_val v\<rfloor> \<Longrightarrow> f_val tmp = 0"
proof -
  let ?w = "\<lfloor>f_val v\<rfloor>"
  note w = to_i32 [OF assms(1,2)]
  have "unat prec \<le> 9" using assms(3) by (simp add: word_le_nat_alt)
  then have p10: "(10 :: int) ^ unat prec \<le> 10 ^ 9" by (intro power_increasing) auto
  then have pi: "\<bar>10 ^ unat prec\<bar> < (2 :: int) ^ 53" by simp
  have wi: "\<bar>?w\<bar> < 2 ^ 53" using w by simp
  note fw = f_of_int_val [OF wi] and fp = f_of_int_val [OF pi]
  define z where "z = (f_sign v \<and> \<not> f_sign (f_of_int ?w))"
  have d: "f_sub v (f_of_int ?w) = f_round z (f_val v - of_int ?w)"
    using assms(1) fw by (simp add: f_sub_def small_def z_def)
  have "0 \<le> f_val v - of_int ?w" "f_val v - of_int ?w < 2 ^ 0" using floor_correct [of "f_val v"] by simp_all
  note b = f_val_round_bounds [OF this, of z, simplified]
  let ?d = "f_val (f_round z (f_val v - of_int ?w))"
  let ?p = "of_int (10 ^ unat prec) :: rat"
  obtain y where t: "tmp = f_round y (?d * ?p)"
    using b fp unfolding tmp_def d by (simp add: f_mul_def Let_def)
  have "?d * ?p \<le> 1 * ?p" using b by (intro mult_right_mono) auto
  also have "\<dots> \<le> of_int (10 ^ 9)" using p10 by (simp only: of_int_le_iff mult_1)
  finally have "0 \<le> ?d * ?p" "?d * ?p < 2 ^ 30" using b by auto
  note tb = f_val_round_bounds [OF this, of y, folded t, simplified]
  show "0 \<le> f_val tmp" "f_val tmp \<le> 2 ^ 30" "\<not> f_nan tmp" "\<not> f_inf tmp" using tb by simp_all
  have "f_val tmp \<le> of_int (2 ^ 30)" using tb by simp
  then have "\<lfloor>f_val tmp\<rfloor> \<le> 2 ^ 30" "0 \<le> \<lfloor>f_val tmp\<rfloor>" using tb(1) by (simp_all add: floor_le_iff)
  then show "f_to_u64 tmp = Some (of_int \<lfloor>f_val tmp\<rfloor>)"
    using tb by (simp add: f_to_u64_def f_to_int_def f_trunc_nonneg)
  assume v: "f_val v = of_int \<lfloor>f_val v\<rfloor>"
  then have "f_val v - of_int \<lfloor>f_val v\<rfloor> = of_int 0" by simp
  then have "?d = 0" using f_val_round_int(1) [of 0 z] by simp
  then show "f_val tmp = 0" unfolding t using f_val_round_int(1) [of 0 y] by simp
qed

lemma split_defined:
  assumes "small v" "0 \<le> f_val v"
  shows "ftoa_split v prec = None \<longleftrightarrow> 9 < prec"
  using to_i32(1) [OF assms] scaled(1) [OF assms, of prec] by (auto simp: ftoa_split_def pow10_def Let_def not_le)

lemma split_int:
  assumes "small v" "f_val v = of_int n" "0 \<le> n" "prec \<le> 9"
  shows "ftoa_split v prec = Some (n, 0)"
proof -
  have v: "0 \<le> f_val v" "\<lfloor>f_val v\<rfloor> = n" using assms(2,3) by simp_all
  note t = scaled [OF assms(1) v(1) assms(4), unfolded v(2)]
  let ?t = "f_mul (f_sub v (f_of_int n)) (f_of_int (10 ^ unat prec))"
  have z: "f_val ?t = 0" using t(6) assms(2) by simp
  have o: "f_val (f_of_int 0) = 0" "\<not> f_nan (f_of_int 0)" "\<not> f_inf (f_of_int 0)" using f_of_int_val [of 0] by simp_all
  obtain y where "f_sub ?t (f_of_int 0) = f_round y (of_int 0)" using t(4,5) z o by (simp add: f_sub_def)
  then have "f_val (f_sub ?t (f_of_int 0)) = 0" "\<not> f_nan (f_sub ?t (f_of_int 0))" using f_val_round_int [of 0 y] by simp_all
  then have "f_lt (f_sub ?t (f_of_int 0)) (f_lit (1 / 2))" "\<not> f_lt (f_lit (1 / 2)) (f_sub ?t (f_of_int 0))"
    using limits by (simp_all add: f_lt_def)
  then show ?thesis
    using to_i32(1) [OF assms(1) v(1)] t(1) assms(4) v z by (simp add: ftoa_split_def pow10_def Let_def)
qed

text \<open>The absolute value, as the code computes it.\<close>

lemma small_abs:
  assumes "small v"
  defines "a \<equiv> if f_lt v 0 then f_sub 0 v else v"
  shows "small a" "f_val a = \<bar>f_val v\<bar>" "f_lt v 0 \<longleftrightarrow> f_val v < 0"
proof -
  show l: "f_lt v 0 \<longleftrightarrow> f_val v < 0" using assms(1) f_val_0 by (simp add: f_lt_def small_def)
  have "small a \<and> f_val a = \<bar>f_val v\<bar>"
  proof (cases "f_val v < 0")
    case True
    have n: "f_nan (f_neg v) = f_nan v" "f_inf (f_neg v) = f_inf v" "f_val (f_neg v) = - f_val v"
      by (simp_all add: f_neg_val)
    have a: "a = f_round False (f_val (f_neg v))"
      using True l assms(1) f_val_0 by (simp add: a_def f_sub_def small_def n)
    have b: "0 \<le> f_val (f_neg v)" "f_val (f_neg v) < 2 ^ 30" using True assms(1) by (simp_all add: small_def abs_le_iff n)
    have "2 powi log2_floor (f_val (f_neg v)) < (2 powi 30 :: rat)"
      using log2_floor_bounds(1) [of "f_val (f_neg v)"] True b n by simp
    then have "log2_floor (f_val (f_neg v)) < 30" by (rule powi_less_cancel)
    then have "f_val a = f_val (f_neg v)" unfolding a by (intro f_round_val) (use True assms(1) n in \<open>simp_all add: small_def\<close>)
    then show ?thesis using f_val_round_bounds [OF b, of False] assms(1) True n unfolding a [symmetric]
      by (simp add: small_def abs_le_iff)
  qed (use l assms in \<open>simp add: a_def\<close>)
  then show "small a" "f_val a = \<bar>f_val v\<bar>" by blast+
qed

section \<open>Integers\<close>

lemma extra_zeros_eq:
  "length buf + unat count \<le> 32 \<Longrightarrow> extra_zeros buf count = buf @ replicate (unat count) (ch CHR ''0'')"
proof (induction buf count rule: extra_zeros.induct)
  case (1 buf count)
  show ?case
  proof (cases "count = 0")
    case False
    then have c: "unat (count - 1) = unat count - 1" "0 < count" "0 < unat count"
      by (simp_all add: unat_minus_one word_gt_0 unat_gt_0)
    then have "replicate (unat count) (48 :: u8) = 48 # replicate (unat count - 1) 48"
      by (cases "unat count") simp_all
    then show ?thesis
      using 1 c False by (subst extra_zeros.simps) (auto simp: PRINTF_FTOA_BUFFER_SIZE_def)
  qed (subst extra_zeros.simps, simp)
qed

lemma whole_digits_lsd:
  "0 \<le> n \<Longrightarrow> length buf + length (lsd 10 (nat n)) \<le> 32 \<Longrightarrow>
   whole_digits buf n = buf @ map (\<lambda>d. digit_char 0 (of_nat d)) (lsd 10 (nat n))"
proof (induction buf n rule: whole_digits.induct)
  case (1 buf n)
  have d: "48 + of_int (n mod 10) = digit_char 0 (of_nat (nat n mod 10))"
  proof -
    have "of_nat (nat n mod 10) = (of_int (n mod 10) :: u8)" using "1.prems"(1)
      by (metis nat_mod_distrib nat_numeral of_nat_nat pos_mod_sign zero_le_numeral zero_less_numeral of_int_of_nat_eq)
    moreover have "(of_nat (nat n mod 10) :: u8) < 10" by (simp add: word_less_nat_alt unsigned_of_nat take_bit_nat_eq_self)
    ultimately show ?thesis by (simp add: digit_char_def)
  qed
  have l: "lsd 10 (nat n) = (if nat n < 10 then [nat n] else nat n mod 10 # lsd 10 (nat (n div 10)))"
    using "1.prems"(1) by (subst lsd.simps) (simp add: nat_div_distrib)
  have z: "n div 10 = 0 \<longleftrightarrow> nat n < 10" using "1.prems"(1) by (auto simp: nat_less_iff)
  have ne: "0 < length (lsd 10 k)" for k by (subst lsd.simps) simp
  then have buf: "length buf < PRINTF_FTOA_BUFFER_SIZE"
    using "1.prems"(2) ne [of "nat n"] unfolding PRINTF_FTOA_BUFFER_SIZE_def by linarith
  show ?case
  proof (cases "nat n < 10")
    case True
    then show ?thesis using buf z d l by (subst whole_digits.simps) (simp add: Let_def)
  next
    case False
    have "whole_digits (buf @ [48 + of_int (n mod 10)]) (n div 10) =
        (buf @ [48 + of_int (n mod 10)]) @ map (\<lambda>d. digit_char 0 (of_nat d)) (lsd 10 (nat (n div 10)))"
      by (rule "1.IH") (use "1.prems" buf z l False in simp_all)
    then show ?thesis using buf z d l False by (subst whole_digits.simps) (simp add: Let_def)
  qed
qed

lemma small_int:
  assumes "small v" "f_val v = of_int n" "0 \<le> n"
  shows "n \<le> 10 ^ 9" "length (lsd 10 (nat n)) \<le> 10"
proof -
  have "of_int n \<le> (of_int (10 ^ 9) :: rat)" using assms by (simp add: small_def)
  then show n: "n \<le> 10 ^ 9" by (simp only: of_int_le_iff)
  then show "length (lsd 10 (nat n)) \<le> 10" using lsd_length [of "nat n" 10 9] by (simp add: nat_less_iff)
qed

lemma ftoa_body_int:
  assumes "small a" "f_val a = of_int n" "0 \<le> n" "prec \<le> 9"
  shows "ftoa_body [] a prec (n, 0) =
    (if prec = 0 then [] else replicate (unat prec) (ch CHR ''0'') @ [ch CHR ''.'']) @ map (\<lambda>d. digit_char 0 (of_nat d)) (lsd 10 (nat n))"
proof -
  note a = assms(1,2) and len = small_int(2) [OF assms(1-3)]
  have u: "unat prec \<le> 9" using assms(4) by (simp add: word_le_nat_alt)
  show ?thesis
  proof (cases "prec = 0")
    case True
    have "\<bar>n\<bar> < 2 ^ 53" using small_int(1) [OF assms(1-3)] assms(3) by simp
    note f = f_of_int_val [OF this]
    obtain y where "f_sub a (f_of_int n) = f_round y (of_int 0)" using a f by (simp add: f_sub_def small_def)
    then have "f_lt (f_sub a (f_of_int n)) (f_lit (1 / 2))" "\<not> f_lt (f_lit (1 / 2)) (f_sub a (f_of_int n))"
      using f_val_round_int [of 0 y] limits by (simp_all add: f_lt_def)
    then show ?thesis using True len assms(3) by (simp add: ftoa_body_def Let_def whole_digits_lsd)
  next
    case False
    then have c: "unat (prec - 1) = unat prec - 1" "0 < unat prec" by (simp_all add: unat_minus_one unat_gt_0)
    then have r: "(48 :: u8) # replicate (unat prec - 1) 48 = replicate (unat prec) 48" by (cases "unat prec") simp_all
    have "frac_digits [] 0 prec = ([48], prec - 1)"
      by (subst frac_digits.simps) (simp add: PRINTF_FTOA_BUFFER_SIZE_def)
    moreover have "extra_zeros [48] (prec - 1) = replicate (unat prec) 48"
      using u c r by (subst extra_zeros_eq) simp_all
    moreover have "length (replicate (unat prec) (48 :: u8)) < PRINTF_FTOA_BUFFER_SIZE" using u by (simp add: PRINTF_FTOA_BUFFER_SIZE_def)
    ultimately show ?thesis
      using False u len assms(3) by (simp add: ftoa_body_def Let_def ftoa_push_def) (subst whole_digits_lsd, simp_all)
  qed
qed

lemma fixed_text_int:
  assumes "small v" "f_val v = of_int n" "prec \<le> 9"
    and "flags = FLAGS_PRECISION \<or> flags = 0 \<and> prec = 6"
  shows "fixed_text v prec 0 flags =
    Some (signed_text n @ (if prec = 0 then [] else ch CHR ''.'' # replicate (unat prec) (ch CHR ''0'')))"
proof -
  define a where "a = (if f_lt v 0 then f_sub 0 v else v)"
  have a: "small a" "f_val a = of_int \<bar>n\<bar>" and neg: "f_lt v 0 \<longleftrightarrow> n < 0"
    using small_abs [OF assms(1)] assms(2) unfolding a_def by simp_all
  have u: "unat prec \<le> 9" using assms(3) by (simp add: word_le_nat_alt)
  have flags: "\<not> has flags FLAGS_LEFT" "\<not> has flags FLAGS_ZEROPAD" "\<not> has flags FLAGS_PLUS" "\<not> has flags FLAGS_SPACE"
    and p: "(if has flags FLAGS_PRECISION then prec else PRINTF_DEFAULT_FLOAT_PRECISION) = prec"
    using assms(4) by (auto simp: riscv_const PRINTF_DEFAULT_FLOAT_PRECISION_def)
  have lim: "limit_precision [] prec = ([], prec)" using u by (simp add: limit_precision_eq)
  have s: "ftoa_split a prec = Some (\<bar>n\<bar>, 0)" by (rule split_int [OF a _ assms(3)]) simp
  have len: "length (lsd 10 (nat \<bar>n\<bar>)) \<le> 10" using small_int(2) [OF a] by simp
  let ?ds = "map (\<lambda>d. digit_char 0 (of_nat d)) (lsd 10 (nat \<bar>n\<bar>))"
  have body: "ftoa_body [] a prec (\<bar>n\<bar>, 0) =
      (if prec = 0 then [] else replicate (unat prec) (ch CHR ''0'') @ [ch CHR ''.'']) @ ?ds"
    using ftoa_body_int [OF a _ assms(3)] by simp
  have buf: "fixed_buffer v prec 0 flags (\<bar>n\<bar>, 0) =
      ftoa_body [] a prec (\<bar>n\<bar>, 0) @ (if n < 0 then [ch CHR ''-''] else [])"
  proof -
    have "length (ftoa_body [] a prec (\<bar>n\<bar>, 0)) < PRINTF_FTOA_BUFFER_SIZE"
      using u len unfolding body PRINTF_FTOA_BUFFER_SIZE_def by simp
    then show ?thesis
      unfolding fixed_buffer_def p lim Let_def a_def [symmetric] prod.case
      using flags by (auto simp: neg ftoa_pad_def ftoa_sign_def ftoa_push_def)
  qed
  show ?thesis
    unfolding fixed_text_def p lim a_def [symmetric] snd_conv s option.map buf body
    by (simp add: rev_text_def flags ftoa_pad_def signed_text_def numeral_text_def rev_map)
qed

lemma limited_precision: "9 < snd (limit_precision [] prec) \<longleftrightarrow> 41 < prec"
proof -
  let ?k = "min 32 (unat prec - 9)"
  have "of_nat ?k \<le> prec" by (simp add: word_le_nat_alt unsigned_of_nat take_bit_nat_eq_self)
  then have "unat (prec - of_nat ?k) = unat prec - ?k"
    by (simp add: unat_sub unsigned_of_nat take_bit_nat_eq_self)
  then show ?thesis by (simp add: limit_precision_eq Let_def word_less_nat_alt) linarith
qed

lemma fixed_text_defined:
  assumes "small v"
  shows "fixed_text v prec width flags = None \<longleftrightarrow> has flags FLAGS_PRECISION \<and> 41 < prec"
proof -
  let ?p = "if has flags FLAGS_PRECISION then prec else PRINTF_DEFAULT_FLOAT_PRECISION"
  have "fixed_text v prec width flags = None \<longleftrightarrow> 9 < snd (limit_precision [] ?p)"
    using split_defined [OF small_abs(1) [OF assms]] small_abs(2) [OF assms] by (simp add: fixed_text_def)
  also have "\<dots> \<longleftrightarrow> has flags FLAGS_PRECISION \<and> 41 < prec"
    unfolding limited_precision by (simp add: PRINTF_DEFAULT_FLOAT_PRECISION_def)
  finally show ?thesis .
qed

text \<open>The steps of printing \<open>0.95\<close> with one digit.\<close>

lemma steps_095:
  "\<not> f_nan 0x3FEE666666666666" "\<not> f_inf 0x3FEE666666666666" "\<bar>f_val 0x3FEE666666666666\<bar> \<le> 10 ^ 9"
  "\<not> f_val 0x3FEE666666666666 < 0" "\<not> f_sign 0x3FEE666666666666"
  "f_to_i32 0x3FEE666666666666 = Some 0" "f_round False (f_val 0x3FEE666666666666) = 0x3FEE666666666666"
  "f_mul 0x3FEE666666666666 (f_of_int 10) = 0x4023000000000000" "f_to_u64 0x4023000000000000 = Some 9"
  "f_sub 0x4023000000000000 (f_of_int 9) = 0x3FE0000000000000" "f_lit (1 / 2) = 0x3FE0000000000000"
  "\<not> f_lt 0x3FE0000000000000 0x3FE0000000000000"
  by code_simp+

lemma positive_095: "\<not> f_lt 0x3FEE666666666666 0"
  using steps_095(4) f_val_0(1) by (simp add: f_lt_def)

lemma split_095: "ftoa_split 0x3FEE666666666666 1 = Some (0, 10)"
proof -
  have "f_sub 0x3FEE666666666666 (f_of_int 0) = 0x3FEE666666666666"
    using steps_095(1,2,5,7) f_of_int_val [of 0] by (simp add: f_sub_def)
  then show ?thesis by (simp add: ftoa_split_def pow10_def Let_def steps_095)
qed

lemma extra_zeros_full:
  "length buf \<le> 32 \<Longrightarrow> 32 - length buf \<le> unat count \<Longrightarrow>
   extra_zeros buf count = buf @ replicate (32 - length buf) (ch CHR ''0'')"
proof (induction buf count rule: extra_zeros.induct)
  case (1 buf count)
  show ?case
  proof (cases "length buf = 32")
    case False
    then have l: "length buf < 32" "0 < unat count" using "1.prems" by auto
    then have c: "unat (count - 1) = unat count - 1" "0 < count"
      by (auto simp: unat_minus_one word_gt_0 unat_gt_0)
    have "replicate (32 - length buf) (48 :: u8) = 48 # replicate (31 - length buf) 48"
      using l by (cases "32 - length buf") auto
    then show ?thesis
      using 1 l c by (subst extra_zeros.simps) (simp add: PRINTF_FTOA_BUFFER_SIZE_def)
  qed (subst extra_zeros.simps, simp add: PRINTF_FTOA_BUFFER_SIZE_def)
qed

lemma text_095:
  "ftoa_text FP_DEPTH 0x3FEE666666666666 1 0 FLAGS_PRECISION = Some (replicate 30 (ch CHR ''0'') @ bytes_of ''10'')"
proof -
  have f: "FLAGS_PRECISION \<noteq> 0" "\<not> has FLAGS_PRECISION FLAGS_LEFT" "\<not> has FLAGS_PRECISION FLAGS_ZEROPAD"
    "\<not> has FLAGS_PRECISION FLAGS_PLUS" "\<not> has FLAGS_PRECISION FLAGS_SPACE" by (simp_all add: riscv_const)
  have "frac_digits [] 10 1 = (bytes_of ''01'', - 1)"
    by (subst frac_digits.simps, simp add: PRINTF_FTOA_BUFFER_SIZE_def Let_def, subst frac_digits.simps,
        simp add: PRINTF_FTOA_BUFFER_SIZE_def Let_def bytes_of_def)
  moreover have "extra_zeros (bytes_of ''01'') (- 1) = bytes_of ''01'' @ replicate 30 (ch CHR ''0'')"
    by (subst extra_zeros_full) (simp_all add: bytes_of_def unsigned_minus_1_eq_mask mask_eq_exp_minus_1)
  ultimately have "ftoa_body [] 0x3FEE666666666666 1 (0, 10) = bytes_of ''01'' @ replicate 30 (ch CHR ''0'')"
    by (simp add: ftoa_body_def Let_def ftoa_push_def PRINTF_FTOA_BUFFER_SIZE_def bytes_of_def)
      (subst whole_digits.simps, simp add: PRINTF_FTOA_BUFFER_SIZE_def)
  then have b: "fixed_buffer 0x3FEE666666666666 1 0 FLAGS_PRECISION (0, 10) = bytes_of ''01'' @ replicate 30 (ch CHR ''0'')"
    by (simp add: fixed_buffer_def limit_precision_eq positive_095 f ftoa_pad_def ftoa_sign_def)
  have "fixed_text 0x3FEE666666666666 1 0 FLAGS_PRECISION = Some (replicate 30 (ch CHR ''0'') @ bytes_of ''10'')"
    by (simp add: fixed_text_def positive_095 limit_precision_eq split_095 f b ftoa_pad_def rev_text_def)
      (simp add: bytes_of_def)
  moreover have "small 0x3FEE666666666666" using steps_095(1-3) by (simp add: small_def)
  ultimately show ?thesis by (simp only: FP_DEPTH_def eval_nat_numeral ftoa_text_small)
qed

end
