(* ===== verification/Printf.thy ===== *)
theory Printf
  imports Printf_Float
begin

text \<open>
  The formatter of \<^verbatim>\<open>src/src/urvirt-stub/printf.c\<close> (lines 575 to 914), with which the stub
  prints to standard error: the scanning of the format string, the conversions, and the entry
  points \<open>printf\<close>, \<open>sprintf\<close>, \<open>snprintf\<close>, \<open>vprintf\<close>, \<open>vsnprintf\<close> and \<open>fctprintf\<close>.

  Variable arguments are the 64-bit slots of the calling convention; a read past the last one is
  undefined and gives \<open>None\<close>.  The strings that \<open>%s\<close> reads are given by their address.
\<close>

section \<open>The format string\<close>

text \<open>
  A format is the list of its bytes up to the terminating NUL, \<open>peek\<close> is \<^verbatim>\<open>*format\<close>.
\<close>

definition peek :: "u8 list \<Rightarrow> u8" where
  "peek fmt = (case fmt of [] \<Rightarrow> 0 | c # _ \<Rightarrow> c)"

definition va_arg :: "u64 list \<Rightarrow> (u64 \<times> u64 list) option" where
  "va_arg va = (case va of [] \<Rightarrow> None | a # va \<Rightarrow> Some (a, va))"

definition flag_of :: "u8 \<Rightarrow> u32 option" where
  "flag_of c =
     (if c = ch CHR ''0'' then Some FLAGS_ZEROPAD
      else if c = ch CHR ''-'' then Some FLAGS_LEFT
      else if c = ch CHR ''+'' then Some FLAGS_PLUS
      else if c = ch CHR '' '' then Some FLAGS_SPACE
      else if c = ch CHR ''#'' then Some FLAGS_HASH
      else None)"

fun parse_flags :: "u32 \<Rightarrow> u8 list \<Rightarrow> u32 \<times> u8 list" where
  "parse_flags flags [] = (flags, [])"
| "parse_flags flags (c # fmt) = (case flag_of c of
     None \<Rightarrow> (flags, c # fmt)
   | Some f \<Rightarrow> parse_flags (flags OR f) fmt)"

definition parse_width ::
  "u32 \<Rightarrow> u8 list \<Rightarrow> u64 list \<Rightarrow> (u32 \<times> u32 \<times> u8 list \<times> u64 list) option" where
  "parse_width flags fmt va =
     (if is_digit (peek fmt) then
        (let (width, fmt) = atoi fmt in Some (flags, width, fmt, va))
      else if peek fmt = ch CHR ''*'' then
        (case va_arg va of None \<Rightarrow> None
         | Some (a, va) \<Rightarrow>
             let w = ucast a
             in if w <s 0 then Some (flags OR FLAGS_LEFT, - w, tl fmt, va)
                else Some (flags, w, tl fmt, va))
      else Some (flags, 0, fmt, va))"

definition parse_precision ::
  "u32 \<Rightarrow> u8 list \<Rightarrow> u64 list \<Rightarrow> (u32 \<times> u32 \<times> u8 list \<times> u64 list) option" where
  "parse_precision flags fmt va =
     (if peek fmt = ch CHR ''.'' then
        (let flags = flags OR FLAGS_PRECISION; fmt = tl fmt
         in if is_digit (peek fmt) then
              (let (precision, fmt) = atoi fmt in Some (flags, precision, fmt, va))
            else if peek fmt = ch CHR ''*'' then
              (case va_arg va of None \<Rightarrow> None
               | Some (a, va) \<Rightarrow>
                   let prec = ucast a in Some (flags, if 0 <s prec then prec else 0, tl fmt, va))
            else Some (flags, 0, fmt, va))
      else Some (flags, 0, fmt, va))"

text \<open>\<open>ptrdiff_t\<close>, \<open>intmax_t\<close> and \<open>size_t\<close> have the size of \<open>long\<close>.\<close>

definition parse_length :: "u32 \<Rightarrow> u8 list \<Rightarrow> u32 \<times> u8 list" where
  "parse_length flags fmt =
     (if peek fmt = ch CHR ''l'' then
        (if peek (tl fmt) = ch CHR ''l'' then (flags OR FLAGS_LONG OR FLAGS_LONG_LONG, tl (tl fmt))
         else (flags OR FLAGS_LONG, tl fmt))
      else if peek fmt = ch CHR ''h'' then
        (if peek (tl fmt) = ch CHR ''h'' then (flags OR FLAGS_SHORT OR FLAGS_CHAR, tl (tl fmt))
         else (flags OR FLAGS_SHORT, tl fmt))
      else if peek fmt = ch CHR ''t'' \<or> peek fmt = ch CHR ''j'' \<or> peek fmt = ch CHR ''z'' then
        (flags OR FLAGS_LONG, tl fmt)
      else (flags, fmt))"

text \<open>\<^verbatim>\<open>%[flags][width][.precision][length]\<close>\<close>

definition parse_spec ::
  "u8 list \<Rightarrow> u64 list \<Rightarrow> (u32 \<times> u32 \<times> u32 \<times> u8 list \<times> u64 list) option" where
  "parse_spec fmt va =
     (let (flags, fmt) = parse_flags 0 fmt
      in case parse_width flags fmt va of None \<Rightarrow> None
         | Some (flags, width, fmt, va) \<Rightarrow>
             (case parse_precision flags fmt va of None \<Rightarrow> None
              | Some (flags, precision, fmt, va) \<Rightarrow>
                  let (flags, fmt) = parse_length flags fmt
                  in Some (flags, width, precision, fmt, va)))"

section \<open>Conversions\<close>

definition int_base :: "u8 \<Rightarrow> u64" where
  "int_base c =
     (if c = ch CHR ''x'' \<or> c = ch CHR ''X'' then 16
      else if c = ch CHR ''o'' then 8
      else if c = ch CHR ''b'' then 2
      else 10)"

definition int_flags :: "u8 \<Rightarrow> u32 \<Rightarrow> u32" where
  "int_flags c flags =
     (let flags = (if int_base c = 10 then flags AND NOT FLAGS_HASH else flags);
          flags = (if c = ch CHR ''X'' then flags OR FLAGS_UPPERCASE else flags);
          flags = (if c \<noteq> ch CHR ''i'' \<and> c \<noteq> ch CHR ''d''
                   then flags AND NOT (FLAGS_PLUS OR FLAGS_SPACE) else flags)
      in if has flags FLAGS_PRECISION then flags AND NOT FLAGS_ZEROPAD else flags)"

text \<open>
  The absolute value \<^verbatim>\<open>value > 0 ? value : 0 - value\<close> as an unsigned number; negating the
  least value wraps.  \<open>char\<close> is unsigned on RISC-V.
\<close>

definition magnitude :: "'a::len word \<Rightarrow> 'a word" where
  "magnitude v = (if 0 <s v then v else 0 - v)"

definition conv_int ::
  "'b out_fct \<Rightarrow> u64 \<Rightarrow> u8 \<Rightarrow> u32 \<Rightarrow> u32 \<Rightarrow> u32 \<Rightarrow> u64 \<Rightarrow> 'b \<times> u64 \<Rightarrow> 'b \<times> u64" where
  "conv_int out maxlen c flags0 width precision a st =
     (let base = int_base c;
          flags = int_flags c flags0
      in if c = ch CHR ''i'' \<or> c = ch CHR ''d'' then
           (if has flags FLAGS_LONG_LONG then
              ntoa_long_long out maxlen (magnitude a) (a <s 0) base precision width flags st
            else if has flags FLAGS_LONG then
              ntoa_long out maxlen (magnitude a) (a <s 0) base precision width flags st
            else
              let v :: u32 = (if has flags FLAGS_CHAR then ucast (ucast a :: u8)
                              else if has flags FLAGS_SHORT then scast (ucast a :: u16)
                              else ucast a)
              in ntoa_long out maxlen (ucast (magnitude v)) (v <s 0) base precision width flags st)
         else
           (if has flags FLAGS_LONG_LONG then
              ntoa_long_long out maxlen a False base precision width flags st
            else if has flags FLAGS_LONG then
              ntoa_long out maxlen a False base precision width flags st
            else
              let v :: u32 = (if has flags FLAGS_CHAR then ucast (ucast a :: u8)
                              else if has flags FLAGS_SHORT then ucast (ucast a :: u16)
                              else ucast a)
              in ntoa_long out maxlen (ucast v) False base precision width flags st))"

text \<open>\<^verbatim>\<open>while (l++ < width) out(' ', buffer, idx++, maxlen);\<close>\<close>

definition pad_spaces ::
  "'b out_fct \<Rightarrow> u64 \<Rightarrow> u32 \<Rightarrow> u32 \<Rightarrow> 'b \<times> u64 \<Rightarrow> 'b \<times> u64" where
  "pad_spaces out maxlen l width st =
     emits out maxlen (replicate (unat width - unat l) (ch CHR '' '')) st"

definition conv_char ::
  "'b out_fct \<Rightarrow> u64 \<Rightarrow> u32 \<Rightarrow> u32 \<Rightarrow> u64 \<Rightarrow> 'b \<times> u64 \<Rightarrow> 'b \<times> u64" where
  "conv_char out maxlen flags width a st =
     (let st = (if \<not> has flags FLAGS_LEFT then pad_spaces out maxlen 1 width st else st);
          st = emit out maxlen (ucast a) st
      in if has flags FLAGS_LEFT then pad_spaces out maxlen 1 width st else st)"

definition conv_str ::
  "'b out_fct \<Rightarrow> u64 \<Rightarrow> u32 \<Rightarrow> u32 \<Rightarrow> u32 \<Rightarrow> u8 list \<Rightarrow> 'b \<times> u64 \<Rightarrow> 'b \<times> u64" where
  "conv_str out maxlen flags width precision p st =
     (let l = strnlen_s p (if precision \<noteq> 0 then ucast precision else - 1);
          l = (if has flags FLAGS_PRECISION then (if l < precision then l else precision) else l);
          st = (if \<not> has flags FLAGS_LEFT then pad_spaces out maxlen l width st else st);
          st = emits out maxlen (if has flags FLAGS_PRECISION then take (unat precision) p else p) st
      in if has flags FLAGS_LEFT then pad_spaces out maxlen l width st else st)"

text \<open>
  The surroundings of a call: the string at an address.
\<close>

record fmt_env =
  str_at :: "u64 \<Rightarrow> u8 list option"

definition conversion ::
  "fmt_env \<Rightarrow> 'b out_fct \<Rightarrow> u64 \<Rightarrow> u8 \<Rightarrow> u32 \<Rightarrow> u32 \<Rightarrow> u32 \<Rightarrow> u64 list \<Rightarrow> 'b \<times> u64 \<Rightarrow>
   (u64 list \<times> 'b \<times> u64) option" where
  "conversion F out maxlen c flags width precision va st =
     (if c \<in> {ch CHR ''d'', ch CHR ''i'', ch CHR ''u'', ch CHR ''x'', ch CHR ''X'', ch CHR ''o'', ch CHR ''b''} then
        map_option (\<lambda>(a, va). (va, conv_int out maxlen c flags width precision a st)) (va_arg va)
      else if c = ch CHR ''f'' \<or> c = ch CHR ''F'' then
        (let flags = (if c = ch CHR ''F'' then flags OR FLAGS_UPPERCASE else flags)
         in case va_arg va of None \<Rightarrow> None
            | Some (a, va) \<Rightarrow> map_option (Pair va) (ftoa FP_DEPTH out maxlen a precision width flags st))
      else if c = ch CHR ''e'' \<or> c = ch CHR ''E'' \<or> c = ch CHR ''g'' \<or> c = ch CHR ''G'' then
        (let flags = (if c = ch CHR ''g'' \<or> c = ch CHR ''G'' then flags OR FLAGS_ADAPT_EXP else flags);
             flags = (if c = ch CHR ''E'' \<or> c = ch CHR ''G'' then flags OR FLAGS_UPPERCASE else flags)
         in case va_arg va of None \<Rightarrow> None
            | Some (a, va) \<Rightarrow> map_option (Pair va) (etoa FP_DEPTH out maxlen a precision width flags st))
      else if c = ch CHR ''c'' then
        map_option (\<lambda>(a, va). (va, conv_char out maxlen flags width a st)) (va_arg va)
      else if c = ch CHR ''s'' then
        (case va_arg va of None \<Rightarrow> None
         | Some (a, va) \<Rightarrow>
             map_option (\<lambda>p. (va, conv_str out maxlen flags width precision p st)) (str_at F a))
      else if c = ch CHR ''p'' then
        map_option (\<lambda>(a, va). (va, ntoa_long_long out maxlen a False 16 precision 16
            (flags OR (FLAGS_ZEROPAD OR FLAGS_UPPERCASE)) st)) (va_arg va)
      else Some (va, emit out maxlen c st))"

section \<open>The loop over the format\<close>

lemma atoi_from_length: "length (snd (atoi_from i fmt)) \<le> length fmt"
  by (induction i fmt rule: atoi_from.induct) auto

lemma parse_flags_length: "length (snd (parse_flags flags fmt)) \<le> length fmt"
  by (induction flags fmt rule: parse_flags.induct) (auto split: option.splits)

lemma parse_width_length:
  "parse_width flags fmt va = Some (flags', w, fmt', va') \<Longrightarrow> length fmt' \<le> length fmt"
  using atoi_from_length [of 0 fmt]
  by (auto simp: parse_width_def atoi_def Let_def split: if_splits option.splits prod.splits)

lemma parse_precision_length:
  "parse_precision flags fmt va = Some (flags', w, fmt', va') \<Longrightarrow> length fmt' \<le> length fmt"
  using atoi_from_length [of 0 "tl fmt"]
  by (auto simp: parse_precision_def atoi_def Let_def split: if_splits option.splits prod.splits)

lemma parse_length_length: "length (snd (parse_length flags fmt)) \<le> length fmt"
  by (auto simp: parse_length_def)

lemma parse_spec_length:
  "parse_spec fmt va = Some (flags, w, p, fmt', va') \<Longrightarrow> length fmt' \<le> length fmt"
proof -
  assume a: "parse_spec fmt va = Some (flags, w, p, fmt', va')"
  obtain f1 fmt1 where 1: "parse_flags 0 fmt = (f1, fmt1)" by fastforce
  from a 1 obtain f2 w2 fmt2 va2 where 2: "parse_width f1 fmt1 va = Some (f2, w2, fmt2, va2)"
    by (auto simp: parse_spec_def Let_def split: option.splits)
  from a 1 2 obtain f3 p3 fmt3 va3 where 3: "parse_precision f2 fmt2 va2 = Some (f3, p3, fmt3, va3)"
    by (auto simp: parse_spec_def Let_def split: option.splits)
  from a 1 2 3 have 4: "fmt' = snd (parse_length f3 fmt3)"
    by (auto simp: parse_spec_def Let_def split: prod.splits)
  show ?thesis
    using parse_flags_length [of 0 fmt] parse_width_length [OF 2] parse_precision_length [OF 3]
      parse_length_length [of f3 fmt3] 1 4 by simp
qed

text \<open>
  \<open>None\<close> is undefined behaviour: an argument that was not passed, an unreadable string, or a
  format that ends inside a conversion, after which the C loop goes on reading behind the
  terminating NUL.
\<close>

function vformat ::
  "fmt_env \<Rightarrow> 'b out_fct \<Rightarrow> u64 \<Rightarrow> u8 list \<Rightarrow> u64 list \<Rightarrow> 'b \<times> u64 \<Rightarrow> ('b \<times> u64) option" where
  "vformat F out maxlen fmt va st =
     (if peek fmt = 0 then Some st
      else if peek fmt \<noteq> ch CHR ''%'' then vformat F out maxlen (tl fmt) va (emit out maxlen (peek fmt) st)
      else case parse_spec (tl fmt) va of None \<Rightarrow> None
        | Some (flags, width, precision, fmt', va') \<Rightarrow>
            if peek fmt' = 0 then None
            else case conversion F out maxlen (peek fmt') flags width precision va' st of None \<Rightarrow> None
              | Some (va'', st') \<Rightarrow> vformat F out maxlen (tl fmt') va'' st')"
  by pat_completeness auto
termination
proof (relation "measure (\<lambda>(F, out, maxlen, fmt, va, st). length fmt)", goal_cases)
  case 1
  then show ?case by simp
next
  case (2 F out maxlen fmt va st)
  then show ?case by (cases fmt) (simp_all add: peek_def)
next
  case (3 F out maxlen fmt va st x2 flags y width z precision w fmt' va')
  then show ?case
    using parse_spec_length [of "tl fmt" va flags width precision fmt' va']
    by (cases fmt) (auto simp: peek_def)
qed

declare vformat.simps [simp del]

definition vsnprintf_internal ::
  "fmt_env \<Rightarrow> 'b out_fct \<Rightarrow> bool \<Rightarrow> 'b \<Rightarrow> u64 \<Rightarrow> u8 list \<Rightarrow> u64 list \<Rightarrow> ('b \<times> u32) option" where
  "vsnprintf_internal F out0 null buffer maxlen fmt va =
     (let out = (if null then out_null else out0)
      in map_option (\<lambda>(b, idx). (out 0 b (if idx < maxlen then idx else maxlen - 1) maxlen, ucast idx))
           (vformat F out maxlen fmt va (buffer, 0)))"

section \<open>The entry points\<close>

definition printf :: "env \<Rightarrow> fmt_env \<Rightarrow> u8 list \<Rightarrow> u64 list \<Rightarrow> ('x world_scheme, u32) prog" where
  "printf E F fmt va = (\<lambda>s. case vsnprintf_internal F (out_char E) False s (- 1) fmt va of
     None \<Rightarrow> Stop Undefined s | Some (s', n) \<Rightarrow> Ok n s')"

text \<open>A buffer argument is \<open>None\<close> when it is the null pointer.\<close>

definition to_buffer ::
  "fmt_env \<Rightarrow> u8 list option \<Rightarrow> u64 \<Rightarrow> u8 list \<Rightarrow> u64 list \<Rightarrow> (u8 list option \<times> u32) option" where
  "to_buffer F buffer count fmt va = vsnprintf_internal F out_buffer (buffer = None) buffer count fmt va"

definition sprintf ::
  "fmt_env \<Rightarrow> u8 list option \<Rightarrow> u8 list \<Rightarrow> u64 list \<Rightarrow> (u8 list option \<times> u32) option" where
  "sprintf F buffer fmt va = to_buffer F buffer (- 1) fmt va"

definition snprintf ::
  "fmt_env \<Rightarrow> u8 list option \<Rightarrow> u64 \<Rightarrow> u8 list \<Rightarrow> u64 list \<Rightarrow> (u8 list option \<times> u32) option" where
  "snprintf F buffer count fmt va = to_buffer F buffer count fmt va"

definition vprintf :: "env \<Rightarrow> fmt_env \<Rightarrow> u8 list \<Rightarrow> u64 list \<Rightarrow> ('x world_scheme, u32) prog" where
  "vprintf E F fmt va = (\<lambda>s. case vsnprintf_internal F (out_char E) False s (- 1) fmt va of
     None \<Rightarrow> Stop Undefined s | Some (s', n) \<Rightarrow> Ok n s')"

definition vsnprintf ::
  "fmt_env \<Rightarrow> u8 list option \<Rightarrow> u64 \<Rightarrow> u8 list \<Rightarrow> u64 list \<Rightarrow> (u8 list option \<times> u32) option" where
  "vsnprintf F buffer count fmt va = to_buffer F buffer count fmt va"

definition fctprintf ::
  "fmt_env \<Rightarrow> (u8 \<Rightarrow> 'b \<Rightarrow> 'b) \<Rightarrow> 'b \<Rightarrow> u8 list \<Rightarrow> u64 list \<Rightarrow> ('b \<times> u32) option" where
  "fctprintf F out arg fmt va = vsnprintf_internal F (out_fct_wrapper out) False arg (- 1) fmt va"

section \<open>The text that is printed\<close>

definition format_text :: "fmt_env \<Rightarrow> u8 list \<Rightarrow> u64 list \<Rightarrow> u8 list option" where
  "format_text F fmt va = map_option fst (vformat F collect 0 fmt va ([], 0))"

definition int_text :: "u8 \<Rightarrow> u32 \<Rightarrow> u32 \<Rightarrow> u32 \<Rightarrow> u64 \<Rightarrow> u8 list" where
  "int_text c flags0 width precision a = fst (conv_int collect 0 c flags0 width precision a ([], 0))"

section \<open>Printing is independent of the sink\<close>

lemma conv_int_emits:
  "conv_int out m c flags width prec a st = emits out m (int_text c flags width prec a) st"
  by (simp add: int_text_def conv_int_def Let_def ntoa_long_emits)

definition char_text :: "u32 \<Rightarrow> u32 \<Rightarrow> u64 \<Rightarrow> u8 list" where
  "char_text flags width a = fst (conv_char collect 0 flags width a ([], 0))"

definition str_text :: "u32 \<Rightarrow> u32 \<Rightarrow> u32 \<Rightarrow> u8 list \<Rightarrow> u8 list" where
  "str_text flags width precision p = fst (conv_str collect 0 flags width precision p ([], 0))"

definition conv_text ::
  "fmt_env \<Rightarrow> u8 \<Rightarrow> u32 \<Rightarrow> u32 \<Rightarrow> u32 \<Rightarrow> u64 list \<Rightarrow> (u64 list \<times> u8 list) option" where
  "conv_text F c flags width precision va =
     map_option (\<lambda>(va, cs, _). (va, cs)) (conversion F collect 0 c flags width precision va ([], 0))"

lemma emit_emits: "emit out m c st = emits out m [c] st"
  by simp

lemma conv_char_emits: "conv_char out m flags width a st = emits out m (char_text flags width a) st"
  by (simp add: char_text_def conv_char_def Let_def pad_spaces_def emits_collect emit_def [of collect] collect_def)

lemma conv_str_emits: "conv_str out m flags width prec p st = emits out m (str_text flags width prec p) st"
  by (simp add: str_text_def conv_str_def Let_def pad_spaces_def emits_collect)

lemma conversion_emits:
  "conversion F out m c flags width prec va st =
   map_option (\<lambda>(va, cs). (va, emits out m cs st)) (conv_text F c flags width prec va)"
  unfolding conv_text_def conversion_def Let_def
  by (simp add: conv_int_emits conv_char_emits conv_str_emits ntoa_long_emits float_emits emit_emits option.map_comp
      comp_def case_prod_beta emits_collect del: emits_simps split: option.split)

definition same_text :: "fmt_env \<Rightarrow> 'b out_fct \<Rightarrow> u64 \<Rightarrow> u8 list \<Rightarrow> u64 list \<Rightarrow> bool" where
  "same_text F out m fmt va \<longleftrightarrow>
     (\<exists>r. (\<forall>st. vformat F out m fmt va st = map_option (\<lambda>cs. emits out m cs st) r) \<and>
       (\<forall>st. vformat F collect 0 fmt va st = map_option (\<lambda>cs. emits collect 0 cs st) r))"

lemma same_text_char:
  assumes "same_text F out m rest va" and "c \<noteq> 0" "c \<noteq> ch CHR ''%''"
  shows "same_text F out m (c # rest) va"
proof -
  have c: "peek (c # rest) = c" "tl (c # rest) = rest" by (simp_all add: peek_def)
  obtain r where r: "\<forall>st. vformat F out m rest va st = map_option (\<lambda>cs. emits out m cs st) r"
      "\<forall>st. vformat F collect 0 rest va st = map_option (\<lambda>cs. emits collect 0 cs st) r"
    using assms(1) unfolding same_text_def by blast
  then show ?thesis
    unfolding same_text_def using assms(2,3)
    by (intro exI [of _ "map_option (Cons c) r"]) (simp add: vformat.simps [of F _ _ "c # rest"] c option.map_comp comp_def
          del: split_paired_All)
qed

lemma same_text_spec:
  assumes "\<And>fmt va. length fmt \<le> length rest \<Longrightarrow> same_text F out m fmt va" and "c = ch CHR ''%''"
  shows "same_text F out m (c # rest) va"
proof -
  have unf: "vformat F out' m' (c # rest) va st = (case parse_spec rest va of None \<Rightarrow> None
    | Some (flags, width, precision, fmt', va') \<Rightarrow>
        if peek fmt' = 0 then None
        else case conversion F out' m' (peek fmt') flags width precision va' st of None \<Rightarrow> None
          | Some (va'', st') \<Rightarrow> vformat F out' m' (tl fmt') va'' st')"
    for out' :: "'c out_fct" and m' st
    by (subst vformat.simps) (simp add: peek_def assms(2))
  show ?thesis
  proof (cases "parse_spec rest va")
    case None
    then show ?thesis unfolding same_text_def by (intro exI [of _ None]) (simp add: unf)
  next
    case (Some p)
    obtain flags width prec fmt' va' where p: "p = (flags, width, prec, fmt', va')" by (cases p)
    note spec = Some [unfolded p]
    have l: "length (tl fmt') \<le> length rest" using parse_spec_length [OF spec] by simp
    show ?thesis
    proof (cases "peek fmt' = 0 \<or> conv_text F (peek fmt') flags width prec va' = None")
      case True
      then show ?thesis
        unfolding same_text_def by (intro exI [of _ None]) (auto simp: unf spec conversion_emits)
    next
      case False
      then obtain va'' cs where t: "conv_text F (peek fmt') flags width prec va' = Some (va'', cs)" by auto
      from assms(1) [OF l, of va''] obtain r where
        "\<forall>st. vformat F out m (tl fmt') va'' st = map_option (\<lambda>cs. emits out m cs st) r"
        "\<forall>st. vformat F collect 0 (tl fmt') va'' st = map_option (\<lambda>cs. emits collect 0 cs st) r"
        unfolding same_text_def by blast
      then show ?thesis
        unfolding same_text_def using False by (intro exI [of _ "map_option ((@) cs) r"])
          (simp add: unf spec conversion_emits t option.map_comp comp_def del: split_paired_All)
    qed
  qed
qed

lemma vformat_both: "same_text F out m fmt va"
proof (induction fmt arbitrary: va rule: length_induct)
  case (1 fmt)
  show ?case
  proof (cases "peek fmt = 0")
    case True
    then show ?thesis unfolding same_text_def by (intro exI [of _ "Some []"]) (simp add: vformat.simps)
  next
    case False
    then obtain c rest where fmt: "fmt = c # rest" "c \<noteq> 0" by (cases fmt) (auto simp: peek_def)
    then show ?thesis
      using 1 same_text_char [of F out m rest va c] same_text_spec [of rest F out m c va] by (cases "c = ch CHR ''%''") auto
  qed
qed

lemma vformat_emits:
  "vformat F out m fmt va st = map_option (\<lambda>cs. emits out m cs st) (format_text F fmt va)"
proof -
  obtain r where r: "\<forall>st. vformat F out m fmt va st = map_option (\<lambda>cs. emits out m cs st) r"
    "\<forall>st. vformat F collect 0 fmt va st = map_option (\<lambda>cs. emits collect 0 cs st) r"
    using vformat_both unfolding same_text_def by blast
  then have "format_text F fmt va = r"
    by (simp add: format_text_def option.map_comp comp_def option.map_ident)
  then show ?thesis using r(1) by blast
qed

lemma format_text_rec:
  "format_text F fmt va =
     (if peek fmt = 0 then Some []
      else if peek fmt \<noteq> ch CHR ''%'' then map_option (Cons (peek fmt)) (format_text F (tl fmt) va)
      else case parse_spec (tl fmt) va of None \<Rightarrow> None
        | Some (flags, width, precision, fmt', va') \<Rightarrow>
            if peek fmt' = 0 then None
            else case conv_text F (peek fmt') flags width precision va' of None \<Rightarrow> None
              | Some (va'', cs) \<Rightarrow> map_option ((@) cs) (format_text F (tl fmt') va''))"
  unfolding format_text_def [of F fmt]
  by (subst vformat.simps) (simp add: vformat_emits conversion_emits option.map_comp comp_def
      emits_collect emit_def [of collect] collect_def split: option.split prod.split)

section \<open>Sinks\<close>

text \<open>What every output function promises: storing a text from an index on.\<close>

lemma emit_out_buffer:
  "unat m \<le> length bs \<Longrightarrow> emit out_buffer m c (Some bs, i) =
   (Some (if unat i < unat m then bs[unat i := c] else bs), i + 1)"
  by (auto simp: emit_def out_buffer_def word_less_nat_alt)

lemma out_buffer_emits:
  assumes "unat m \<le> length bs" and "length cs < 2 ^ 64"
  shows "emits out_buffer m cs (Some bs, 0) =
    (Some (take (unat m) cs @ drop (min (length cs) (unat m)) bs), of_nat (length cs))"
  using assms(2)
proof (induction cs rule: rev_induct)
  case (snoc c cs)
  have len: "unat (of_nat (length cs) :: u64) = length cs"
    using snoc.prems by (simp add: unsigned_of_nat take_bit_nat_eq_self)
  have IH: "emits out_buffer m cs (Some bs, 0) =
    (Some (take (unat m) cs @ drop (min (length cs) (unat m)) bs), of_nat (length cs))"
    using snoc by simp
  show ?case
  proof (cases "length cs < unat m")
    case True
    then have "drop (length cs) bs \<noteq> []" using assms(1) by simp
    then obtain x xs where x: "drop (length cs) bs = x # xs" by (cases "drop (length cs) bs") auto
    then have "drop (Suc (length cs)) bs = xs" by (metis drop_Suc tl_drop list.sel(3))
    moreover have "unat m \<le> length (cs @ x # xs)"
      using assms(1) True arg_cong [OF x, of length] by simp
    ultimately show ?thesis
      using True assms(1) x len
      by (simp add: IH emit_out_buffer list_update_append algebra_simps)
  next
    case False
    then show ?thesis
      using len assms(1) by (simp add: IH emit_out_buffer algebra_simps)
  qed
qed simp


text \<open>
  The character devices: an output function that hands every character but NUL to a
  device and ignores index and limit.
\<close>

lemma ucast_of_nat_u32: "ucast (of_nat n :: u64) = (of_nat n :: u32)"
  by transfer simp

locale device =
  fixes out :: "'b out_fct" and put :: "u8 \<Rightarrow> 'b \<Rightarrow> 'b"
  assumes out: "out c b idx m = (if c = 0 then b else put c b)"
begin

lemma emits_device:
  "emits out m cs (b, i) = (fold put (filter (\<lambda>c. c \<noteq> 0) cs) b, i + of_nat (length cs))"
  by (induction cs arbitrary: b i) (simp_all add: emit_def out algebra_simps)

lemma vsnprintf_device:
  "vsnprintf_internal F out False b m fmt va =
   map_option (\<lambda>cs. (fold put (filter (\<lambda>c. c \<noteq> 0) cs) b, of_nat (length cs))) (format_text F fmt va)"
  by (simp add: vsnprintf_internal_def vformat_emits option.map_comp comp_def emits_device out
      ucast_of_nat_u32)

end

definition putchar_call :: "u8 \<Rightarrow> ecall" where
  "putchar_call c = Ecall SYS_write [int_arg 2, Bytes [c], Reg 1]"

interpretation console: device "out_char E" "\<lambda>c s. s\<lparr>trace := trace s @ [putchar_call c]\<rparr>" for E
  by unfold_locales (simp add: out_char_def putchar_def putchar_call_def Let_def)

interpretation wrapped: device "out_fct_wrapper f" f for f
  by unfold_locales (simp add: out_fct_wrapper_def)

lemma fold_putchar:
  "fold (\<lambda>c s. s\<lparr>trace := trace s @ [putchar_call c]\<rparr>) cs s = s\<lparr>trace := trace s @ map putchar_call cs\<rparr>"
  by (induction cs arbitrary: s) simp_all

definition printed :: "u8 list \<Rightarrow> ecall list" where
  "printed cs = map putchar_call (filter (\<lambda>c. c \<noteq> 0) cs)"

lemma printf_text:
  "printf E F fmt va s = (case format_text F fmt va of None \<Rightarrow> Stop Undefined s
     | Some cs \<Rightarrow> Ok (of_nat (length cs)) (s\<lparr>trace := trace s @ printed cs\<rparr>))"
  by (simp add: printf_def console.vsnprintf_device fold_putchar printed_def split: option.split)

lemma store_last:
  assumes "k < length bs" shows "(take k cs @ drop (min (length cs) k) bs)[min (length cs) k := c] =
     take k cs @ c # drop (Suc (min (length cs) k)) bs"
proof -
  let ?k = "min (length cs) k"
  have "drop ?k bs = bs ! ?k # drop (Suc ?k) bs"
    using assms by (intro Cons_nth_drop_Suc [symmetric]) simp
  then show ?thesis by (simp add: list_update_append min.commute)
qed

lemma snprintf_text:
  assumes "format_text F fmt va = Some cs" and "length cs < 2 ^ 64"
    and "0 < unat n" and "unat n \<le> length bs"
  shows "snprintf F (Some bs) n fmt va =
    Some (Some (take (unat n - 1) cs @ 0 # drop (min (length cs + 1) (unat n)) bs), of_nat (length cs))"
proof -
  let ?i = "if (of_nat (length cs) :: u64) < n then of_nat (length cs) else n - 1"
  have len: "unat (of_nat (length cs) :: u64) = length cs"
    using assms(2) by (simp add: unsigned_of_nat take_bit_nat_eq_self)
  have "unat (n - 1) = unat n - 1"
    using assms(3) by (metis unat_minus_one unat_0 less_irrefl)
  then have i: "unat ?i = min (length cs) (unat n - 1)" "unat ?i < unat n"
    using len assms(3) by (auto simp: word_less_nat_alt)
  let ?b = "take (unat n) cs @ drop (min (length cs) (unat n)) bs"
  have "?b[unat ?i := 0] = take (unat n - 1) cs @ 0 # drop (min (length cs + 1) (unat n)) bs"
  proof (cases "length cs < unat n")
    case True
    then have "length cs \<le> unat n - 1" "unat n - 1 < length bs" using assms(3,4) by linarith+
    then show ?thesis
      using store_last [of "unat n - 1" bs cs 0] True i by (simp add: min_absorb1)
  next
    case False
    then have t: "take (unat n) cs = take (unat n - 1) cs @ [cs ! (unat n - 1)]"
      using assms(3) by (simp add: take_Suc_conv_app_nth [symmetric])
    then show ?thesis
      using False assms(3) i(1) by (simp add: t list_update_append min_def)
  qed
  then have "fst (emit out_buffer n 0 (Some ?b, ?i)) =
      Some (take (unat n - 1) cs @ 0 # drop (min (length cs + 1) (unat n)) bs)"
    using assms(4) i(2) by (simp add: emit_out_buffer del: list_update_append)
  then show ?thesis
    using assms by (simp add: snprintf_def to_buffer_def vsnprintf_internal_def vformat_emits out_buffer_emits
        emit_def ucast_of_nat_u32)
qed

section \<open>Numerals\<close>

lemma unat_magnitude: "unat (magnitude v) = nat \<bar>sint (v :: 'a::len word)\<bar>"
proof (cases "0 < sint v")
  case True
  have "sint v < 2 ^ (LENGTH('a) - 1)" using sint_lt [of v] by simp
  also have "(2 :: int) ^ (LENGTH('a) - 1) < 2 ^ LENGTH('a)"
    by (rule power_strict_increasing) simp_all
  finally have "sint v = uint v"
    using True by (simp add: uint_sint take_bit_eq_mod)
  then show ?thesis using True
    by (simp add: magnitude_def word_sless_alt)
next
  case False
  have "uint (- v) = (- sint v) mod 2 ^ LENGTH('a)"
  proof -
    have "uint (- v) = (- uint v) mod 2 ^ LENGTH('a)"
      by (simp add: uint_word_ariths)
    also have "\<dots> = (- (sint v mod 2 ^ LENGTH('a))) mod 2 ^ LENGTH('a)"
      by (simp add: uint_sint take_bit_eq_mod)
    finally show ?thesis by (simp add: mod_minus_eq)
  qed
  also have "\<dots> = - sint v"
  proof -
    have "- sint v \<le> 2 ^ (LENGTH('a) - 1)" using sint_ge [of v] by simp
    also have "(2 :: int) ^ (LENGTH('a) - 1) < 2 ^ LENGTH('a)"
      by (rule power_strict_increasing) simp_all
    finally show ?thesis using False by simp
  qed
  finally show ?thesis using False
    by (simp add: magnitude_def word_sless_alt unsigned_eq_0_iff flip: nat_uint_eq)
qed

lemma int_texts:
  "int_text (ch CHR ''d'') FLAGS_LONG 0 0 a = signed_text (sint a)"
  "int_text (ch CHR ''d'') 0 0 0 a = signed_text (sint (ucast a :: u32))"
  "int_text (ch CHR ''u'') 0 0 0 a = numeral_text 0 10 (unat (ucast a :: u32))"
  "int_text (ch CHR ''x'') FLAGS_LONG 0 0 a = numeral_text 0 16 (unat a)"
proof -
  have f: "int_flags 100 FLAGS_LONG = FLAGS_LONG" "int_flags 100 0 = 0" "int_flags 117 0 = 0" 
    "int_flags 120 FLAGS_LONG = FLAGS_LONG" "int_base 100 = 10" "int_base 117 = 10" "int_base 120 = 16"
    by (simp_all add: int_flags_def int_base_def Let_def riscv_const)
  have h: "has FLAGS_LONG FLAGS_LONG" "\<not> has FLAGS_LONG FLAGS_LONG_LONG"
    by (simp_all add: riscv_const)
  note simps = int_text_def conv_int_def Let_def ntoa_long_emits f ntoa_plain no_flags signed_text_def
    unat_magnitude word_sless_alt unat_widen emits_collect emit_def [of collect] collect_def
  show "int_text (ch CHR ''d'') FLAGS_LONG 0 0 a = signed_text (sint a)"
    using h by (simp add: simps)
  show "int_text (ch CHR ''d'') 0 0 0 a = signed_text (sint (ucast a :: u32))"
    by (simp add: simps)
  show "int_text (ch CHR ''u'') 0 0 0 a = numeral_text 0 10 (unat (ucast a :: u32))"
    by (simp add: simps)
  show "int_text (ch CHR ''x'') FLAGS_LONG 0 0 a = numeral_text 0 16 (unat a)"
    using h by (simp add: simps)
qed


section \<open>Properties\<close>

lemma spec_texts:
  "parse_spec (bytes_of ''zd'' @ r) va = Some (FLAGS_LONG, 0, 0, ch CHR ''d'' # r, va)"
  "parse_spec (bytes_of ''d'' @ r) va = Some (0, 0, 0, ch CHR ''d'' # r, va)"
  "parse_spec (bytes_of ''u'' @ r) va = Some (0, 0, 0, ch CHR ''u'' # r, va)"
  "parse_spec (bytes_of ''zx'' @ r) va = Some (FLAGS_LONG, 0, 0, ch CHR ''x'' # r, va)"
  "parse_spec (bytes_of ''p'' @ r) va = Some (0, 0, 0, ch CHR ''p'' # r, va)"
  by (simp_all add: parse_spec_def bytes_of_def flag_of_def parse_width_def peek_def is_digit_def
      parse_precision_def parse_length_def Let_def)

lemma conv_texts:
  "conv_text F (ch CHR ''d'') flags w p (a # va) = Some (va, int_text (ch CHR ''d'') flags w p a)"
  "conv_text F (ch CHR ''u'') flags w p (a # va) = Some (va, int_text (ch CHR ''u'') flags w p a)"
  "conv_text F (ch CHR ''x'') flags w p (a # va) = Some (va, int_text (ch CHR ''x'') flags w p a)"
  "conv_text F (ch CHR ''p'') flags w p (a # va) =
     Some (va, ntoa_text a False 16 p 16 (flags OR (FLAGS_ZEROPAD OR FLAGS_UPPERCASE)))"
  by (simp_all add: conv_text_def conversion_def va_arg_def conv_int_emits emits_collect ntoa_long_emits)

lemma format_text_conv:
  assumes "parse_spec r va = Some (flags, w, p, c # r', va')" "c \<noteq> 0"
    "conv_text F c flags w p va' = Some (va'', cs)"
  shows "format_text F (ch CHR ''%'' # r) va = map_option ((@) cs) (format_text F r' va'')"
  using assms by (subst format_text_rec) (simp add: peek_def)

lemma format_text_plain:
  "c \<noteq> 0 \<Longrightarrow> c \<noteq> ch CHR ''%'' \<Longrightarrow> format_text F (c # r) va = map_option (Cons c) (format_text F r va)"
  "format_text F [] va = Some []"
  by (subst format_text_rec, simp add: peek_def)+

lemma format_conversions:
  "format_text F (bytes_of ''%zd'' @ r) (a # va) = map_option ((@) (signed_text (sint a))) (format_text F r va)"
  "format_text F (bytes_of ''%d'' @ r) (a # va) =
     map_option ((@) (signed_text (sint (ucast a :: u32)))) (format_text F r va)"
  "format_text F (bytes_of ''%u'' @ r) (a # va) =
     map_option ((@) (numeral_text 0 10 (unat (ucast a :: u32)))) (format_text F r va)"
  "format_text F (bytes_of ''%zx'' @ r) (a # va) = map_option ((@) (numeral_text 0 16 (unat a))) (format_text F r va)"
  using format_text_conv [OF spec_texts(1) [of r "a # va"] _ conv_texts(1)]
    format_text_conv [OF spec_texts(2) [of r "a # va"] _ conv_texts(1)]
    format_text_conv [OF spec_texts(3) [of r "a # va"] _ conv_texts(2)]
    format_text_conv [OF spec_texts(4) [of r "a # va"] _ conv_texts(3)]
  by (simp_all only: int_texts bytes_of_def list.map append.simps of_char_eq_iff) simp_all

lemma digit_char_upper:
  "digit_char (FLAGS_ZEROPAD OR FLAGS_UPPERCASE) d = digit_char FLAGS_UPPERCASE d"
  by (simp add: digit_char_def riscv_const)

lemma p_text: "ntoa_text a False 16 0 16 (FLAGS_ZEROPAD OR FLAGS_UPPERCASE) =
   replicate (16 - length (lsd 16 (unat a))) (ch CHR ''0'') @ numeral_text FLAGS_UPPERCASE 16 (unat a)"
proof -
  let ?f = "FLAGS_ZEROPAD OR FLAGS_UPPERCASE"
  have flags: "?f AND FLAGS_LEFT = 0" "?f AND FLAGS_ZEROPAD \<noteq> 0" "?f AND FLAGS_PRECISION = 0"
      "?f AND FLAGS_HASH = 0" "?f AND (FLAGS_PLUS OR FLAGS_SPACE) = 0" "?f AND FLAGS_PLUS = 0"
      "?f AND FLAGS_SPACE = 0" "?f AND NOT FLAGS_HASH = ?f" "FLAGS_ZEROPAD \<noteq> 0"
    by (simp_all add: riscv_const)
  have l: "length (lsd 16 (unat a)) \<le> 16"
    using lsd16_length [of a] unsigned_less [of a, where ?'a = nat] by simp
  then have "ntoa_digits 16 ?f a [] = map (\<lambda>d. digit_char ?f (of_nat d)) (lsd 16 (unat a))"
    by (subst ntoa_digits_lsd) simp_all
  then have "ntoa_digits 16 ?f a [] = rev (numeral_text FLAGS_UPPERCASE 16 (unat a))"
      "length (numeral_text FLAGS_UPPERCASE 16 (unat a)) = length (lsd 16 (unat a))"
    by (simp_all only: digit_char_upper numeral_text_def rev_map rev_rev_ident length_map length_rev)
  then have "ntoa_buffer a False 16 0 16 ?f = rev (numeral_text FLAGS_UPPERCASE 16 (unat a)) @
      replicate (16 - length (lsd 16 (unat a))) (ch CHR ''0'')"
    using l by (simp add: ntoa_buffer_def ntoa_pad_def ntoa_hash_def ntoa_sign_def pad_zeros_def
        PRINTF_NTOA_BUFFER_SIZE_def flags Let_def)
  then show ?thesis
    by (auto simp: ntoa_text_def rev_text_def ntoa_pad_def flags)
qed

lemma format_pointer:
  "format_text F (bytes_of ''%p'' @ r) (a # va) =
   map_option ((@) (replicate (16 - length (lsd 16 (unat a))) (ch CHR ''0'') @
     numeral_text FLAGS_UPPERCASE 16 (unat a))) (format_text F r va)"
  using format_text_conv [OF spec_texts(5) [of r "a # va"] _ conv_texts(4)]
  by (simp add: bytes_of_def p_text)

lemma digit_of_nat:
  assumes "d < 10"
  shows "is_digit (digit_char 0 (of_nat d))" "ucast (digit_char 0 (of_nat d) - ch CHR ''0'') = (of_nat d :: u32)"
proof -
  have "d \<in> {0,1,2,3,4,5,6,7,8,9}" using assms by auto
  then show "is_digit (digit_char 0 (of_nat d))" "ucast (digit_char 0 (of_nat d) - ch CHR ''0'') = (of_nat d :: u32)"
    by (auto simp: is_digit_def digit_char_def)
qed

lemma atoi_from_append:
  "\<forall>c\<in>set cs. is_digit c \<Longrightarrow> r = [] \<or> \<not> is_digit (hd r) \<Longrightarrow>
   atoi_from i (cs @ r) = (foldl (\<lambda>i c. i * 10 + ucast (c - ch CHR ''0'')) i cs, r)"
  by (induction cs arbitrary: i) (cases r; simp)+


lemma foldl_digits:
  "\<forall>d\<in>set ds. d < 10 \<Longrightarrow>
   foldl (\<lambda>i c. i * 10 + ucast (c - ch CHR ''0'')) (0 :: u32) (map (\<lambda>d. digit_char 0 (of_nat d)) (rev ds)) =
   of_nat (lsd_value 10 ds)"
  by (induction ds) (simp_all add: digit_of_nat [simplified])

lemma atoi_numeral:
  assumes "r = [] \<or> \<not> is_digit (hd r)"
  shows "atoi (numeral_text 0 10 n @ r) = (of_nat n, r)"
proof -
  have "\<forall>d\<in>set (lsd 10 n). d < 10" using lsd_digit [of 10] by simp
  then show ?thesis
    using assms foldl_digits [of "lsd 10 n"]
    by (simp add: atoi_def numeral_text_def atoi_from_append digit_of_nat lsd_value)
qed


text \<open>
  C29: \<open>snprintf\<close> never stores outside the first \<open>n\<close> bytes of the buffer, always ends the text
  with a NUL, keeps the bytes behind it, truncates the text to \<open>n - 1\<close> characters, and
  returns the length of the whole text.
\<close>

theorem snprintf_bounded:
  assumes "format_text F fmt va = Some cs" and "length cs < 2 ^ 64"
    and "0 < unat n" and "unat n \<le> length bs"
  shows "snprintf F (Some bs) n fmt va =
    Some (Some (take (unat n - 1) cs @ 0 # drop (min (length cs + 1) (unat n)) bs), of_nat (length cs))"
  using assms by (rule snprintf_text)

text \<open>A format environment without strings and floating point output.\<close>

definition plain_fmt :: fmt_env where
  "plain_fmt = \<lparr>str_at = (\<lambda>_. None)\<rparr>"

theorem snprintf_bounded_witness:
  "format_text plain_fmt (bytes_of ''x=%zd'') [- 42] = Some (bytes_of ''x=-42'') \<and>
   snprintf plain_fmt (Some [7, 7, 7, 7, 7, 7]) 4 (bytes_of ''x=%zd'') [- 42] =
     Some (Some [0x78, 0x3D, 0x2D, 0, 7, 7], 5)"
proof -
  have "format_text plain_fmt (bytes_of ''%zd'' @ []) [- 42] = Some (bytes_of ''-42'')"
    unfolding format_conversions
    by (simp add: format_text_plain signed_text_def numeral_text_def lsd.simps digit_char_def bytes_of_def)
  then have t: "format_text plain_fmt (bytes_of ''x=%zd'') [- 42] = Some (bytes_of ''x=-42'')"
    by (simp add: format_text_plain bytes_of_def)
  then show ?thesis
    using snprintf_bounded [OF t, of 4 "[7, 7, 7, 7, 7, 7]"] by (simp add: bytes_of_def)
qed


text \<open>
  Printing and scanning are inverse: the decimal text that \<open>%u\<close> prints is read back by
  \<open>atoi\<close> as the number, up to the first character that is no digit.
\<close>

lemma atoi_printed:
  "\<exists>cs. format_text F (bytes_of ''%u'') [a] = Some cs
     \<and> atoi (cs @ bytes_of ''.'' @ r) = (ucast a, bytes_of ''.'' @ r)"
  using format_conversions(3) [of F "[]" a "[]"]
  by (simp add: format_text_plain atoi_numeral is_digit_def bytes_of_def)

text \<open>
  C30: the conversion buffer of 32 bytes never overflows, whatever the value, base, precision,
  width and flags: after the digits, after the zero padding, after the prefix and after the
  sign at most 32 bytes are in use.
\<close>

theorem ntoa_buffer_fits:
  "let b1 = ntoa_digits base flags v [];
       b2 = fst (ntoa_pad b1 negative prec width flags);
       b3 = ntoa_hash b2 base' prec width' flags
   in length b1 \<le> PRINTF_NTOA_BUFFER_SIZE \<and> length b2 \<le> PRINTF_NTOA_BUFFER_SIZE
    \<and> length b3 \<le> PRINTF_NTOA_BUFFER_SIZE
    \<and> length (ntoa_sign b3 negative flags) \<le> PRINTF_NTOA_BUFFER_SIZE"
  by (simp add: Let_def PRINTF_NTOA_BUFFER_SIZE_def ntoa_digits_length ntoa_pad_length ntoa_hash_length
      ntoa_sign_length)

section \<open>Floating point\<close>

lemma infinities:
  "f_eq (infinity s) (infinity s)" "f_lt DBL_MAX (infinity False)" "f_lt (infinity True) (f_neg DBL_MAX)"
  "\<not> f_lt (infinity False) (f_neg DBL_MAX)"
proof -
  define x :: rat where "x = 2 powi 971"
  have x: "0 < x" "2 powi 972 = 2 * x" using power_int_add_1' [of "2 :: rat" 971] by (simp_all add: x_def del: power_int_numeral)
  have v: "f_val (infinity False) = 2 ^ 53 * x" "f_val (infinity True) = - (2 ^ 53 * x)" "f_val DBL_MAX = (2 ^ 53 - 1) * x"
    by (simp_all add: infinity_def f_val_def DBL_MAX_def f_sign_def f_expo_field_def f_man_field_def mag_val_def x
        x_def [symmetric] del: power_int_numeral)
  have n: "\<not> f_nan (infinity s)" "\<not> f_nan DBL_MAX" for s
    by (simp_all add: infinity_def DBL_MAX_def f_nan_def f_expo_field_def f_man_field_def)
  show "f_eq (infinity s) (infinity s)" "f_lt DBL_MAX (infinity False)" "f_lt (infinity True) (f_neg DBL_MAX)"
    "\<not> f_lt (infinity False) (f_neg DBL_MAX)"
    using x(1) by (simp_all add: f_eq_def f_lt_def f_neg_val n v)
qed

lemma float_specs:
  "parse_spec (bytes_of ''f'' @ r) va = Some (0, 0, 0, ch CHR ''f'' # r, va)"
  "parse_spec (bytes_of ''.1f'' @ r) va = Some (FLAGS_PRECISION, 0, 1, ch CHR ''f'' # r, va)"
  by (simp_all add: parse_spec_def bytes_of_def flag_of_def parse_width_def peek_def is_digit_def
      parse_precision_def parse_length_def Let_def atoi_def)

lemma conv_text_float:
  "conv_text F (ch CHR ''f'') flags w p (a # va) = map_option (Pair va) (ftoa_text FP_DEPTH a p w flags)"
  by (simp add: conv_text_def conversion_def va_arg_def float_emits option.map_comp comp_def emits_collect)

lemma format_float:
  assumes "ftoa_text FP_DEPTH a 0 0 0 = Some cs"
  shows "format_text F (bytes_of ''%f'') [a] = Some cs"
  using format_text_conv [OF float_specs(1) [of "[]" "[a]"] _ conv_text_float [of F 0 0 0 a "[]", unfolded assms option.map]]
  by (simp add: bytes_of_def format_text_plain(2))

text \<open>
  C33: floating point numbers in fixed notation.  \<open>%f\<close> prints a \<open>double\<close> with an integer value of
  at most \<open>10\<^sup>9\<close> as that integer with six zeros behind the point, and the values that are no
  numbers by name.
\<close>

theorem printed_floats:
  "(\<bar>n\<bar> \<le> 10 ^ 9 \<longrightarrow>
      format_text F (bytes_of ''%f'') [f_of_int n] = Some (signed_text n @ bytes_of ''.000000''))
   \<and> (f_nan v \<longrightarrow> format_text F (bytes_of ''%f'') [v] = Some (bytes_of ''nan''))
   \<and> format_text F (bytes_of ''%f'') [infinity False] = Some (bytes_of ''inf'')
   \<and> format_text F (bytes_of ''%f'') [infinity True] = Some (bytes_of ''-inf'')"
proof (intro conjI impI)
  assume n: "\<bar>n\<bar> \<le> 10 ^ 9"
  then have "\<bar>n\<bar> < 2 ^ 53" by simp
  note f = f_of_int_val [OF this]
  have "\<bar>of_int n\<bar> \<le> (of_int (10 ^ 9) :: rat)" using n by (simp only: of_int_abs [symmetric] of_int_le_iff)
  then have s: "small (f_of_int n)" using f by (simp add: small_def)
  have "fixed_text (f_of_int n) 0 0 0 = fixed_text (f_of_int n) 6 0 0"
    by (simp add: fixed_text_def fixed_buffer_def)
  moreover have "ch CHR ''.'' # replicate 6 (ch CHR ''0'') = bytes_of ''.000000''" by code_simp
  ultimately have "fixed_text (f_of_int n) 0 0 0 = Some (signed_text n @ bytes_of ''.000000'')"
    using fixed_text_int [OF s f(1), of 6 0] by simp
  then have "ftoa_text FP_DEPTH (f_of_int n) 0 0 0 = Some (signed_text n @ bytes_of ''.000000'')"
    using ftoa_text_small [OF s] by (simp only: FP_DEPTH_def eval_nat_numeral)
  then show "format_text F (bytes_of ''%f'') [f_of_int n] = Some (signed_text n @ bytes_of ''.000000'')"
    by (rule format_float)
next
  assume "f_nan v"
  then have "ftoa_text FP_DEPTH v 0 0 0 = Some (bytes_of ''nan'')"
    by (simp add: FP_DEPTH_def eval_nat_numeral f_eq_def) (simp add: rev_text_def bytes_of_def)
  then show "format_text F (bytes_of ''%f'') [v] = Some (bytes_of ''nan'')" by (rule format_float)
next
  have "ftoa_text FP_DEPTH (infinity False) 0 0 0 = Some (bytes_of ''inf'')"
    using infinities by (simp add: FP_DEPTH_def eval_nat_numeral) (simp add: rev_text_def bytes_of_def)
  then show "format_text F (bytes_of ''%f'') [infinity False] = Some (bytes_of ''inf'')" by (rule format_float)
next
  have "ftoa_text FP_DEPTH (infinity True) 0 0 0 = Some (bytes_of ''-inf'')"
    using infinities by (simp add: FP_DEPTH_def eval_nat_numeral) (simp add: rev_text_def bytes_of_def)
  then show "format_text F (bytes_of ''%f'') [infinity True] = Some (bytes_of ''-inf'')" by (rule format_float)
qed

theorem printed_floats_witness:
  "format_text plain_fmt (bytes_of ''%f'') [f_of_int (- 42)] = Some (bytes_of ''-42.000000'')
   \<and> format_text plain_fmt (bytes_of ''%f'') [NAN] = Some (bytes_of ''nan'')"
proof -
  have "signed_text (- 42) = bytes_of ''-42''"
    by (simp add: signed_text_def numeral_text_def lsd.simps bytes_of_def digit_char_def)
  moreover have "f_nan NAN" by (simp add: NAN_def f_nan_def f_expo_field_def f_man_field_def)
  ultimately show ?thesis using printed_floats [of "- 42" plain_fmt NAN] by (simp add: bytes_of_def)
qed


text \<open>
  C38: precisions in fixed notation.  For a finite value of at most \<open>10\<^sup>9\<close> in magnitude the
  conversion returns for every precision up to 41; beyond, the loop that limits the precision stops
  at the full buffer, and the table of the powers of ten is read behind its end.
\<close>

theorem ftoa_defined:
  assumes "\<not> f_nan v" and "\<not> f_inf v" and "\<bar>f_val v\<bar> \<le> 10 ^ 9"
  shows "ftoa FP_DEPTH out maxlen v prec width flags st = None \<longleftrightarrow> has flags FLAGS_PRECISION \<and> 41 < prec"
proof -
  have s: "small v" using assms by (simp add: small_def)
  have "ftoa_text FP_DEPTH v prec width flags = fixed_text v prec width flags"
    using ftoa_text_small [OF s] by (simp only: FP_DEPTH_def eval_nat_numeral)
  then show ?thesis by (simp only: float_emits map_option_is_None fixed_text_defined [OF s])
qed

theorem ftoa_defined_witness:
  "ftoa FP_DEPTH collect 0 (f_of_int 1) 50 0 FLAGS_PRECISION ([], 0) = None
   \<and> ftoa FP_DEPTH collect 0 (f_of_int 1) 41 0 FLAGS_PRECISION ([], 0) \<noteq> None"
proof -
  have "\<bar>1\<bar> < (2 :: int) ^ 53" by simp
  note f = f_of_int_val [OF this]
  have "\<bar>f_val (f_of_int 1)\<bar> \<le> 10 ^ 9" using f(1) by simp
  note d = ftoa_defined [OF f(2,3) this, of collect 0 _ 0 FLAGS_PRECISION "([], 0)"]
  show ?thesis unfolding d by (simp add: riscv_const)
qed

end
