(* ===== verification/Isa.thy ===== *)
theory Isa
  imports Priv
begin

text \<open>
  The architecture the guest is promised, and the refinement to it.

  An abstract hart (\<open>isa\<close>) has a \<open>pc\<close>, 31 registers, the nine supervisor CSRs and a
  privilege mode; \<open>isa_exec\<close> and \<open>isa_trap\<close> give the RISC-V meaning of the CSR
  instructions, \<open>sfence.vma\<close>, \<open>wfi\<close>, \<open>sret\<close> and of taking a trap.  \<open>encode\<close> is
  the assembler.  \<open>abs_isa\<close> reads the abstract hart off the stub's state, and the lemmas
  show that \<open>handle_priv_instr\<close> and \<open>enter_trap\<close> of \<^verbatim>\<open>riscv-priv.c\<close>
  compute the abstract step.
\<close>

section \<open>The architecture seen by the guest\<close>

datatype csr_name = Sstatus | Sie | Stvec | Sscratch | Sepc | Scause | Stval | Sip | Satp

datatype mode = U_mode | S_mode

record isa =
  pc :: u64
  xregs :: "5 word \<Rightarrow> u64"
  csrs :: "csr_name \<Rightarrow> u64"
  mode :: mode

definition merge_bits :: "nat list \<Rightarrow> u64 \<Rightarrow> u64 \<Rightarrow> u64" where
  "merge_bits ns old new = fold (\<lambda>n. put_bit n (bit new n)) ns old"

fun legalize :: "csr_name \<Rightarrow> u64 \<Rightarrow> u64 \<Rightarrow> u64" where
  "legalize Sstatus old v = merge_bits [1, 5, 8, 18, 19] old v"
| "legalize Sie old v = merge_bits [5] old v"
| "legalize Sip old v = merge_bits [5] old v"
| "legalize Stvec old v = (if v mod 4 < 2 then v else v - v mod 4)"
| "legalize Satp old v =
     (if v div 2 ^ 60 = 0 \<or> v div 2 ^ 60 = 8 then v div 2 ^ 60 * 2 ^ 60 + v mod 2 ^ 44 else old)"
| "legalize _ old v = v"

datatype csr_op = RW | RS | RC

datatype csr_src = Xreg "5 word" | Uimm "5 word"

datatype sys_instr =
    Csr csr_op csr_src csr_name "5 word"
  | Sfence_vma "5 word" "5 word"
  | Wfi
  | Sret

definition set_xreg :: "5 word \<Rightarrow> u64 \<Rightarrow> isa \<Rightarrow> isa" where
  "set_xreg r v i = (if r = 0 then i else i\<lparr>xregs := (xregs i)(r := v)\<rparr>)"

fun src_value :: "csr_src \<Rightarrow> isa \<Rightarrow> u64" where
  "src_value (Xreg r) i = xregs i r"
| "src_value (Uimm u) i = ucast u"

fun src_is_zero :: "csr_src \<Rightarrow> bool" where
  "src_is_zero (Xreg r) = (r = 0)"
| "src_is_zero (Uimm u) = (u = 0)"

fun csr_new :: "csr_op \<Rightarrow> u64 \<Rightarrow> u64 \<Rightarrow> u64" where
  "csr_new RW old v = v"
| "csr_new RS old v = old OR v"
| "csr_new RC old v = old AND NOT v"

fun isa_exec :: "sys_instr \<Rightarrow> isa \<Rightarrow> isa" where
  "isa_exec (Csr op src c rd) i =
     (let old = csrs i c;
          i' = (if op \<noteq> RW \<and> src_is_zero src then i
                else i\<lparr>csrs := (csrs i)(c := legalize c old (csr_new op old (src_value src i)))\<rparr>)
      in (set_xreg rd old i')\<lparr>pc := pc i + 4\<rparr>)"
| "isa_exec (Sfence_vma rs1 rs2) i = i\<lparr>pc := pc i + 4\<rparr>"
| "isa_exec Wfi i = i\<lparr>pc := pc i + 4\<rparr>"
| "isa_exec Sret i =
     (let st = csrs i Sstatus
      in i\<lparr>pc := csrs i Sepc,
           csrs := (csrs i)(Sstatus := put_bit 8 False (put_bit 5 True (put_bit 1 (bit st 5) st))),
           mode := (if bit st 8 then S_mode else U_mode)\<rparr>)"

definition isa_trap :: "u64 \<Rightarrow> u64 \<Rightarrow> isa \<Rightarrow> isa" where
  "isa_trap cause tval i =
     (let st = csrs i Sstatus; tv = csrs i Stvec
      in i\<lparr>pc := (if tv mod 4 = 1 \<and> bit cause 63 then tv - tv mod 4 + 4 * (cause mod 2 ^ 63)
                  else tv - tv mod 4),
           csrs := (csrs i)(Sepc := pc i, Scause := cause, Stval := tval,
             Sstatus := put_bit 1 False (put_bit 5 (bit st 1) (put_bit 8 (mode i = S_mode) st))),
           mode := S_mode\<rparr>)"

fun csr_num :: "csr_name \<Rightarrow> 12 word" where
  "csr_num Sstatus = 0x100"
| "csr_num Sie = 0x104"
| "csr_num Stvec = 0x105"
| "csr_num Sscratch = 0x140"
| "csr_num Sepc = 0x141"
| "csr_num Scause = 0x142"
| "csr_num Stval = 0x143"
| "csr_num Sip = 0x144"
| "csr_num Satp = 0x180"

fun op_code :: "csr_op \<Rightarrow> u32" where
  "op_code RW = 1" | "op_code RS = 2" | "op_code RC = 3"

definition enc :: "u32 \<Rightarrow> u32 \<Rightarrow> u32 \<Rightarrow> u32 \<Rightarrow> u32 \<Rightarrow> u32" where
  "enc imm12 rs1 funct3 rd opcode =
     push_bit 20 imm12 OR push_bit 15 rs1 OR push_bit 12 funct3 OR push_bit 7 rd OR opcode"

fun encode :: "sys_instr \<Rightarrow> u32" where
  "encode (Csr op (Xreg r) c rd) = enc (ucast (csr_num c)) (ucast r) (op_code op) (ucast rd) 0x73"
| "encode (Csr op (Uimm u) c rd) =
     enc (ucast (csr_num c)) (ucast u) (op_code op OR 4) (ucast rd) 0x73"
| "encode (Sfence_vma rs1 rs2) = enc (push_bit 5 0x09 OR ucast rs2) (ucast rs1) 0 0 0x73"
| "encode Wfi = 0x10500073"
| "encode Sret = 0x10200073"

text \<open>abstraction\<close>

fun csr_get :: "csr_name \<Rightarrow> priv_state \<Rightarrow> u64" where
  "csr_get Sstatus p = sstatus p"
| "csr_get Sie p = sie p"
| "csr_get Stvec p = stvec p"
| "csr_get Sscratch p = sscratch p"
| "csr_get Sepc p = sepc p"
| "csr_get Scause p = scause p"
| "csr_get Stval p = stval p"
| "csr_get Sip p = sip p"
| "csr_get Satp p = satp p"

definition abs_isa :: "machine \<Rightarrow> isa" where
  "abs_isa s = \<lparr>pc = gregs s 0,
     xregs = (\<lambda>r. if r = 0 then 0 else gregs s (unat r)),
     csrs = (\<lambda>c. csr_get c (priv s)),
     mode = (if priv_mode (priv s) = PRIV_S then S_mode else U_mode)\<rparr>"

fun csr_put :: "csr_name \<Rightarrow> u64 \<Rightarrow> priv_state \<Rightarrow> priv_state" where
  "csr_put Sstatus v p = p\<lparr>sstatus := v\<rparr>"
| "csr_put Sie v p = p\<lparr>sie := v\<rparr>"
| "csr_put Stvec v p = p\<lparr>stvec := v\<rparr>"
| "csr_put Sscratch v p = p\<lparr>sscratch := v\<rparr>"
| "csr_put Sepc v p = p\<lparr>sepc := v\<rparr>"
| "csr_put Scause v p = p\<lparr>scause := v\<rparr>"
| "csr_put Stval v p = p\<lparr>stval := v\<rparr>"
| "csr_put Sip v p = p\<lparr>sip := v\<rparr>"
| "csr_put Satp v p = p\<lparr>satp := v\<rparr>"

definition satp_accepts :: "u64 \<Rightarrow> bool" where
  "satp_accepts v \<longleftrightarrow> v div 2 ^ 60 = 0 \<or> v div 2 ^ 60 = 8"

definition csr_writes :: "csr_op \<Rightarrow> csr_src \<Rightarrow> bool" where
  "csr_writes op src \<longleftrightarrow> op = RW \<or> \<not> src_is_zero src"

definition csr_priv :: "csr_op \<Rightarrow> csr_src \<Rightarrow> csr_name \<Rightarrow> machine \<Rightarrow> priv_state" where
  "csr_priv op src c s =
     (let old = csr_get c (priv s); v = csr_new op old (src_value src (abs_isa s))
      in if csr_writes op src
         then (csr_put c (legalize c old v) (priv s))
           \<lparr>should_clear_vm := should_clear_vm (priv s) \<or> (c = Satp \<and> satp_accepts v)\<rparr>
         else priv s)"

fun src_bits :: "csr_src \<Rightarrow> 5 word" where
  "src_bits (Xreg r) = r" | "src_bits (Uimm u) = u"

fun src_imm :: "csr_src \<Rightarrow> bool" where
  "src_imm (Xreg r) = False" | "src_imm (Uimm u) = True"

fun flushes :: "sys_instr \<Rightarrow> isa \<Rightarrow> bool" where
  "flushes (Csr op src c rd) i = (c = Satp \<and> csr_writes op src \<and>
     satp_accepts (csr_new op (csrs i Satp) (src_value src i)))"
| "flushes (Sfence_vma rs1 rs2) i = True"
| "flushes Wfi i = False"
| "flushes Sret i = (\<not> bit (csrs i Sstatus) 8)"

section \<open>Decoding and refinement\<close>

lemma enc_fields:
  assumes "imm < 2 ^ 12" "rs1 < 2 ^ 5" "f3 < 2 ^ 3" "rd < 2 ^ 5" "opc < 2 ^ 7"
  shows "ins_opcode (enc imm rs1 f3 rd opc) = opc" "ins_rd (enc imm rs1 f3 rd opc) = rd"
    "ins_funct3 (enc imm rs1 f3 rd opc) = f3" "ins_rs1 (enc imm rs1 f3 rd opc) = rs1"
    "ins_csr (enc imm rs1 f3 rd opc) = imm"
    "ins_funct7 (enc imm rs1 f3 rd opc) = drop_bit 5 imm"
    "ins_rs2 (enc imm rs1 f3 rd opc) = take_bit 5 imm"
proof -
  have z: "bit imm n \<Longrightarrow> n < 12" "bit rs1 n \<Longrightarrow> n < 5" "bit f3 n \<Longrightarrow> n < 3"
    "bit rd n \<Longrightarrow> n < 5" "bit opc n \<Longrightarrow> n < 7" for n
    using assms less_exp_bit_False [of imm 12 n] less_exp_bit_False [of rs1 5 n]
      less_exp_bit_False [of f3 3 n] less_exp_bit_False [of rd 5 n] less_exp_bit_False [of opc 7 n]
    by (force simp: not_less)+
  note enc_bits = field_defs bit_ins_bitfield enc_def bit_or_iff bit_push_bit_iff bit_drop_bit_eq
    bit_take_bit_iff
  show "ins_opcode (enc imm rs1 f3 rd opc) = opc"
    by (rule bit_word_eqI) (auto simp: enc_bits dest: z)
  show "ins_rd (enc imm rs1 f3 rd opc) = rd"
    by (rule bit_word_eqI) (auto simp: enc_bits dest: z)
  show "ins_funct3 (enc imm rs1 f3 rd opc) = f3"
    by (rule bit_word_eqI) (auto simp: enc_bits dest: z)
  show "ins_rs1 (enc imm rs1 f3 rd opc) = rs1"
    by (rule bit_word_eqI) (auto simp: enc_bits dest: z)
  show "ins_csr (enc imm rs1 f3 rd opc) = imm"
    by (rule bit_word_eqI) (auto simp: enc_bits dest: z)
  show "ins_funct7 (enc imm rs1 f3 rd opc) = drop_bit 5 imm"
    by (rule bit_word_eqI) (auto simp: enc_bits dest: z)
  show "ins_rs2 (enc imm rs1 f3 rd opc) = take_bit 5 imm"
    by (rule bit_word_eqI) (auto simp: enc_bits dest: z)
qed

lemma sanitize_stvec_legal: "sanitize_stvec v = legalize Stvec old v"
proof -
  have "v mod 4 = 0 \<or> v mod 4 = 1 \<longleftrightarrow> v mod 4 < 2"
    by unat_arith
  then show ?thesis
    by (simp add: sanitize_stvec_def riscv_const low_two_bits)
qed

lemma bit_merge_bits:
  "bit (merge_bits ns old new) n \<longleftrightarrow> (if n \<in> set ns then bit new n else bit old n)"
  by (induction ns arbitrary: old)
    (auto simp: merge_bits_def bit_put_bit dest: bit_imp_le_length)

lemma merge_writable:
  "(v AND SSTATUS_WRITABLE_MASK) OR (old AND NOT SSTATUS_WRITABLE_MASK) = legalize Sstatus old v"
  "(v AND SIX_WRITABLE_MASK) OR (old AND NOT SIX_WRITABLE_MASK) = legalize Sie old v"
  "(v AND SIX_WRITABLE_MASK) OR (old AND NOT SIX_WRITABLE_MASK) = legalize Sip old v"
  by (rule bit_word_eqI, auto simp: bit_and_iff bit_or_iff bit_not_iff writable_mask_bits bit_merge_bits)+

lemma satp_mode_div: "get_satp_mode v = v div 2 ^ 60"
proof -
  have "get_satp_mode v = drop_bit 60 v"
    by (rule bit_word_eqI) (auto simp: field_defs bit_bf_get bit_drop_bit_eq dest: bit_imp_le_length)
  then show ?thesis by (simp add: drop_bit_eq_div)
qed

lemma satp_asid_cleared: "set_satp_asid v 0 = v div 2 ^ 60 * 2 ^ 60 + v mod 2 ^ 44"
proof -
  have "set_satp_asid v 0 = push_bit 60 (drop_bit 60 v) OR take_bit 44 v"
    by (rule bit_word_eqI) (auto simp: field_defs bit_bf_set bit_simps)
  also have "\<dots> = push_bit 60 (drop_bit 60 v) + take_bit 44 v"
    by (rule disjunctive_add_eq_or [symmetric]) (auto simp: bit_eq_iff bit_simps)
  finally show ?thesis
    by (simp add: push_bit_eq_mult drop_bit_eq_div take_bit_eq_mod)
qed

lemma read_csr_num: "read_csr E (ucast (csr_num c)) s = Ok (csr_get c (priv s)) s"
  by (cases c) (simp_all add: read_csr_def riscv_const)

lemma csr_get_put [simp]: "csr_get d (csr_put c v p) = (if d = c then v else csr_get d p)"
  by (cases c; cases d) simp_all

lemma write_csr_num:
  "write_csr E (ucast (csr_num c)) v s =
     Ok () (s\<lparr>priv := (csr_put c (legalize c (csr_get c (priv s)) v) (priv s))
       \<lparr>should_clear_vm := should_clear_vm (priv s) \<or> (c = Satp \<and> satp_accepts v)\<rparr>\<rparr>)"
proof (cases c)
  case Satp
  then show ?thesis
    by (simp add: write_csr_def riscv_const satp_mode_div satp_asid_cleared satp_accepts_def)
qed (simp_all add: write_csr_def merge_writable [symmetric] sanitize_stvec_legal riscv_const 
   del: legalize.simps(1-5))

lemma unat_ucast_5 [simp]: "unat (ucast (r :: 5 word) :: u32) = unat r"
  using unsigned_less [of r, where ?'a = nat] by (simp add: unsigned_ucast_eq take_bit_nat_eq_self)

lemma ucast_ucast_5 [simp]: "(ucast (ucast (r :: 5 word) :: u32) :: u64) = ucast r"
  by (rule bit_word_eqI) (auto simp: bit_simps dest: bit_imp_le_length)

lemma ucast_bounds:
  "(ucast (r :: 5 word) :: u32) < 2 ^ 5" "(ucast (c :: 12 word) :: u32) < 2 ^ 12"
  using unsigned_less [of r, where ?'a = nat] unsigned_less [of c, where ?'a = nat]
  by (simp_all add: word_less_nat_alt unsigned_ucast_eq take_bit_nat_eq_self)

lemma ucast5_eq_0 [simp]: "(ucast (r :: 5 word) :: u32) = 0 \<longleftrightarrow> r = 0" "(ucast r :: u64) = 0 \<longleftrightarrow> r = 0"
  using unsigned_less [of r, where ?'a = nat]
  by (simp_all add: word_unat_eq_iff unsigned_ucast_eq take_bit_nat_eq_self)

lemma op_code_fields:
  "op_code op < 2 ^ 3" "op_code op OR 4 < 2 ^ 3"
  "op_code op AND 3 = op_code op" "(op_code op OR 4) AND 3 = op_code op"
  "op_code op AND 4 = 0" "(op_code op OR 4) AND 4 = 4"
  "op_code op \<noteq> 0" "op_code op OR 4 \<noteq> 0"
  by (cases op; simp)+

lemma encode_csr_fields:
  "ins_opcode (encode (Csr op src c rd)) = 0x73"
  "ins_rd (encode (Csr op src c rd)) = ucast rd"
  "ins_funct3 (encode (Csr op src c rd)) = (if src_imm src then op_code op OR 4 else op_code op)"
  "ins_rs1 (encode (Csr op src c rd)) = ucast (src_bits src)"
  "ins_csr (encode (Csr op src c rd)) = ucast (csr_num c)"
  by (cases src; simp; intro enc_fields ucast_bounds op_code_fields; simp)+

lemma src_value_bits: "src_value src (abs_isa s) =
  (if src_imm src then ucast (src_bits src)
   else if src_bits src = 0 then 0 else gregs s (unat (src_bits src)))"
  "src_is_zero src \<longleftrightarrow> src_bits src = 0"
  by (cases src; simp add: abs_isa_def)+

lemma handle_csr_effect:
  "handle_priv_instr E (encode (Csr op src c rd)) s =
     Ok () (s\<lparr>priv := csr_priv op src c s,
       gregs := (if rd = 0 then gregs s else (gregs s)(unat rd := csr_get c (priv s)))
         (0 := gregs s 0 + 4)\<rparr>)"
proof -
  have f3: "ins_funct3 (encode (Csr op src c rd)) \<noteq> FUNCT3_NOT_CSR"
    "ins_funct3 (encode (Csr op src c rd)) AND CSR_OP_MASK = op_code op"
    "ins_funct3 (encode (Csr op src c rd)) AND CSR_USE_UIMM \<noteq> 0 \<longleftrightarrow> src_imm src"
    by (simp_all add: encode_csr_fields op_code_fields riscv_const)
  have rd0: "unat (ins_rd (encode (Csr op src c rd))) = unat rd" "unat rd = 0 \<longleftrightarrow> rd = 0"
      "0 < unat rd \<longleftrightarrow> rd \<noteq> 0"
    by (simp_all add: encode_csr_fields unat_eq_0 unat_gt_0)
  show ?thesis
    unfolding handle_priv_instr_def handle_csr_def Let_def
    by (cases op; cases "src_bits src = 0"; cases "rd = 0")
      (simp_all add: f3 encode_csr_fields read_csr_num write_csr_num csr_priv_def csr_writes_def
        src_value_bits riscv_const rd0 Let_def del: encode.simps legalize.simps csr_put.simps)
qed

lemma abs_isa_simps [simp]:
  "pc (abs_isa s) = gregs s 0" "csrs (abs_isa s) c = csr_get c (priv s)"
  "xregs (abs_isa s) r = (if r = 0 then 0 else gregs s (unat r))"
  "mode (abs_isa s) = S_mode \<longleftrightarrow> priv_mode (priv s) = PRIV_S"
  by (simp_all add: abs_isa_def)

lemma csr_get_frame [simp]:
  "csr_get c (p\<lparr>should_clear_vm := b\<rparr>) = csr_get c p"
  "csr_get c (p\<lparr>priv_mode := m\<rparr>) = csr_get c p"
  "csr_get c (p\<lparr>counter_sret := n\<rparr>) = csr_get c p"
  by (cases c; simp)+

lemma csr_put_frame [simp]: "priv_mode (csr_put c v p) = priv_mode p"
  by (cases c) simp_all

lemma handle_csr_refines:
  assumes "handle_priv_instr E (encode (Csr op src c rd)) s = Ok () s'"
  shows "abs_isa s' = isa_exec (Csr op src c rd) (abs_isa s)"
proof -
  have u: "unat r = 0 \<longleftrightarrow> r = 0" for r :: "5 word" by (simp add: unat_eq_0)
  have s': "s' = s\<lparr>priv := csr_priv op src c s,
       gregs := (if rd = 0 then gregs s else (gregs s)(unat rd := csr_get c (priv s)))
         (0 := gregs s 0 + 4)\<rparr>"
    using assms by (simp add: handle_csr_effect del: encode.simps)
  have "csrs (abs_isa s') = csrs (isa_exec (Csr op src c rd) (abs_isa s))"
    by (rule ext) (simp add: s' csr_priv_def csr_writes_def Let_def set_xreg_def)
  moreover have "xregs (abs_isa s') = xregs (isa_exec (Csr op src c rd) (abs_isa s))"
    by (rule ext) (auto simp: s' set_xreg_def Let_def u simp flip: word_unat_eq_iff)
  moreover have "mode (abs_isa s') = mode (isa_exec (Csr op src c rd) (abs_isa s))"
    by (simp add: s' set_xreg_def Let_def abs_isa_def csr_priv_def)
  moreover have "pc (abs_isa s') = pc (isa_exec (Csr op src c rd) (abs_isa s))"
    by (simp add: s' set_xreg_def Let_def)
  ultimately show ?thesis by simp
qed

lemma funct7_rs2:
  assumes "f < 2 ^ 7"
  shows "push_bit 5 f OR (ucast (r :: 5 word) :: u32) < 2 ^ 12"
    "drop_bit 5 (push_bit 5 f OR (ucast r :: u32)) = f"
proof -
  have f: "bit f n \<Longrightarrow> n < 7" for n
    using less_exp_bit_False [of f 7 n] assms by (force simp: not_less)
  have r: "bit r n \<Longrightarrow> n < 5" for n by (auto dest: bit_imp_le_length)
  show "push_bit 5 f OR (ucast r :: u32) < 2 ^ 12"
    by (rule less_expI) (auto simp: bit_simps dest: f r)
  show "drop_bit 5 (push_bit 5 f OR (ucast r :: u32)) = f"
    by (rule bit_word_eqI) (auto simp: bit_simps dest: f r)
qed

lemma encode_sfence_fields:
  "ins_opcode (encode (Sfence_vma rs1 rs2)) = 0x73" "ins_funct3 (encode (Sfence_vma rs1 rs2)) = 0"
  "ins_rd (encode (Sfence_vma rs1 rs2)) = 0" "ins_funct7 (encode (Sfence_vma rs1 rs2)) = 0x09"
proof -
  have nine: "(9 :: u32) < 2 ^ 7" by simp
  note f = enc_fields [OF funct7_rs2(1) [OF nine, of rs2] ucast_bounds(1) [of rs1], of 0 0 "0x73"]
  show "ins_opcode (encode (Sfence_vma rs1 rs2)) = 0x73" "ins_funct3 (encode (Sfence_vma rs1 rs2)) = 0"
    "ins_rd (encode (Sfence_vma rs1 rs2)) = 0" "ins_funct7 (encode (Sfence_vma rs1 rs2)) = 0x09"
    using f funct7_rs2(2) [OF nine, of rs2] by simp_all
qed

lemma sret_priv_csrs:
  "csr_get c (sret_priv p) =
    (if c = Sstatus then put_bit 8 False (put_bit 5 True (put_bit 1 (bit (sstatus p) 5) (sstatus p)))
     else csr_get c p)"
  "priv_mode (sret_priv p) = (if bit (sstatus p) 8 then PRIV_S else PRIV_U)"
  "should_clear_vm (sret_priv p) = (should_clear_vm p \<or> \<not> bit (sstatus p) 8)"
  by (cases c; simp add: sret_priv_def Let_def status_simps riscv_const)+

lemma handle_sret_effect:
  "handle_priv_instr E (encode Sret) s =
    Ok () (s\<lparr>priv := sret_priv (priv s), gregs := (gregs s)(0 := sepc (priv s))\<rparr>)"
  using sret_priv_csrs(1) [of Sepc "priv s"]
  by (simp add: handle_priv_instr_def handle_not_csr_def field_defs ins_bitfield_def riscv_const)

lemma handle_wfi_effect:
  "handle_priv_instr E (encode Wfi) s = Ok () (s\<lparr>gregs := (gregs s)(0 := gregs s 0 + 4)\<rparr>)"
  by (simp add: handle_priv_instr_def handle_not_csr_def field_defs ins_bitfield_def riscv_const)

lemma handle_sfence_effect:
  "handle_priv_instr E (encode (Sfence_vma rs1 rs2)) s =
    Ok () (s\<lparr>priv := (priv s)\<lparr>should_clear_vm := True\<rparr>, gregs := (gregs s)(0 := gregs s 0 + 4)\<rparr>)"
  by (simp add: handle_priv_instr_def handle_not_csr_def encode_sfence_fields riscv_const del: encode.simps)

lemma trap_priv_csrs:
  "csr_get c (trap_priv pc0 cause tval p) =
    ((\<lambda>c. csr_get c p)(Sepc := pc0, Scause := cause, Stval := tval,
      Sstatus := put_bit 1 False (put_bit 5 (bit (sstatus p) 1) (put_bit 8 (priv_mode p = PRIV_S) (sstatus p))))) c"
  "priv_mode (trap_priv pc0 cause tval p) = PRIV_S"
  by (cases c; simp add: trap_priv_def Let_def status_simps riscv_const)+

lemma trap_target_spec:
  assumes "stvec p mod 4 < 2"
  shows "trap_target p cause =
    (if stvec p mod 4 = 1 \<and> bit cause 63 then stvec p - stvec p mod 4 + 4 * (cause mod 2 ^ 63)
     else stvec p - stvec p mod 4)"
proof -
  have "cause AND SCAUSE_IS_INT = 0 \<longleftrightarrow> \<not> bit cause 63"
    using and_exp_eq_0_iff_not_bit [of cause 63] by (simp add: SCAUSE_IS_INT_def)
  moreover have "cause * 4 = 4 * (cause mod 2 ^ 63)"
  proof -
    have "push_bit 2 cause = push_bit 2 (take_bit 63 cause)"
      by (rule bit_word_eqI) (auto simp: bit_simps)
    then show ?thesis by (simp add: push_bit_eq_mult take_bit_eq_mod mult.commute)
  qed
  moreover have "stvec p mod 4 = 0 \<longleftrightarrow> stvec p mod 4 \<noteq> 1" using assms by unat_arith
  ultimately show ?thesis
  by (simp add: trap_target_def Let_def riscv_const low_two_bits)
qed

lemma enter_trap_apply:
  "enter_trap cause tval s = Ok () (s\<lparr>
     priv := (trap_priv (gregs s 0) cause tval (priv s))\<lparr>should_clear_vm := True\<rparr>,
     gregs := (gregs s)(0 := trap_target (priv s) cause)\<rparr>)"
  using trap_priv_csrs(1) [of Stvec "gregs s 0" cause tval "priv s"]
  by (simp add: enter_trap_def trap_target_def)

lemma priv_inv_stvec: "priv_inv p \<Longrightarrow> stvec p mod 4 < 2"
proof -
  assume "priv_inv p"
  then have "stvec p AND 3 = 0 \<or> stvec p AND 3 = 1"
    by (simp add: priv_inv_def STVEC_MODE_MASK_def STVEC_DIRECT_def STVEC_VECTORED_def)
  then have "stvec p mod 4 = 0 \<or> stvec p mod 4 = 1"
    by (simp only: low_two_bits)
  then show "stvec p mod 4 < 2" by unat_arith
qed

lemma enter_trap_isa:
  assumes "priv_inv (priv s)"
  shows "\<exists>s'. enter_trap cause tval s = Ok () s' \<and> abs_isa s' = isa_trap cause tval (abs_isa s)
    \<and> should_clear_vm (priv s') \<and> trace s' = trace s"
proof -
  have "abs_isa (s\<lparr>priv := (trap_priv (gregs s 0) cause tval (priv s))\<lparr>should_clear_vm := True\<rparr>,
     gregs := (gregs s)(0 := trap_target (priv s) cause)\<rparr>) = isa_trap cause tval (abs_isa s)"
    by (simp add: abs_isa_def isa_trap_def Let_def trap_priv_csrs fun_eq_iff unat_eq_0
        trap_target_spec [OF priv_inv_stvec [OF assms]])
  then show ?thesis by (simp add: enter_trap_apply)
qed

lemma handle_priv_instr_isa:
  "\<exists>s'. handle_priv_instr E (encode i) s = Ok () s' \<and> abs_isa s' = isa_exec i (abs_isa s)
     \<and> should_clear_vm (priv s') = (should_clear_vm (priv s) \<or> flushes i (abs_isa s))
     \<and> trace s' = trace s"
proof (cases i)
  case (Csr op src c rd)
  obtain s' where s': "handle_priv_instr E (encode i) s = Ok () s'"
    unfolding Csr handle_csr_effect by blast
  moreover have "abs_isa s' = isa_exec i (abs_isa s)"
    using s' unfolding Csr by (rule handle_csr_refines)
  moreover have "should_clear_vm (priv s') = (should_clear_vm (priv s) \<or> flushes i (abs_isa s))
     \<and> trace s' = trace s"
    using s' by (cases "csr_writes op src"; cases "c = Satp")
      (auto simp: Csr handle_csr_effect csr_priv_def Let_def simp del: encode.simps)
  ultimately show ?thesis by blast
next
  case (Sfence_vma rs1 rs2)
  then show ?thesis
    by (simp add: handle_sfence_effect abs_isa_def fun_eq_iff unat_eq_0 del: encode.simps)
next
  case Wfi
  then show ?thesis
    by (simp add: handle_wfi_effect abs_isa_def fun_eq_iff unat_eq_0 del: encode.simps)
next
  case Sret
  then show ?thesis
    by (simp add: handle_sret_effect abs_isa_def fun_eq_iff unat_eq_0 sret_priv_csrs Let_def
        riscv_const del: encode.simps)
qed

section \<open>Properties\<close>


text \<open>
  C7: \<open>sret\<close> undoes a trap.  After a trap from supervisor or user mode, emulating \<open>sret\<close>
  brings back the interrupted \<open>pc\<close>, all registers, the privilege mode and the interrupt
  enable bit.
\<close>

theorem trap_sret_roundtrip:
  assumes "priv_inv (priv s)"
  shows "\<exists>s1 s2. enter_trap cause tval s = Ok () s1 \<and> handle_priv_instr E (encode Sret) s1 = Ok () s2
    \<and> gregs s2 = gregs s \<and> priv_mode (priv s2) = priv_mode (priv s)
    \<and> get_sstatus_sie (sstatus (priv s2)) = get_sstatus_sie (sstatus (priv s))"
proof -
  have "priv_mode (priv s) = PRIV_U \<or> priv_mode (priv s) = PRIV_S"
    using assms by (simp add: priv_inv_def)
  moreover have "PRIV_U \<noteq> PRIV_S" by (simp add: riscv_const)
  ultimately show ?thesis
    using trap_priv_csrs(1) [of Sstatus "gregs s 0" cause tval "priv s"]
      trap_priv_csrs(1) [of Sepc "gregs s 0" cause tval "priv s"]
      sret_priv_csrs(1) [of Sstatus "trap_priv (gregs s 0) cause tval (priv s)\<lparr>should_clear_vm := True\<rparr>"]
    by (auto simp: enter_trap_apply handle_sret_effect sret_priv_csrs(2) status_simps
        simp del: encode.simps)
qed

theorem trap_sret_roundtrip_witness:
  "priv_inv (priv sample_machine) \<and> (\<exists>s1 s2. enter_trap 8 0 sample_machine = Ok () s1
    \<and> handle_priv_instr idle_env (encode Sret) s1 = Ok () s2
    \<and> gregs s2 = gregs sample_machine \<and> priv_mode (priv s2) = priv_mode (priv sample_machine)
    \<and> get_sstatus_sie (sstatus (priv s2)) = get_sstatus_sie (sstatus (priv sample_machine)))"
  using sample_inv trap_sret_roundtrip [OF sample_inv] by blast

end
