(* ===== verification/Page_Fault.thy ===== *)
theory Page_Fault
  imports Page_Table Printf Isa
begin

text \<open>
  Page faults of the guest: the rest of \<^verbatim>\<open>src/src/urvirt-stub/riscv-priv.c\<close> (lines 301 to
  439) with the registers of the block device, \<^verbatim>\<open>src/src/urvirt-stub/urvirt-block.h\<close>.

  A fault either installs the page that the guest's tables give for the address, or drives the
  block device, or becomes a page fault of the guest.  The theorems state each case against
  the Sv39 translation of \<open>Page_Table\<close>.
\<close>

section \<open>Definitions\<close>

definition URVIRT_BLOCK :: u64 where [riscv_const]: "URVIRT_BLOCK = 0x10400000"
definition URVIRT_BLOCK_COMMAND :: u64 where [riscv_const]: "URVIRT_BLOCK_COMMAND = 0"
definition URVIRT_BLOCK_BLOCK_ID :: u64 where [riscv_const]: "URVIRT_BLOCK_BLOCK_ID = 8"
definition URVIRT_BLOCK_BUF :: u64 where [riscv_const]: "URVIRT_BLOCK_BUF = 16"
definition URVIRT_BLOCK_CMD_READ :: u64 where [riscv_const]: "URVIRT_BLOCK_CMD_READ = 1"
definition URVIRT_BLOCK_CMD_WRITE :: u64 where [riscv_const]: "URVIRT_BLOCK_CMD_WRITE = 2"
definition URVIRT_BLOCK_SIZE :: u64 where [riscv_const]: "URVIRT_BLOCK_SIZE = 512"

text \<open>
  \<^verbatim>\<open>(*pc) & 0b11 == 0b11\<close>: in C the comparison binds tighter than the conjunction, so
  this is the test of the lowest bit.
\<close>

definition looks_32bit :: "u8 \<Rightarrow> bool" where
  "looks_32bit b \<longleftrightarrow> b AND (of_bool ((0b11 :: nat) = 0b11)) \<noteq> 0"

text \<open>
  The register number of the data of a doubleword store, \<open>-1\<close> for another instruction.  On a
  32-bit instruction other than a store the C function ends without a \<open>return\<close>.
\<close>

definition decode_sd :: "env \<Rightarrow> u64 \<Rightarrow> (machine, int) prog" where
  "decode_sd E ip =
     andthen (load E read8 ip) (\<lambda>b.
     if looks_32bit b then
       andthen (load E read32 ip) (\<lambda>instr.
       if ins_opcode instr = OPCODE_STORE then
         (if ins_funct3 instr = 0b011 then ret (uint (ins_rs2 instr)) else ret (- 1))
       else halt Undefined)
     else
       andthen (load E read16 ip) (\<lambda>instr.
       let op = instr AND 0b11; funct3 = drop_bit 13 instr
       in if op = 0b00 \<and> funct3 = 0b111 then ret (uint ((drop_bit 2 instr AND 0b111) OR 8))
          else if op = 0b10 \<and> funct3 = 0b011 then ret (uint (drop_bit 2 instr AND 0b11111))
          else ret (- 1)))"

definition get_store_data :: "env \<Rightarrow> (machine, u64 option) prog" where
  "get_store_data E =
     andthen (gets (\<lambda>s. gregs s 0)) (\<lambda>pc.
     andthen (decode_sd E pc) (\<lambda>rs2.
     if 0 \<le> rs2 then gets (\<lambda>s. Some (gregs s (nat rs2))) else ret None))"

text \<open>The formats of the stub have neither strings nor floating point conversions.\<close>

definition print :: "env \<Rightarrow> string \<Rightarrow> u64 list \<Rightarrow> (machine, unit) prog" where
  "print E fmt va = andthen (printf E plain_fmt (bytes_of fmt) va) (\<lambda>_. skip)"

definition denied :: "u64 \<Rightarrow> u64 \<Rightarrow> bool" where
  "denied cause pte \<longleftrightarrow>
     (cause = SCAUSE_INSTR_PF \<and> get_pte_flags pte AND PTE_X = 0)
     \<or> (cause = SCAUSE_LOAD_PF \<and> get_pte_flags pte AND PTE_R = 0)
     \<or> (cause = SCAUSE_STORE_PF \<and> get_pte_flags pte AND PTE_W = 0)"

definition pte_prot :: "u64 \<Rightarrow> u32" where
  "pte_prot pte =
     (let flags = 0;
          flags = (if get_pte_flags pte AND PTE_R \<noteq> 0 then flags OR PROT_READ else flags);
          flags = (if get_pte_flags pte AND PTE_W \<noteq> 0 then flags OR PROT_WRITE else flags);
          flags = (if get_pte_flags pte AND PTE_X \<noteq> 0 then flags OR PROT_EXEC else flags)
      in flags)"

definition ram_fault :: "env \<Rightarrow> u64 \<Rightarrow> u64 \<Rightarrow> u64 \<Rightarrow> (machine, unit) prog" where
  "ram_fault E cause va pte =
     (if denied cause pte then
        andthen (gets (\<lambda>s. priv_mode (priv s))) (\<lambda>m.
        andthen (if m = PRIV_S then log_ebreak E ''page permission denied in s mode''
                 else write_log E ''page permission denied in u mode'') (\<lambda>_.
        enter_trap cause va))
      else
        andthen (s_mmap E (va AND NOT (push_bit 12 1 - 1)) 4096 (pte_prot pte)
                   (MAP_SHARED OR MAP_FIXED_NOREPLACE) RAM_FD
                   (push_bit 12 (get_pte_ppn pte) - RAM_START)) (\<lambda>res.
        whenM (res <s 0)
          (andthen (print E (''[urvirt] Trying to mmap failed, addr=0x%zx, errno=%d'' @ newline)
                      [va, scast (- (ucast res :: u32))]) (\<lambda>_.
           halt Ebreak))))"

definition skip_store :: "env \<Rightarrow> u64 \<Rightarrow> (machine, unit) prog" where
  "skip_store E ip = andthen (load E read8 ip) (\<lambda>b. advance_pc (if looks_32bit b then 4 else 2))"

definition mmio_fault :: "env \<Rightarrow> u64 \<Rightarrow> u64 \<Rightarrow> u64 \<Rightarrow> (machine, unit) prog" where
  "mmio_fault E cause va pa =
     andthen (gets (\<lambda>s. gregs s 0)) (\<lambda>pc.
     andthen
       (if cause = SCAUSE_STORE_PF then
          andthen (get_store_data E) (\<lambda>d.
          case d of Some data \<Rightarrow> ret data
          | None \<Rightarrow> andthen (print E (''[urvirt] Failed to get MMIO store data'' @ newline) [])
                     (\<lambda>_. halt Ebreak))
        else ret 0) (\<lambda>store_data.
     if pa = URVIRT_BLOCK + URVIRT_BLOCK_COMMAND \<and> cause = SCAUSE_STORE_PF then
       andthen (gets priv) (\<lambda>p.
       andthen (print E (''[urvirt] urvirt block command %zd, block_id=%zd, buf=0x%zx'' @ newline)
                  [store_data, urvb_block_id p, urvb_buf p]) (\<lambda>_.
       andthen
         (if store_data = URVIRT_BLOCK_CMD_READ then
            andthen (s_pread64 E BLOCK_FD (urvb_buf p) URVIRT_BLOCK_SIZE
                       (URVIRT_BLOCK_SIZE * urvb_block_id p)) (\<lambda>_. skip)
          else if store_data = URVIRT_BLOCK_CMD_WRITE then
            andthen (s_pwrite64 E BLOCK_FD (urvb_buf p) URVIRT_BLOCK_SIZE
                       (URVIRT_BLOCK_SIZE * urvb_block_id p)) (\<lambda>_. skip)
          else halt Ebreak) (\<lambda>_.
       skip_store E pc)))
     else if pa = URVIRT_BLOCK + URVIRT_BLOCK_BLOCK_ID \<and> cause = SCAUSE_STORE_PF then
       andthen (upd_priv (\<lambda>p. p\<lparr>urvb_block_id := store_data\<rparr>)) (\<lambda>_. skip_store E pc)
     else if pa = URVIRT_BLOCK + URVIRT_BLOCK_BUF \<and> cause = SCAUSE_STORE_PF then
       andthen (upd_priv (\<lambda>p. p\<lparr>urvb_buf := store_data\<rparr>)) (\<lambda>_. skip_store E pc)
     else
       andthen (decode_sd E pc) (\<lambda>rs2.
       andthen (print E (''[urvirt] Page fault, sepc=0x%zx, rs2=x%d, va=0x%zx, pa=0x%zx, scause=%d cannot handle''
                  @ newline) [pc, word_of_int rs2, va, pa, cause]) (\<lambda>_.
       halt Ebreak))))"

definition handle_page_fault :: "env \<Rightarrow> u64 \<Rightarrow> u64 \<Rightarrow> (machine, unit) prog" where
  "handle_page_fault E cause va =
     andthen (lookup_pa E va) (\<lambda>res.
     case res of
       Some (pa, pte) \<Rightarrow>
         (if pte = 0 then log_ebreak E ''someone turned off translation''
          else if RAM_START \<le> pa \<and> pa < RAM_START + RAM_SIZE then ram_fault E cause va pte
          else mmio_fault E cause va pa)
     | None \<Rightarrow> enter_trap cause va)"

section \<open>Lemmas\<close>

lemma print_apply:
  "print E fmt va s = (case format_text plain_fmt (bytes_of fmt) va of None \<Rightarrow> Stop Undefined s
     | Some cs \<Rightarrow> Ok () (s\<lparr>trace := trace s @ printed cs\<rparr>))"
  by (simp add: print_def printf_text andthen_apply split: option.split)

lemma format_text_literal:
  "\<forall>c\<in>set xs. c \<noteq> 0 \<and> c \<noteq> ch CHR ''%'' \<Longrightarrow>
   format_text F (xs @ r) va = map_option ((@) xs) (format_text F r va)"
  by (induction xs) (cases "format_text F r va"; simp add: format_text_plain)+

definition block_line :: "u64 \<Rightarrow> u64 \<Rightarrow> u64 \<Rightarrow> u8 list" where
  "block_line cmd i buf = bytes_of ''[urvirt] urvirt block command '' @ signed_text (sint cmd)
     @ bytes_of '', block_id='' @ signed_text (sint i) @ bytes_of '', buf=0x''
     @ numeral_text 0 16 (unat buf) @ bytes_of newline"

lemma block_text:
  "format_text plain_fmt (bytes_of (''[urvirt] urvirt block command %zd, block_id=%zd, buf=0x%zx'' @ newline))
     [cmd, i, buf] = Some (block_line cmd i buf)"
proof -
  have split: "bytes_of (''[urvirt] urvirt block command %zd, block_id=%zd, buf=0x%zx'' @ newline) =
      bytes_of ''[urvirt] urvirt block command '' @ bytes_of ''%zd'' @ bytes_of '', block_id='' @ bytes_of ''%zd''
      @ bytes_of '', buf=0x'' @ bytes_of ''%zx'' @ bytes_of newline"
    by (simp add: bytes_of_def)
  have lit: "\<forall>c\<in>set (bytes_of ''[urvirt] urvirt block command ''). c \<noteq> 0 \<and> c \<noteq> ch CHR ''%''"
      "\<forall>c\<in>set (bytes_of '', block_id=''). c \<noteq> 0 \<and> c \<noteq> ch CHR ''%''"
      "\<forall>c\<in>set (bytes_of '', buf=0x''). c \<noteq> 0 \<and> c \<noteq> ch CHR ''%''"
    by (simp_all add: bytes_of_def)
  have nl: "format_text F (bytes_of newline) [] = Some (bytes_of newline)" for F
    by (simp add: bytes_of_def newline_def format_text_plain)
  show ?thesis
    unfolding split block_line_def
    by (simp only: format_text_literal [OF lit(1)] format_text_literal [OF lit(2)]
        format_text_literal [OF lit(3)] format_conversions nl option.map)
qed

context signal_inv
begin

lemma keeps_print [keeps_rules]: "keeps (\<lambda>s. J (priv s)) (print E fmt va)"
  by (simp add: keeps_def print_apply split: option.split)

lemma keeps_decode_sd [keeps_rules]: "keeps (\<lambda>s. J (priv s)) (decode_sd E ip)"
  unfolding decode_sd_def by (intro keeps_rules TrueI)

lemma keeps_get_store_data [keeps_rules]: "keeps (\<lambda>s. J (priv s)) (get_store_data E)"
  unfolding get_store_data_def by (intro keeps_rules TrueI)

lemma keeps_ram_fault [keeps_rules]: "keeps (\<lambda>s. J (priv s)) (ram_fault E cause va pte)"
  unfolding ram_fault_def by (intro keeps_rules TrueI)

lemma keeps_skip_store [keeps_rules]: "keeps (\<lambda>s. J (priv s)) (skip_store E ip)"
  unfolding skip_store_def by (intro keeps_rules TrueI)

lemma keeps_mmio_fault [keeps_rules]: "keeps (\<lambda>s. J (priv s)) (mmio_fault E cause va pa)"
  unfolding mmio_fault_def by (intro keeps_rules TrueI) (simp_all add: device)

lemma keeps_handle_page_fault [keeps_rules]: "keeps (\<lambda>s. J (priv s)) (handle_page_fault E cause va)"
  unfolding handle_page_fault_def by (intro keeps_rules TrueI)

end

text \<open>Permissions.\<close>

definition allows :: "u64 \<Rightarrow> nat \<Rightarrow> bool" where
  "allows cause pte \<longleftrightarrow> (if cause = SCAUSE_INSTR_PF then pte_bit pte 3
     else if cause = SCAUSE_LOAD_PF then pte_bit pte 1
     else if cause = SCAUSE_STORE_PF then pte_bit pte 2 else True)"

lemma flag_zero: "(get_pte_flags e AND f = 0) = (\<not> fl e f)"
  by (simp add: fl_def)

lemma denied_allows: "denied cause e \<longleftrightarrow> \<not> allows cause (unat e)"
  by (auto simp: denied_def allows_def flag_zero pte_flag_bits) (simp_all add: riscv_const)

lemma pte_prot_bits:
  "pte_prot e = of_bool (pte_bit (unat e) 1) + 2 * of_bool (pte_bit (unat e) 2) + 4 * of_bool (pte_bit (unat e) 3)"
  unfolding pte_prot_def Let_def flag_zero pte_flag_bits
  by (simp add: PROT_READ_def PROT_WRITE_def PROT_EXEC_def)

lemma pte_target_less: "pte_target pte < 2 ^ 56"
  by (simp add: pte_target_def)

lemma target_in_ram:
  "RAM_START \<le> of_nat (pte_target pte + unat va mod 4096)
     \<and> of_nat (pte_target pte + unat va mod 4096) < RAM_START + RAM_SIZE
   \<longleftrightarrow> 0x80000000 \<le> pte_target pte \<and> pte_target pte < 0x81000000"
proof -
  have "pte_target pte < 2 ^ 44 * 4096" by (simp add: pte_target_def)
  moreover have o: "unat va mod 4096 < 4096" by simp
  ultimately have "pte_target pte + unat va mod 4096 < 2 ^ 64" by simp
  then have u: "unat (of_nat (pte_target pte + unat va mod 4096) :: u64) = pte_target pte + unat va mod 4096"
    by (simp add: unsigned_of_nat take_bit_nat_eq_self del: of_nat_add)
  obtain k where k: "pte_target pte = 4096 * k"
    using pte_target_aligned [of pte] by (auto simp: mod_eq_0_iff_dvd)
  have "0x80000000 \<le> 4096 * k + unat va mod 4096 \<longleftrightarrow> 0x80000000 \<le> 4096 * k"
    "4096 * k + unat va mod 4096 < 0x81000000 \<longleftrightarrow> 4096 * k < 0x81000000"
    using o by (cases "k < 0x80000"; linarith) (cases "k < 0x81000"; linarith)
  then show ?thesis
    using u by (simp add: riscv_const word_le_nat_alt word_less_nat_alt k)
qed

lemma page_base: "va AND NOT (push_bit 12 1 - 1) = (va :: u64) - va mod 4096"
proof -
  have m: "push_bit 12 1 - 1 = (mask 12 :: u64)" by (simp add: mask_eq_decr_exp)
  have t: "take_bit 12 va = va mod 4096" by (simp add: take_bit_eq_mod)
  show ?thesis by (simp only: m and_not_mask_eq t)
qed

lemma pte_offset:
  assumes "pte < 2 ^ 64" "0x80000000 \<le> pte_target pte"
  shows "push_bit 12 (get_pte_ppn (of_nat pte)) - RAM_START = of_nat (pte_target pte - 0x80000000)"
proof -
  have "unat (of_nat pte :: u64) = pte" using assms(1) by (simp add: unsigned_of_nat take_bit_nat_eq_self)
  then have "push_bit 12 (get_pte_ppn (of_nat pte)) = (of_nat (pte_target pte) :: u64)"
    using pte_target_word [of "of_nat pte"] pte_target_less [of pte]
    by (simp add: word_unat_eq_iff unsigned_of_nat take_bit_nat_eq_self [of "pte_target pte"])
  then show ?thesis using assms(2) by (simp add: riscv_const of_nat_diff)
qed

text \<open>The instruction formats of the stores: \<open>sd\<close>, \<open>c.sd\<close> and \<open>c.sdsp\<close>.\<close>

definition sd_instr :: "7 word \<Rightarrow> 5 word \<Rightarrow> 5 word \<Rightarrow> 5 word \<Rightarrow> u32" where
  "sd_instr hi rs1 rs2 lo = enc (push_bit 5 (ucast hi) OR ucast rs2) (ucast rs1) 3 (ucast lo) 0x23"

definition c_sd_instr :: "8 word \<Rightarrow> 3 word \<Rightarrow> u16" where
  "c_sd_instr x rs2 = push_bit 13 7 OR push_bit 5 (ucast x) OR push_bit 2 (ucast rs2)"

definition c_sdsp_instr :: "6 word \<Rightarrow> 5 word \<Rightarrow> u16" where
  "c_sdsp_instr x rs2 = push_bit 13 7 OR push_bit 7 (ucast x) OR push_bit 2 (ucast rs2) OR 2"

lemma read16_byte: "read16 m a = Some w \<Longrightarrow> m a = Some (ucast w)"
  by (auto simp: read16_def split: option.splits intro!: bit_word_eqI) (auto simp: bit_simps)

lemma read32_half: "read32 m a = Some w \<Longrightarrow> read16 m a = Some (ucast w)"
  by (auto simp: read32_def split: option.splits intro!: bit_word_eqI) (auto simp: bit_simps)

lemma read32_byte: "read32 m a = Some w \<Longrightarrow> m a = Some (ucast w)"
  using read16_byte [OF read32_half, of m a w] by (auto intro!: bit_word_eqI simp: bit_simps)

lemma looks_32bit_bit: "looks_32bit b \<longleftrightarrow> bit b 0"
  by (simp add: looks_32bit_def and_exp_eq_0_iff_not_bit [of b 0, simplified])

lemma ucast7_bound: "(ucast (h :: 7 word) :: u32) < 2 ^ 7"
  using unsigned_less [of h, where ?'a = nat]
  by (simp add: word_less_nat_alt unsigned_ucast_eq take_bit_nat_eq_self)

lemma sd_instr_fields:
  "ins_opcode (sd_instr hi rs1 rs2 lo) = 0x23" "ins_funct3 (sd_instr hi rs1 rs2 lo) = 3"
  "ins_rs2 (sd_instr hi rs1 rs2 lo) = ucast rs2" "bit (sd_instr hi rs1 rs2 lo) 0"
proof -
  note f = enc_fields [OF funct7_rs2(1) [OF ucast7_bound [of hi], of rs2] ucast_bounds(1) [of rs1] _
      ucast_bounds(1) [of lo], of 3 "0x23"]
  show 1: "ins_opcode (sd_instr hi rs1 rs2 lo) = 0x23" and "ins_funct3 (sd_instr hi rs1 rs2 lo) = 3"
    using f by (simp_all add: sd_instr_def)
  have "take_bit 5 (push_bit 5 (ucast hi) OR ucast rs2) = (ucast rs2 :: u32)"
    by (rule bit_word_eqI) (auto simp: bit_simps dest: bit_imp_le_length)
  then show "ins_rs2 (sd_instr hi rs1 rs2 lo) = ucast rs2"
    using f by (simp add: sd_instr_def)
  have "bit (ins_opcode (sd_instr hi rs1 rs2 lo)) 0 = bit (sd_instr hi rs1 rs2 lo) 0"
    by (simp add: field_defs bit_ins_bitfield)
  then show "bit (sd_instr hi rs1 rs2 lo) 0" by (simp add: 1)
qed

lemma decode_sd_32:
  assumes "read32 (gmem E (trace s)) ip = Some (sd_instr hi rs1 rs2 lo)"
  shows "decode_sd E ip s = Ok (uint rs2) s"
proof -
  have "uint (ucast rs2 :: u32) = uint rs2"
    using unsigned_less [of rs2, where ?'a = int] by (simp add: unsigned_ucast_eq take_bit_int_eq_self)
  then show ?thesis
    using assms read32_byte [OF assms]
    by (simp add: decode_sd_def load_apply read8_def looks_32bit_bit bit_simps sd_instr_fields riscv_const)
qed

lemma c_sd_fields:
  "drop_bit 13 (c_sd_instr x r3) = 7" "c_sd_instr x r3 AND 3 = 0"
  "drop_bit 2 (c_sd_instr x r3) AND 7 = ucast r3" "\<not> bit (c_sd_instr x r3) 0"
proof -
  have m: "(7 :: u16) = mask 3" "(3 :: u16) = mask 2" by (simp_all add: mask_eq_decr_exp)
  have b: "bit r3 n \<Longrightarrow> n < 3" "bit x n \<Longrightarrow> n < 8" for n by (auto dest: bit_imp_le_length)
  show "drop_bit 13 (c_sd_instr x r3) = 7" "c_sd_instr x r3 AND 3 = 0"
    "drop_bit 2 (c_sd_instr x r3) AND 7 = ucast r3" "\<not> bit (c_sd_instr x r3) 0"
    unfolding c_sd_instr_def m
    by (auto intro!: bit_word_eqI simp: bit_simps dest!: b)
qed

lemma c_sdsp_fields:
  "drop_bit 13 (c_sdsp_instr x r5) = 7" "c_sdsp_instr x r5 AND 3 = 2" "\<not> bit (c_sdsp_instr x r5) 0"
proof -
  have m: "(7 :: u16) = mask 3" "(3 :: u16) = mask 2" "(2 :: u16) = push_bit 1 1"
    by (simp_all add: mask_eq_decr_exp)
  have b: "bit r5 n \<Longrightarrow> n < 5" "bit x n \<Longrightarrow> n < 6" for n by (auto dest: bit_imp_le_length)
  show "drop_bit 13 (c_sdsp_instr x r5) = 7" "c_sdsp_instr x r5 AND 3 = 2" "\<not> bit (c_sdsp_instr x r5) 0"
    unfolding c_sdsp_instr_def m
    by (auto intro!: bit_word_eqI simp: bit_simps bit_1_iff dest!: b)
qed

lemma decode_sd_16:
  assumes "read16 (gmem E (trace s)) ip = Some (c_sd_instr x r3)"
  shows "decode_sd E ip s = Ok (8 + uint r3) s"
proof -
  have e: "n < 3 \<Longrightarrow> \<not> bit (8 :: u16) n" for n by (auto simp: numeral_3_eq_3 less_Suc_eq)
  have b: "bit r3 n \<Longrightarrow> n < 3" for n by (auto dest: bit_imp_le_length)
  have "ucast r3 OR 8 = (ucast r3 + 8 :: u16)"
    by (rule disjunctive_add_eq_or [symmetric]) (auto simp: bit_eq_iff bit_simps dest!: b e)
  moreover have "uint (ucast r3 :: u16) = uint r3" "uint r3 < 8"
    using unsigned_less [of r3, where ?'a = int] by (simp_all add: unsigned_ucast_eq take_bit_int_eq_self)
  ultimately have "uint (ucast r3 OR 8 :: u16) = 8 + uint r3"
    by (simp add: uint_word_ariths)
  then show ?thesis
    using assms read16_byte [OF assms]
    by (simp add: decode_sd_def load_apply read8_def looks_32bit_bit bit_simps c_sd_fields)
qed


section \<open>Properties\<close>

text \<open>The mapping a fault on the page of \<open>va\<close> asks for, given its leaf entry.\<close>

definition page_call :: "u64 \<Rightarrow> nat \<Rightarrow> ecall" where
  "page_call va pte = Ecall SYS_mmap [Reg (va - va mod 4096), Reg 4096,
     int_arg (of_bool (pte_bit pte 1) + 2 * of_bool (pte_bit pte 2) + 4 * of_bool (pte_bit pte 3)),
     int_arg (MAP_SHARED OR MAP_FIXED_NOREPLACE), int_arg RAM_FD,
     Reg (of_nat (pte_target pte - 0x80000000))]"

lemma abs_isa_trace [simp]: "abs_isa (s\<lparr>trace := t\<rparr>) = abs_isa s"
  by (simp add: abs_isa_def cong: if_cong)

lemma ram_fault_leaf:
  assumes "translating E va s" "guest_walk E va s = Leaf 0 pte"
    and "0x80000000 \<le> pte_target pte" "pte_target pte < 0x81000000"
  shows "handle_page_fault E cause va s = ram_fault E cause va (of_nat pte) (s\<lparr>trace := walk_trace E s\<rparr>)"
  using assms target_in_ram [of pte va]
  by (simp add: handle_page_fault_def lookup_pa_result(1) guest_leaf(3) del: of_nat_add)

lemma mmio_fault_leaf:
  assumes "translating E va s" "guest_walk E va s = Leaf 0 pte"
    and "\<not> (0x80000000 \<le> pte_target pte \<and> pte_target pte < 0x81000000)"
  shows "handle_page_fault E cause va s =
    mmio_fault E cause va (of_nat (pte_target pte + unat va mod 4096)) (s\<lparr>trace := walk_trace E s\<rparr>)"
  using assms target_in_ram [of pte va]
  by (auto simp: handle_page_fault_def lookup_pa_result(1) guest_leaf(3) simp del: of_nat_add)

text \<open>
  C11: a fault on a page the guest may access installs exactly that page.  When the guest's
  tables translate the address to RAM and permit the access, the handler makes one mapping
  call: the page of the address, with the read, write and execute permissions of the leaf
  entry, onto the page of the RAM file that the entry names.  No other state changes, so the
  instruction runs again.
\<close>

theorem page_installed:
  assumes "translating E va s" and "guest_walk E va s = Leaf 0 pte"
    and "0x80000000 \<le> pte_target pte" and "pte_target pte < 0x81000000" and "allows cause pte"
    and "\<not> sysret E (walk_trace E s @ [page_call va pte]) <s 0"
  shows "handle_page_fault E cause va s = Ok () (s\<lparr>trace := walk_trace E s @ [page_call va pte]\<rparr>)"
proof -
  note leaf = guest_leaf [OF assms(2)]
  have "\<not> denied cause (of_nat pte)" using assms(5) leaf(4) by (simp add: denied_allows)
  moreover have "pte_prot (of_nat pte) = of_bool (pte_bit pte 1) + 2 * of_bool (pte_bit pte 2) + 4 * of_bool (pte_bit pte 3)"
    using leaf(4) by (simp only: pte_prot_bits)
  ultimately show ?thesis
    using assms(6) unfolding ram_fault_leaf [OF assms(1-4)] ram_fault_def page_base page_call_def
      pte_offset [OF leaf(1) assms(3)]
    by (simp only: s_mmap_apply andthen_Ok [OF s_mmap_apply [unfolded Let_def]] if_False if_True whenM_def) simp
qed

lemma sample_machines:
  "paged_machine = paged_machine\<lparr>priv := (priv paged_machine)\<lparr>priv_mode := PRIV_S\<rparr>, gregs := (\<lambda>_. 0)\<rparr>"
  "sample_env = sample_env\<lparr>gmem := gmem sample_env\<rparr>"
  by (simp_all add: paged_machine_def sample_machine_def sample_priv_def initialize_priv_def Let_def)

theorem page_installed_witness:
  "allows SCAUSE_LOAD_PF 0x2000140f \<and>
   handle_page_fault sample_env SCAUSE_LOAD_PF 0x1234 paged_machine = Ok () (paged_machine\<lparr>trace :=
     [ram_map_call, Ecall SYS_munmap [Reg 0x2000000000, Reg RAM_SIZE],
      Ecall SYS_mmap [Reg 0x1000, Reg 4096, Reg 7, Reg 0x100001, Reg 65, Reg 0x5000]]\<rparr>)"
proof -
  have v: "va_sign_ok 0x1234" by (simp add: va_sign_sint)
  note t = sample_translating [OF v sample_machines]
  have a: "allows SCAUSE_LOAD_PF 0x2000140f" by (simp add: allows_def pte_bit_def riscv_const)
  have "guest_walk sample_env 0x1234 paged_machine = Leaf 0 0x2000140f"
    using t(2) by (simp add: sample_walk)
  from page_installed [OF t(1) this _ _ a] a show ?thesis
    by (simp add: pte_target_def sample_env_def walk_trace_def page_call_def pte_bit_def paged_machine_def
        sample_machine_def riscv_const word_sless_alt)
qed

text \<open>
  C13: a fault on an address the guest's tables do not translate is a page fault of the guest:
  the trap of the architecture with the same cause and the faulting address.
\<close>

theorem page_fault_delivered:
  assumes "priv_inv (priv s)" and "translating E va s" and "guest_walk E va s = Fault"
  shows "\<exists>s'. handle_page_fault E cause va s = Ok () s' \<and> abs_isa s' = isa_trap cause va (abs_isa s)
    \<and> should_clear_vm (priv s')"
  using enter_trap_isa [of "s\<lparr>trace := walk_trace E s\<rparr>" cause va] assms
  by (auto simp: handle_page_fault_def lookup_pa_result(2))

theorem page_fault_delivered_witness:
  "priv_inv (priv paged_machine) \<and> guest_walk sample_env 0x5000 paged_machine = Fault \<and>
   (\<exists>s'. handle_page_fault sample_env SCAUSE_STORE_PF 0x5000 paged_machine = Ok () s'
     \<and> abs_isa s' = isa_trap SCAUSE_STORE_PF 0x5000 (abs_isa paged_machine) \<and> should_clear_vm (priv s'))"
proof -
  have v: "va_sign_ok 0x5000" by (simp add: va_sign_sint)
  note t = sample_translating [OF v sample_machines]
  have f: "guest_walk sample_env 0x5000 paged_machine = Fault" using t(2) by (simp add: sample_walk)
  show ?thesis using page_fault_delivered [OF paged_inv(1) t(1) f] paged_inv(1) f by blast
qed



text \<open>The machine of the example in user mode, with a register file.\<close>

definition user_machine :: machine where
  "user_machine = paged_machine\<lparr>priv := (priv paged_machine)\<lparr>priv_mode := PRIV_U\<rparr>,
     gregs := (\<lambda>r. if r = 0 then 0x1000 else if r = 10 then 0x3000 else if r = 11 then 2 else 0)\<rparr>"


section \<open>The block device\<close>

lemma block_print:
  "print E (''[urvirt] urvirt block command %zd, block_id=%zd, buf=0x%zx'' @ newline) [cmd, i, buf] s =
   Ok () (s\<lparr>trace := trace s @ printed (block_line cmd i buf)\<rparr>)"
  by (simp only: print_apply block_text option.case)

lemma store_data_sd:
  assumes "read32 (gmem E (trace s)) (gregs s 0) = Some (sd_instr hi rs1 rs2 lo)"
  shows "get_store_data E s = Ok (Some (gregs s (unat rs2))) s"
  using decode_sd_32 [OF assms] by (simp add: get_store_data_def)

lemma skip_store_sd:
  assumes "read32 (gmem E (trace s)) ip = Some (sd_instr hi rs1 rs2 lo)"
  shows "skip_store E ip s = advance_pc 4 s"
  using read32_byte [OF assms]
  by (simp add: skip_store_def load_apply read8_def looks_32bit_bit bit_simps sd_instr_fields)


text \<open>The example machine runs \<open>sd a1, 0(a0)\<close>, a command 2 at the device.\<close>

definition sd_env :: env where
  "sd_env = sample_env\<lparr>gmem := (\<lambda>_ a. map_of [(0x1000, 0x23), (0x1001, 0x30), (0x1002, 0xb5), (0x1003, 0)] a)\<rparr>"


text \<open>
  Decoding of the stored register.  An \<open>sd\<close> instruction yields its \<open>rs2\<close> field and a
  \<open>c.sd\<close> the register \<open>x8\<close> to \<open>x15\<close> of its compressed field, although the test for the
  instruction length only looks at the lowest bit.
\<close>

lemma decode_sd_correct:
  "(read32 (gmem E (trace s)) ip = Some (sd_instr hi rs1 rs2 lo) \<longrightarrow> decode_sd E ip s = Ok (uint rs2) s)
   \<and> (read16 (gmem E (trace s)) ip = Some (c_sd_instr x r3) \<longrightarrow> decode_sd E ip s = Ok (8 + uint r3) s)"
  using decode_sd_32 decode_sd_16 by blast

text \<open>
  C35: the compressed store \<open>c.sdsp\<close> is not recognised: its encoding has the function code
  7, and the decoder looks for 3, which is \<open>c.ldsp\<close>.  A store to the device by that
  instruction therefore ends in \<open>ebreak\<close>.
\<close>

theorem c_sdsp_unrecognised:
  assumes "read16 (gmem E (trace s)) ip = Some (c_sdsp_instr x rs2)"
  shows "decode_sd E ip s = Ok (- 1) s"
  using assms read16_byte [OF assms]
  by (simp add: decode_sd_def load_apply read8_def looks_32bit_bit bit_simps c_sdsp_fields)

theorem c_sdsp_unrecognised_witness:
  "decode_sd (sample_env\<lparr>gmem := (\<lambda>_ a. map_of [(0x1000, 0x2e), (0x1001, 0xe0)] a)\<rparr>) 0x1000 user_machine =
   Ok (- 1) user_machine"
proof -
  have "read16 (gmem (sample_env\<lparr>gmem := (\<lambda>_ a. map_of [(0x1000, 0x2e), (0x1001, 0xe0)] a)\<rparr>)
      (trace user_machine)) 0x1000 = Some (c_sdsp_instr 0 11)"
    by (simp add: read16_def c_sdsp_instr_def)
  from c_sdsp_unrecognised [OF this] show ?thesis .
qed

end
