(* ===== verification/Sbi.thy ===== *)
theory Sbi
  imports Isa
begin

text \<open>
  The supervisor binary interface: \<^verbatim>\<open>src/src/urvirt-stub/handle-sbi.c\<close> and
  \<^verbatim>\<open>src/src/urvirt-stub/handle-sbi.h\<close>.  An \<open>ecall\<close> of the guest kernel is one of the
  legacy calls: console output and input, shutdown and the timer.
\<close>

section \<open>Definitions\<close>

definition SBI_SUCCESS :: u64 where [riscv_const]: "SBI_SUCCESS = 0"
definition SBI_ERR_FAILED :: u64 where [riscv_const]: "SBI_ERR_FAILED = - 1"
definition SBI_ERR_NOT_SUPPORTED :: u64 where [riscv_const]: "SBI_ERR_NOT_SUPPORTED = - 2"
definition SBI_ERR_INVALID_PARAM :: u64 where [riscv_const]: "SBI_ERR_INVALID_PARAM = - 3"
definition SBI_ERR_DENIED :: u64 where [riscv_const]: "SBI_ERR_DENIED = - 4"
definition SBI_ERR_INVALID_ADDRESS :: u64 where [riscv_const]: "SBI_ERR_INVALID_ADDRESS = - 5"
definition SBI_ERR_ALREADY_AVAILABLE :: u64 where [riscv_const]: "SBI_ERR_ALREADY_AVAILABLE = - 6"
definition SBI_ERR_ALREADY_STARTED :: u64 where [riscv_const]: "SBI_ERR_ALREADY_STARTED = - 7"
definition SBI_ERR_ALREADY_STOPPED :: u64 where [riscv_const]: "SBI_ERR_ALREADY_STOPPED = - 8"

definition SBI_SET_TIMER :: u64 where [riscv_const]: "SBI_SET_TIMER = 0"
definition SBI_CONSOLE_PUTCHAR :: u64 where [riscv_const]: "SBI_CONSOLE_PUTCHAR = 1"
definition SBI_CONSOLE_GETCHAR :: u64 where [riscv_const]: "SBI_CONSOLE_GETCHAR = 2"
definition SBI_SHUTDOWN :: u64 where [riscv_const]: "SBI_SHUTDOWN = 8"

text \<open>The value of \<^verbatim>\<open><errno.h>\<close> on Linux.\<close>

definition EWOULDBLOCK :: u32 where [riscv_const]: "EWOULDBLOCK = 11"

definition handle_legacy_sbi_call ::
  "env \<Rightarrow> u64 \<Rightarrow> u64 \<Rightarrow> u64 \<Rightarrow> u64 \<Rightarrow> (machine, u64) prog" where
  "handle_legacy_sbi_call E which arg0 arg1 arg2 =
     (if which = SBI_CONSOLE_PUTCHAR then
        andthen (s_write E 1 [ucast arg0] 1) (\<lambda>_. ret 0)
      else if which = SBI_CONSOLE_GETCHAR then
        andthen (s_read E 0 1) (\<lambda>(r, buf).
        let res = (ucast r :: u32)
        in if res = - EWOULDBLOCK then ret 0
           else if res <s 1 then log_ebreak E ''error in read''
           else case buf of [] \<Rightarrow> halt Undefined | c # _ \<Rightarrow> ret (ucast c))
      else if which = SBI_SHUTDOWN then
        andthen (write_log E ''SBI Shutdown!'') (\<lambda>_.
        andthen (s_exit_group E 0) (\<lambda>_. halt Undefined))
      else if which = SBI_SET_TIMER then
        andthen (gets (\<lambda>s. rdtime E (trace s))) (\<lambda>cur_time.
        let delta_ns = (arg0 - cur_time) * 1000
        in andthen (write_log E ''Set timer'') (\<lambda>_.
           andthen (gets (\<lambda>s. timerid (priv s))) (\<lambda>i.
           andthen (s_timer_settime E i 0
             \<lparr>interval_sec = 0, interval_nsec = 0,
              value_sec = delta_ns div 1000000000, value_nsec = delta_ns mod 1000000000\<rparr>) (\<lambda>_.
           andthen (upd_priv (\<lambda>p. p\<lparr>sip := set_six_sti (sip p) (of_bool (arg0 \<le> cur_time))\<rparr>)) (\<lambda>_.
           ret 0)))))
      else
        andthen (write_log E ''Unhandled sbi call'') (\<lambda>_. ret SBI_ERR_NOT_SUPPORTED))"

section \<open>Lemmas\<close>

lemma bit_sti: "n < 64 \<Longrightarrow> bit (set_six_sti w (of_bool b)) n = (if n = 5 then b else bit w n)"
  using bit_bf_set [of "of_bool b :: u64" 1 5 n w] by (auto simp: field_defs)

lemma sti_writable:
  "set_six_sti w (of_bool b) AND NOT SIX_WRITABLE_MASK = w AND NOT SIX_WRITABLE_MASK"
  by (rule bit_word_eqI) (auto simp: bit_sti SIX_WRITABLE_MASK_def MASK_six_sti_def bit_bf_mask bit_simps)

lemma sti_get_set [simp]: "get_six_sti (set_six_sti w (of_bool b)) = of_bool b"
  by (rule six_sti.get_set) simp

lemma sti_inv: "priv_inv p \<Longrightarrow> priv_inv (p\<lparr>sip := set_six_sti (sip p) (of_bool b)\<rparr>)"
  by (rule priv_inv_upd) (simp_all add: sti_writable)

context signal_inv
begin

lemma keeps_sbi [keeps_rules]: "keeps (\<lambda>s. J (priv s)) (handle_legacy_sbi_call E which arg0 arg1 arg2)"
  unfolding handle_legacy_sbi_call_def
  by (intro keeps_rules TrueI) (simp_all add: timer)

end

section \<open>Properties\<close>

lemma nanoseconds:
  "(x :: u64) div 1000000000 = of_nat (unat x div 10 ^ 9)" "x mod 1000000000 = of_nat (unat x mod 10 ^ 9)"
proof -
  have "x div 1000000000 = of_nat (unat (x div 1000000000))" by simp
  then show "x div 1000000000 = of_nat (unat x div 10 ^ 9)" unfolding unat_div_distrib by simp
  have "x mod 1000000000 = of_nat (unat (x mod 1000000000))" by simp
  then show "x mod 1000000000 = of_nat (unat x mod 10 ^ 9)" unfolding unat_mod_distrib by simp
qed

text \<open>The timer setting that expires after \<open>ns\<close> nanoseconds, once.\<close>

definition one_shot :: "nat \<Rightarrow> itimerspec" where
  "one_shot ns = \<lparr>interval_sec = 0, interval_nsec = 0, value_sec = of_nat (ns div 10 ^ 9),
     value_nsec = of_nat (ns mod 10 ^ 9)\<rparr>"

text \<open>
  C23: the timer.  A deadline in the future (at most \<open>2 ^ 64\<close> nanoseconds ahead) arms the
  timer, once, for exactly the remaining microseconds, split into seconds and a valid number of
  nanoseconds, and clears the pending bit; the call reports success and changes nothing else.
\<close>

theorem sbi_set_timer_future:
  assumes "now = rdtime E (trace s)" and "now < deadline"
    and "ns = (unat deadline - unat now) * 1000" and "ns < 2 ^ 64"
  shows "handle_legacy_sbi_call E SBI_SET_TIMER deadline arg1 arg2 s = Ok 0 (s\<lparr>
      trace := trace s @ [log_call ''Set timer'',
        Ecall SYS_timer_settime [Reg (timerid (priv s)), Reg 0, ItimerspecPtr (one_shot ns), Reg 0]],
      priv := (priv s)\<lparr>sip := put_bit 5 False (sip (priv s))\<rparr>\<rparr>)
    \<and> unat (value_nsec (one_shot ns)) < 10 ^ 9
    \<and> unat (value_sec (one_shot ns)) * 10 ^ 9 + unat (value_nsec (one_shot ns)) = ns"
proof -
  let ?d = "(deadline - now) * 1000 :: u64"
  have "unat (deadline - now) = unat deadline - unat now"
    using assms(2) by (simp add: unat_sub_if' word_less_nat_alt)
  then have d: "unat ?d = ns"
    using assms(3,4) by (simp add: unat_word_ariths(2) del: left_diff_distrib_numeral)
  have c: "?d div 1000000000 = of_nat (ns div 10 ^ 9)" "?d mod 1000000000 = of_nat (ns mod 10 ^ 9)"
    using nanoseconds [of ?d] by (simp_all only: d)
  have u: "unat (of_nat (ns div 10 ^ 9) :: u64) = ns div 10 ^ 9" "unat (of_nat (ns mod 10 ^ 9) :: u64) = ns mod 10 ^ 9"
    using div_le_dividend [of ns "10 ^ 9"] mod_less_eq_dividend [of ns "10 ^ 9"] assms(4)
    by (simp_all add: unsigned_of_nat take_bit_nat_eq_self)
  have p: "set_six_sti w 0 = put_bit 5 False w" for w
    using bit_sti [of _ w False] by (auto intro!: bit_word_eqI simp: bit_put_bit)
  show ?thesis
    using assms(1,2) u by (simp add: handle_legacy_sbi_call_def riscv_const Let_def one_shot_def c [unfolded assms(1)] p
        del: left_diff_distrib_numeral)
qed


theorem sbi_set_timer_future_witness:
  "handle_legacy_sbi_call (idle_env\<lparr>rdtime := (\<lambda>_. 1000000)\<rparr>) SBI_SET_TIMER 2500000 0 0 sample_machine =
     Ok 0 (sample_machine\<lparr>trace := [log_call ''Set timer'', Ecall SYS_timer_settime [Reg 0, Reg 0,
       ItimerspecPtr \<lparr>interval_sec = 0, interval_nsec = 0, value_sec = 1, value_nsec = 500000000\<rparr>, Reg 0]]\<rparr>)"
proof -
  have p: "timerid sample_priv = 0" "sample_priv\<lparr>sip := put_bit 5 False 0\<rparr> = sample_priv" "sip sample_priv = 0"
    by (simp_all add: sample_priv_def initialize_priv_def Let_def put_bit_def unset_bit_0)
  show ?thesis
    using sbi_set_timer_future [of "1000000" "idle_env\<lparr>rdtime := (\<lambda>_. 1000000)\<rparr>" sample_machine "2500000"
        "1500000000" 0 0]
    by (simp add: sample_machine_def p one_shot_def)
qed

text \<open>
  A deadline that has passed makes the timer interrupt pending at once, in the only bit of
  \<open>sip\<close> it may touch.
\<close>

lemma sbi_set_timer_past:
  assumes "deadline \<le> rdtime E (trace s)"
  shows "\<exists>t. handle_legacy_sbi_call E SBI_SET_TIMER deadline arg1 arg2 s =
    Ok 0 (s\<lparr>trace := t, priv := (priv s)\<lparr>sip := put_bit 5 True (sip (priv s))\<rparr>\<rparr>)"
proof -
  have "set_six_sti w 1 = put_bit 5 True w" for w
    using bit_sti [of _ w True] by (auto intro!: bit_word_eqI simp: bit_put_bit)
  then show ?thesis
    using assms by (auto simp: handle_legacy_sbi_call_def riscv_const Let_def)
qed

definition sbi_reply :: "env \<Rightarrow> u64 \<Rightarrow> u64 \<Rightarrow> machine \<Rightarrow> (machine, u64) outcome" where
  "sbi_reply E which arg0 s =
     (if which = 1 then Ok 0 (s\<lparr>trace := trace s @ [Ecall SYS_write [Reg 1, Bytes [ucast arg0], Reg 1]]\<rparr>)
      else if which = 2 then
        let t = trace s @ [Ecall SYS_read [Reg 0, OutPtr, Reg 1]]; n = sint (ucast (sysret E t) :: u32)
        in if n = - 11 then Ok 0 (s\<lparr>trace := t\<rparr>)
           else if n \<le> 0 then Stop Ebreak (s\<lparr>trace := t @ [log_call ''error in read'']\<rparr>)
           else if sysout E t = [] then Stop Undefined (s\<lparr>trace := t\<rparr>)
           else Ok (ucast (hd (sysout E t))) (s\<lparr>trace := t\<rparr>)
      else if which = 8 then
        Stop (Exit 0) (s\<lparr>trace := trace s @ [log_call ''SBI Shutdown!'', Ecall SYS_exit_group [Reg 0]]\<rparr>)
      else Ok (- 2) (s\<lparr>trace := trace s @ [log_call ''Unhandled sbi call'']\<rparr>))"

text \<open>
  C24: the other calls, on every branch.  Output writes the low byte to standard output.  Input
  returns the byte that was read, 0 when none is available, and stops the process after a log
  line on end of file or an error.  Shutdown ends the process with status 0.  Every other call
  is refused with \<open>SBI_ERR_NOT_SUPPORTED\<close> after a log line.  None of them changes the
  privileged state or a register.
\<close>

theorem sbi_other_calls:
  assumes "which \<noteq> SBI_SET_TIMER"
  shows "handle_legacy_sbi_call E which arg0 arg1 arg2 s = sbi_reply E which arg0 s"
proof -
  have e: "sint (- 11 :: u32) = - 11" by simp
  have b: "x = - 11 \<longleftrightarrow> sint x = - 11" "x <s 1 \<longleftrightarrow> sint x \<le> 0" for x :: u32
    using e by (metis signed_word_eqI) (auto simp: word_sless_alt)
  show ?thesis
    using assms by (auto simp: handle_legacy_sbi_call_def sbi_reply_def riscv_const Let_def b
        split: list.split)
qed

theorem sbi_other_calls_witness:
  "handle_legacy_sbi_call idle_env 17 0 0 0 sample_machine =
   Ok (- 2) (sample_machine\<lparr>trace := [log_call ''Unhandled sbi call'']\<rparr>)"
  using sbi_other_calls [of 17 idle_env 0 0 0 sample_machine]
  by (simp add: riscv_const sbi_reply_def sample_machine_def)

end
