(* ===== verification/Stub.thy ===== *)
theory Stub
  imports Page_Fault Sbi
begin

text \<open>
  The signal handler of \<^verbatim>\<open>src/src/urvirt-stub/urvirt-stub.c\<close> (lines 16 to 160).

  The guest runs natively; whatever it cannot do becomes a signal.  \<open>SIGSYS\<close> is an \<open>ecall\<close>,
  \<open>SIGILL\<close> a privileged or illegal instruction, \<open>SIGSEGV\<close> a page fault, \<open>SIGALRM\<close> the
  timer.  After the signal's own work the handler takes a pending timer interrupt and drops the
  guest's mappings when the translation changed.
\<close>

section \<open>Definitions\<close>

text \<open>The values of \<^verbatim>\<open><signal.h>\<close> on Linux.\<close>

definition SIGILL :: u32 where [riscv_const]: "SIGILL = 4"
definition SIGSEGV :: u32 where [riscv_const]: "SIGSEGV = 11"
definition SIGALRM :: u32 where [riscv_const]: "SIGALRM = 14"
definition SIGSYS :: u32 where [riscv_const]: "SIGSYS = 31"
definition SI_TIMER :: u32 where [riscv_const]: "SI_TIMER = - 2"

record siginfo =
  si_code :: u32
  si_addr :: u64
  si_syscall :: u64

text \<open>The counters that the magic \<open>ecall\<close> prints.\<close>

definition print_counters :: "env \<Rightarrow> (machine, unit) prog" where
  "print_counters E =
     andthen (gets priv) (\<lambda>p.
     andthen (print E (''[urvirt] counters'' @ newline) []) (\<lambda>_.
     andthen (print E (''  ill = %zd'' @ newline) [counter_ill p]) (\<lambda>_.
     andthen (print E (''  segv = %zd'' @ newline) [counter_segv p]) (\<lambda>_.
     andthen (print E (''  sret = %zd'' @ newline) [counter_sret p]) (\<lambda>_.
     andthen (print E (''  uecall = %zd'' @ newline) [counter_uecall p]) (\<lambda>_.
     print E (''  secall = %zd'' @ newline) [counter_secall p]))))))"

definition handle_sigsys :: "env \<Rightarrow> u64 \<Rightarrow> siginfo \<Rightarrow> (machine, unit) prog" where
  "handle_sigsys E conf info =
     (let which = si_syscall info
      in andthen (set_greg 17 which) (\<lambda>_.
         andthen (gets gregs) (\<lambda>regs.
         andthen (deref conf) (\<lambda>_.
         andthen (whenM (regs 10 = 0xdeadbeefdeadbeef) (print_counters E)) (\<lambda>_.
         andthen (gets (\<lambda>s. priv_mode (priv s))) (\<lambda>m.
         if m = PRIV_S then
           andthen (upd_priv (\<lambda>p. p\<lparr>counter_secall := counter_secall p + 1\<rparr>)) (\<lambda>_.
           andthen (handle_legacy_sbi_call E which (regs 10) (regs 11) (regs 12)) (\<lambda>r.
           set_greg 10 r))
         else
           andthen (upd_priv (\<lambda>p. p\<lparr>counter_uecall := counter_uecall p + 1\<rparr>)) (\<lambda>_.
           andthen (advance_pc (- 4)) (\<lambda>_.
           enter_trap SCAUSE_UECALL 0))))))))"

definition handle_sigill :: "env \<Rightarrow> u64 \<Rightarrow> (machine, unit) prog" where
  "handle_sigill E conf =
     andthen (deref conf) (\<lambda>_.
     andthen (upd_priv (\<lambda>p. p\<lparr>counter_ill := counter_ill p + 1\<rparr>)) (\<lambda>_.
     andthen (gets (\<lambda>s. priv_mode (priv s))) (\<lambda>m.
     if m = PRIV_S then
       andthen (gets (\<lambda>s. gregs s 0)) (\<lambda>ip.
       andthen (load E read8 ip) (\<lambda>b.
       if b AND 0b11 = 0b11 \<and> b AND 0b11111 \<noteq> 0b11111 then
         andthen (load E read32 ip) (\<lambda>instr. handle_priv_instr E instr)
       else
         andthen (print E (''Can'' @ [CHR 0x27] @ ''t handle in SIGILL at %p'' @ newline) [ip])
           (\<lambda>_. halt Ebreak)))
     else enter_trap SCAUSE_ILLEGAL 0)))"

definition handle_sigalrm :: "env \<Rightarrow> u64 \<Rightarrow> (machine, unit) prog" where
  "handle_sigalrm E conf =
     andthen (deref conf) (\<lambda>_.
     andthen (upd_priv (\<lambda>p. p\<lparr>sip := set_six_sti (sip p) 1\<rparr>)) (\<lambda>_.
     andthen (gets (\<lambda>s. priv_mode (priv s))) (\<lambda>m.
     if m = PRIV_S then write_log E ''timer in s mode'' else write_log E ''timer in u mode'')))"

text \<open>The cause of a page fault, from the faulting address and the instruction.\<close>

definition fault_cause :: "env \<Rightarrow> siginfo \<Rightarrow> (machine, u64) prog" where
  "fault_cause E info =
     andthen (gets (\<lambda>s. gregs s 0)) (\<lambda>ip.
     if si_addr info = ip then ret SCAUSE_INSTR_PF
     else
       andthen (load E read8 ip) (\<lambda>b.
       if b AND 0b11 \<noteq> 0b11 then
         andthen (load E read16 ip) (\<lambda>instr.
         if rvc_looks_like_load instr then ret SCAUSE_LOAD_PF
         else if rvc_looks_like_store instr then ret SCAUSE_STORE_PF
         else
           andthen (write_log E ''weird 16-bit instruction page fault, assuming instr page fault'') (\<lambda>_.
           ret SCAUSE_INSTR_PF))
       else
         andthen (load E read32 ip) (\<lambda>_.
         let opcode = (ucast (b AND 0b1111111) :: u32)
         in if opcode = OPCODE_LOAD then ret SCAUSE_LOAD_PF
            else if opcode = OPCODE_STORE then ret SCAUSE_STORE_PF
            else if opcode = OPCODE_AMO then ret SCAUSE_STORE_PF
            else
              andthen (write_log E ''weird 32-bit instruction page fault, assuming instr page fault'') (\<lambda>_.
              ret SCAUSE_INSTR_PF))))"

definition handle_sigsegv :: "env \<Rightarrow> u64 \<Rightarrow> siginfo \<Rightarrow> (machine, unit) prog" where
  "handle_sigsegv E conf info =
     andthen (deref conf) (\<lambda>_.
     andthen (upd_priv (\<lambda>p. p\<lparr>counter_segv := counter_segv p + 1\<rparr>)) (\<lambda>_.
     andthen (fault_cause E info) (\<lambda>cause.
     handle_page_fault E cause (si_addr info))))"

definition interrupt_ready :: "priv_state \<Rightarrow> bool" where
  "interrupt_ready p \<longleftrightarrow>
     get_six_sti (sip p) \<noteq> 0 \<and> get_six_sti (sie p) \<noteq> 0
     \<and> (get_sstatus_sie (sstatus p) \<noteq> 0 \<or> priv_mode p < PRIV_S)"

definition take_interrupt :: "env \<Rightarrow> (machine, unit) prog" where
  "take_interrupt E =
     andthen (gets priv) (\<lambda>p.
     whenM (interrupt_ready p)
       (andthen (write_log E ''timer interrupt taken'') (\<lambda>_. enter_trap SCAUSE_TIMER 0)))"

definition clear_vm :: "env \<Rightarrow> (machine, unit) prog" where
  "clear_vm E =
     andthen (gets priv) (\<lambda>p.
     whenM (should_clear_vm p)
       (andthen (upd_priv (\<lambda>p. p\<lparr>should_clear_vm := False\<rparr>)) (\<lambda>_.
        let safe_begin = stub_start p; safe_end = stub_start p + stub_size p
        in andthen (s_munmap E 0 safe_begin) (\<lambda>_.
           andthen (s_munmap E safe_end (push_bit 38 1 - safe_end)) (\<lambda>_. skip)))))"

definition handle_signal :: "env \<Rightarrow> u64 \<Rightarrow> u32 \<Rightarrow> siginfo \<Rightarrow> (machine, unit) prog" where
  "handle_signal E conf sig info =
     (if sig = SIGSYS then handle_sigsys E conf info
      else if sig = SIGILL then handle_sigill E conf
      else if sig = SIGALRM \<and> si_code info = SI_TIMER then handle_sigalrm E conf
      else if sig = SIGSEGV then handle_sigsegv E conf info
      else log_ebreak E (''Don'' @ [CHR 0x27] @ ''t know how to handle''))"

definition handler :: "env \<Rightarrow> u32 \<Rightarrow> siginfo \<Rightarrow> (machine, unit) prog" where
  "handler E sig info =
     andthen (s_mmap E 0 CONF_SIZE (PROT_READ OR PROT_WRITE) MAP_SHARED CONFIG_FD 0) (\<lambda>conf.
     andthen (handle_signal E conf sig info) (\<lambda>_.
     andthen (take_interrupt E) (\<lambda>_.
     andthen (clear_vm E) (\<lambda>_.
     andthen (s_munmap E conf CONF_SIZE) (\<lambda>_. skip)))))"

text \<open>
  The routine that is installed for the signals: it calls \<open>handler\<close> and gives the context back to Linux,
  which resumes the guest with its registers.
\<close>

definition handler_wrapper :: "env \<Rightarrow> u32 \<Rightarrow> siginfo \<Rightarrow> (machine, unit) prog" where
  "handler_wrapper E sig info =
     andthen (handler E sig info) (\<lambda>_.
     andthen (ecall E SYS_rt_sigreturn []) (\<lambda>_. skip))"

section \<open>Invariants of the handler\<close>

lemma outcome_state_andthen:
  "outcome_state (andthen m f s) = (case m s of Ok x s' \<Rightarrow> outcome_state (f x s') | Stop e s' \<Rightarrow> s')"
  by (simp add: andthen_apply split: outcome.split)

context signal_inv
begin

lemma keeps_print_counters [keeps_rules]: "keeps (\<lambda>s. J (priv s)) (print_counters E)"
  unfolding print_counters_def by (intro keeps_rules)

lemma keeps_sigsys [keeps_rules]: "keeps (\<lambda>s. J (priv s)) (handle_sigsys E conf info)"
  unfolding handle_sigsys_def by (intro keeps_rules) (simp_all add: counters)

lemma keeps_sigill [keeps_rules]: "keeps (\<lambda>s. J (priv s)) (handle_sigill E conf)"
proof (rule keepsI)
  fix s :: machine assume J: "J (priv s)"
  let ?s = "s\<lparr>priv := (priv s)\<lparr>counter_ill := counter_ill (priv s) + 1\<rparr>\<rparr>"
  have J': "J (priv ?s)" using J by (simp add: counters)
  have "J (priv (outcome_state (enter_trap SCAUSE_ILLEGAL 0 ?s)))"
    using keeps_enter_trap J' unfolding keeps_def by blast
  moreover have "J (priv (outcome_state (handle_priv_instr E instr ?s)))" if "priv_mode (priv s) = PRIV_S" for instr
    using emulate [OF J'] that by simp
  ultimately show "J (priv (outcome_state (handle_sigill E conf s)))"
    using J J' by (auto simp: handle_sigill_def outcome_state_andthen deref_apply load_apply print_apply
        split: option.split outcome.split)
qed

lemma keeps_sigalrm [keeps_rules]: "keeps (\<lambda>s. J (priv s)) (handle_sigalrm E conf)"
  unfolding handle_sigalrm_def
  by (intro keeps_rules TrueI) (use timer [of _ True] in simp_all)

lemma keeps_fault_cause [keeps_rules]: "keeps (\<lambda>s. J (priv s)) (fault_cause E info)"
  unfolding fault_cause_def by (intro keeps_rules TrueI)

lemma keeps_sigsegv [keeps_rules]: "keeps (\<lambda>s. J (priv s)) (handle_sigsegv E conf info)"
  unfolding handle_sigsegv_def by (intro keeps_rules) (simp_all add: counters)

lemma keeps_take_interrupt [keeps_rules]: "keeps (\<lambda>s. J (priv s)) (take_interrupt E)"
  unfolding take_interrupt_def by (intro keeps_rules TrueI)

lemma keeps_handle_signal [keeps_rules]: "keeps (\<lambda>s. J (priv s)) (handle_signal E conf sig info)"
  unfolding handle_signal_def by (intro keeps_rules)

end

interpretation guest: signal_inv "guest_inv cfg" for cfg
proof unfold_locales
  fix s :: machine and E instr assume "guest_inv cfg (priv s)"
  then show "guest_inv cfg (priv (outcome_state (handle_priv_instr E instr s)))"
    using guest_csr.keeps_handle_priv_instr [of cfg E instr] unfolding keeps_def by blast
qed (simp_all add: guest_inv_def sti_inv trap_priv_inv)

text \<open>
  The mappings of the guest are those of the current privilege mode and \<open>satp\<close>, or their
  removal has been requested.
\<close>

definition vm_inv :: "u64 \<Rightarrow> u64 \<Rightarrow> priv_state \<Rightarrow> bool" where
  "vm_inv m a p \<longleftrightarrow> should_clear_vm p \<or> (priv_mode p = m \<and> satp p = a)"

interpretation clearing: csr_inv should_clear_vm
  by unfold_locales (simp_all add: sret_priv_def Let_def)

interpretation vm_csr: csr_inv "vm_inv PRIV_S a" for a
  by unfold_locales (auto simp: vm_inv_def sret_priv_def Let_def)

interpretation vm: signal_inv "vm_inv m a" for m a
proof unfold_locales
  fix s :: machine and E instr assume J: "vm_inv m a (priv s)" and S: "priv_mode (priv s) = PRIV_S"
  show "vm_inv m a (priv (outcome_state (handle_priv_instr E instr s)))"
  proof (cases "should_clear_vm (priv s)")
    case True
    then show ?thesis
      using clearing.keeps_handle_priv_instr [of E instr] unfolding keeps_def vm_inv_def by blast
  next
    case False
    then have "m = PRIV_S" using J S by (simp add: vm_inv_def)
    then show ?thesis
      using J vm_csr.keeps_handle_priv_instr [of a E instr] unfolding keeps_def by blast
  qed
qed (auto simp: vm_inv_def)

section \<open>The end of the handler\<close>

definition conf_call :: ecall where
  "conf_call = Ecall SYS_mmap [Reg 0, Reg CONF_SIZE, int_arg (PROT_READ OR PROT_WRITE),
     int_arg MAP_SHARED, int_arg CONFIG_FD, Reg 0]"

definition flush_calls :: "priv_state \<Rightarrow> ecall list" where
  "flush_calls p = [Ecall SYS_munmap [Reg 0, Reg (stub_start p)],
     Ecall SYS_munmap [Reg (stub_start p + stub_size p), Reg (2 ^ 38 - (stub_start p + stub_size p))]]"

lemma clear_vm_apply:
  "clear_vm E s = Ok () (s\<lparr>trace := trace s @ (if should_clear_vm (priv s) then flush_calls (priv s) else []),
     priv := (priv s)\<lparr>should_clear_vm := False\<rparr>\<rparr>)"
  by (simp add: clear_vm_def flush_calls_def Let_def)

definition interrupted :: "machine \<Rightarrow> machine" where
  "interrupted s = (if interrupt_ready (priv s)
     then outcome_state (enter_trap SCAUSE_TIMER 0 (s\<lparr>trace := trace s @ [log_call ''timer interrupt taken'']\<rparr>))
     else s)"

lemma take_interrupt_apply: "take_interrupt E s = Ok () (interrupted s)"
  by (simp add: take_interrupt_def interrupted_def enter_trap_apply)

definition finish :: "u64 \<Rightarrow> machine \<Rightarrow> machine" where
  "finish conf s = s\<lparr>trace := trace s @ (if should_clear_vm (priv s) then flush_calls (priv s) else [])
       @ [Ecall SYS_munmap [Reg conf, Reg CONF_SIZE]],
     priv := (priv s)\<lparr>should_clear_vm := False\<rparr>\<rparr>"

lemma handler_apply:
  "handler E sig info s = (let t = trace s @ [conf_call]; conf = sysret E t
     in case handle_signal E conf sig info (s\<lparr>trace := t\<rparr>) of
          Ok _ s' \<Rightarrow> Ok () (finish conf (interrupted s'))
        | Stop e s' \<Rightarrow> Stop e s')"
  by (simp add: handler_def conf_call_def Let_def andthen_apply take_interrupt_apply clear_vm_apply finish_def
      split: outcome.split)

text \<open>When the architecture takes the timer interrupt.\<close>

definition isa_interrupt :: "isa \<Rightarrow> isa" where
  "isa_interrupt i = (if bit (csrs i Sip) 5 \<and> bit (csrs i Sie) 5
       \<and> (bit (csrs i Sstatus) 1 \<or> mode i = U_mode)
     then isa_trap 0x8000000000000005 0 i else i)"

lemma get_one_bit: "bf_get n 1 w \<noteq> 0 \<longleftrightarrow> bit w n"
proof -
  have "bf_get n 1 w = of_bool (bit w n)"
    by (rule bit_word_eqI) (auto simp: bit_bf_get bit_simps)
  then show ?thesis by simp
qed

lemma interrupt_ready_isa:
  assumes "priv_inv (priv s)"
  shows "interrupt_ready (priv s) \<longleftrightarrow> bit (csrs (abs_isa s) Sip) 5 \<and> bit (csrs (abs_isa s) Sie) 5
     \<and> (bit (csrs (abs_isa s) Sstatus) 1 \<or> mode (abs_isa s) = U_mode)"
proof -
  have "priv_mode (priv s) < PRIV_S \<longleftrightarrow> mode (abs_isa s) = U_mode"
    using assms by (auto simp: priv_inv_def abs_isa_def riscv_const)
  then show ?thesis
    using get_one_bit by (simp add: interrupt_ready_def field_defs abs_isa_def)
qed

lemma interrupted_isa:
  assumes "priv_inv (priv s)"
  shows "abs_isa (interrupted s) = isa_interrupt (abs_isa s)"
    "should_clear_vm (priv (interrupted s)) \<longleftrightarrow> should_clear_vm (priv s) \<or> interrupt_ready (priv s)"
    "guest_inv (config_of (priv s)) (priv (interrupted s))"
proof -
  let ?t = "s\<lparr>trace := trace s @ [log_call ''timer interrupt taken'']\<rparr>"
  obtain s' where e: "enter_trap SCAUSE_TIMER 0 ?t = Ok () s'"
    and a: "abs_isa s' = isa_trap SCAUSE_TIMER 0 (abs_isa s)" "should_clear_vm (priv s')"
    using enter_trap_isa [of ?t SCAUSE_TIMER 0] assms by auto
  have c: "SCAUSE_TIMER = 0x8000000000000005" by (simp add: riscv_const)
  show "abs_isa (interrupted s) = isa_interrupt (abs_isa s)"
    using a e by (auto simp: interrupted_def isa_interrupt_def interrupt_ready_isa [OF assms] c)
  show "should_clear_vm (priv (interrupted s)) \<longleftrightarrow> should_clear_vm (priv s) \<or> interrupt_ready (priv s)"
    using a e by (simp add: interrupted_def)
  show "guest_inv (config_of (priv s)) (priv (interrupted s))"
    using assms guest.keeps_enter_trap [of "config_of (priv s)" SCAUSE_TIMER 0]
    by (auto simp: interrupted_def keeps_def guest_inv_def)
qed

lemma abs_isa_finish [simp]: "abs_isa (finish conf s) = abs_isa s"
  by (simp add: finish_def abs_isa_def cong: if_cong)


lemma handler_isa:
  assumes "handle_signal E (sysret E (trace s @ [conf_call])) sig info (s\<lparr>trace := trace s @ [conf_call]\<rparr>) = Ok () s2"
    and "priv_inv (priv s2)"
  shows "\<exists>s'. handler E sig info s = Ok () s' \<and> abs_isa s' = isa_interrupt (abs_isa s2)"
  using assms by (simp add: handler_apply interrupted_isa)

lemma handler_guest:
  assumes "priv_inv (priv s)" and "handler E sig info s = Ok () s'"
  shows "priv_inv (priv s') \<and> config_of (priv s') = config_of (priv s) \<and> \<not> should_clear_vm (priv s')"
proof -
  let ?t = "trace s @ [conf_call]"
  obtain u s2 where s2: "handle_signal E (sysret E ?t) sig info (s\<lparr>trace := ?t\<rparr>) = Ok u s2"
    and s': "s' = finish (sysret E ?t) (interrupted s2)"
    using assms(2) by (auto simp: handler_apply Let_def split: outcome.splits)
  have "guest_inv (config_of (priv s)) (priv s2)"
    using keepsD [OF guest.keeps_handle_signal _ s2] assms(1) by (simp add: guest_inv_def)
  then have "guest_inv (config_of (priv s)) (priv (interrupted s2))"
    using interrupted_isa(3) [of s2] by (simp add: guest_inv_def)
  then show ?thesis by (simp add: s' finish_def guest_inv_def)
qed

lemma change_flushes:
  assumes "handler E sig info s = Ok () s'"
    and "priv_mode (priv s') \<noteq> priv_mode (priv s) \<or> satp (priv s') \<noteq> satp (priv s)"
  shows "\<exists>t. trace s' = t @ flush_calls (priv s') @
    [Ecall SYS_munmap [Reg (sysret E (trace s @ [conf_call])), Reg CONF_SIZE]]"
proof -
  let ?t = "trace s @ [conf_call]"
  let ?J = "vm_inv (priv_mode (priv s)) (satp (priv s))"
  obtain u s2 where s2: "handle_signal E (sysret E ?t) sig info (s\<lparr>trace := ?t\<rparr>) = Ok u s2"
    and s': "s' = finish (sysret E ?t) (interrupted s2)"
    using assms(1) by (auto simp: handler_apply Let_def split: outcome.splits)
  have "?J (priv s2)"
    using keepsD [OF vm.keeps_handle_signal _ s2] by (simp add: vm_inv_def)
  then have "?J (priv (interrupted s2))"
    using keepsD [OF vm.keeps_take_interrupt _ take_interrupt_apply] by blast
  then have "should_clear_vm (priv (interrupted s2))"
    using assms(2) by (auto simp: vm_inv_def s' finish_def)
  then show ?thesis by (simp add: s' finish_def flush_calls_def)
qed

section \<open>Properties\<close>

lemma csr_get_counters [simp]:
  "csr_get c (p\<lparr>counter_ill := v\<rparr>) = csr_get c p" "csr_get c (p\<lparr>counter_uecall := v\<rparr>) = csr_get c p"
  "csr_get c (p\<lparr>counter_secall := v\<rparr>) = csr_get c p" "csr_get c (p\<lparr>counter_segv := v\<rparr>) = csr_get c p"
  by (cases c; simp)+

lemma abs_isa_counter: "abs_isa (s\<lparr>trace := t, priv := (priv s)\<lparr>counter_ill := v\<rparr>\<rparr>) = abs_isa s"
  by (simp add: abs_isa_def cong: if_cong)

lemma opcode_byte:
  assumes "ins_opcode w = 0x73"
  shows "(ucast w :: u8) AND 3 = 3" "(ucast w :: u8) AND 31 \<noteq> 31"
proof -
  have "bit (ins_opcode w) n \<longleftrightarrow> n < 7 \<and> bit w n" for n
    by (auto simp: field_defs bit_ins_bitfield)
  then have b: "n < 7 \<Longrightarrow> bit w n = bit (0x73 :: u32) n" for n
    using assms by metis
  have 3: "(3 :: u8) = mask 2" by (simp add: mask_eq_decr_exp)
  show "(ucast w :: u8) AND 3 = 3"
    unfolding 3 using b [of 0] b [of 1]
    by (intro bit_word_eqI) (auto simp: bit_simps dest!: less_2_cases)
  show "(ucast w :: u8) AND 31 \<noteq> 31"
  proof
    assume "(ucast w :: u8) AND 31 = 31"
    then have "bit ((ucast w :: u8) AND 31) 2 = bit (31 :: u8) 2" by simp
    then show False using b [of 2] by (simp add: bit_simps)
  qed
qed

lemma encode_opcode: "ins_opcode (encode i) = 0x73"
proof (cases i)
  case Wfi
  then show ?thesis by (simp add: field_defs ins_bitfield_def enc_def)
next
  case Sret
  then show ?thesis by (simp add: field_defs ins_bitfield_def enc_def)
qed (simp_all add: encode_csr_fields encode_sfence_fields del: encode.simps)

lemma user_ecall_run:
  assumes "priv_mode (priv s) = PRIV_U" and "gregs s 10 \<noteq> 0xdeadbeefdeadbeef" and "\<not> is_err conf"
  shows "handle_signal E conf SIGSYS info s = enter_trap SCAUSE_UECALL 0
    (s\<lparr>priv := (priv s)\<lparr>counter_uecall := counter_uecall (priv s) + 1\<rparr>,
       gregs := (gregs s)(17 := si_syscall info, 0 := gregs s 0 - 4)\<rparr>)"
  using assms by (simp add: handle_signal_def handle_sigsys_def deref_apply Let_def riscv_const fun_upd_twist
      cong: if_cong)

text \<open>A flag of the configuration mapping that the theorems below share: it did not fail.\<close>

definition conf_mapped :: "env \<Rightarrow> machine \<Rightarrow> bool" where
  "conf_mapped E s \<longleftrightarrow> \<not> is_err (sysret E (trace s @ [conf_call]))"

lemma no_interrupt: "\<not> bit (csrs i Sie) 5 \<Longrightarrow> isa_interrupt i = i"
  by (simp add: isa_interrupt_def)

lemma handler_quiet:
  assumes "handle_signal E (sysret E (trace s @ [conf_call])) sig info (s\<lparr>trace := trace s @ [conf_call]\<rparr>) = Ok () s2"
    and "priv_inv (priv s2)" and "\<not> bit (csrs (abs_isa s2) Sie) 5"
  shows "handler E sig info s = Ok () (finish (sysret E (trace s @ [conf_call])) s2)"
  using assms interrupt_ready_isa [OF assms(2)] by (simp add: handler_apply interrupted_def)

lemma sigill_run:
  assumes "priv_inv (priv s)" and "priv_mode (priv s) = PRIV_S" and "conf_mapped E s"
    and "read32 (gmem E (trace s @ [conf_call])) (gregs s 0) = Some (encode i)"
  shows "\<exists>s2. handle_signal E (sysret E (trace s @ [conf_call])) SIGILL info (s\<lparr>trace := trace s @ [conf_call]\<rparr>) = Ok () s2
    \<and> abs_isa s2 = isa_exec i (abs_isa s) \<and> guest_inv (config_of (priv s)) (priv s2)
    \<and> should_clear_vm (priv s2) = (should_clear_vm (priv s) \<or> flushes i (abs_isa s)) \<and> trace s2 = trace s @ [conf_call]"
proof -
  let ?t = "trace s @ [conf_call]"
  let ?s = "s\<lparr>trace := ?t, priv := (priv s)\<lparr>counter_ill := counter_ill (priv s) + 1\<rparr>\<rparr>"
  have "read8 (gmem E ?t) (gregs s 0) = Some (ucast (encode i))"
    using assms(4) read32_byte unfolding read8_def by blast
  then have "handle_signal E (sysret E ?t) SIGILL info (s\<lparr>trace := ?t\<rparr>) = handle_priv_instr E (encode i) ?s"
    using assms(2-4) opcode_byte [OF encode_opcode]
    by (simp add: handle_signal_def handle_sigill_def conf_mapped_def deref_apply load_apply SIGILL_def SIGSYS_def
        del: encode.simps)
  moreover obtain s2 where s2: "handle_priv_instr E (encode i) ?s = Ok () s2" "abs_isa s2 = isa_exec i (abs_isa ?s)"
      "should_clear_vm (priv s2) = (should_clear_vm (priv ?s) \<or> flushes i (abs_isa ?s))" "trace s2 = ?t"
    using handle_priv_instr_isa [of E i ?s] by auto
  moreover have "guest_inv (config_of (priv s)) (priv s2)"
    using keepsD [OF guest_csr.keeps_handle_priv_instr _ s2(1), of "config_of (priv s)"] assms(1)
    by (simp add: guest_inv_def)
  ultimately show ?thesis by (simp add: abs_isa_counter del: encode.simps)
qed

lemma user_ecall_enters:
  assumes "priv_inv (priv s)" and "priv_mode (priv s) = PRIV_U"
    and "gregs s 10 \<noteq> 0xdeadbeefdeadbeef" and "conf_mapped E s"
  shows "\<exists>s2. handle_signal E (sysret E (trace s @ [conf_call])) SIGSYS info (s\<lparr>trace := trace s @ [conf_call]\<rparr>) = Ok () s2
    \<and> abs_isa s2 = isa_trap 8 0 (abs_isa s\<lparr>pc := gregs s 0 - 4, xregs := (xregs (abs_isa s))(17 := si_syscall info)\<rparr>)
    \<and> guest_inv (config_of (priv s)) (priv s2) \<and> should_clear_vm (priv s2) \<and> trace s2 = trace s @ [conf_call]"
proof -
  let ?t = "trace s @ [conf_call]"
  let ?s = "s\<lparr>trace := ?t, priv := (priv s)\<lparr>counter_uecall := counter_uecall (priv s) + 1\<rparr>,
       gregs := (gregs s)(17 := si_syscall info, 0 := gregs s 0 - 4)\<rparr>"
  have "handle_signal E (sysret E ?t) SIGSYS info (s\<lparr>trace := ?t\<rparr>) = enter_trap SCAUSE_UECALL 0 ?s"
    using user_ecall_run [of "s\<lparr>trace := ?t\<rparr>"] assms by (simp add: conf_mapped_def)
  moreover obtain s2 where s2: "enter_trap SCAUSE_UECALL 0 ?s = Ok () s2"
    and a: "abs_isa s2 = isa_trap SCAUSE_UECALL 0 (abs_isa ?s)" "should_clear_vm (priv s2)" "trace s2 = ?t"
    using enter_trap_isa [of ?s SCAUSE_UECALL 0] assms(1) by auto
  moreover have "guest_inv (config_of (priv s)) (priv s2)"
    using keepsD [OF guest.keeps_enter_trap _ s2, of "config_of (priv s)"] assms(1) by (simp add: guest_inv_def)
  moreover have "abs_isa ?s = abs_isa s\<lparr>pc := gregs s 0 - 4, xregs := (xregs (abs_isa s))(17 := si_syscall info)\<rparr>"
    by (auto simp: abs_isa_def fun_eq_iff word_unat_eq_iff csr_get_counters)
  moreover have "SCAUSE_UECALL = 8" by (simp add: riscv_const)
  ultimately show ?thesis by metis
qed

lemma kernel_ecall_run:
  assumes "priv_mode (priv s) = PRIV_S" and "gregs s 10 \<noteq> 0xdeadbeefdeadbeef" and "\<not> is_err conf"
  shows "handle_signal E conf SIGSYS info s =
    (case handle_legacy_sbi_call E (si_syscall info) (gregs s 10) (gregs s 11) (gregs s 12)
       (s\<lparr>gregs := (gregs s)(17 := si_syscall info), priv := (priv s)\<lparr>counter_secall := counter_secall (priv s) + 1\<rparr>\<rparr>) of
       Ok r s2 \<Rightarrow> Ok () (s2\<lparr>gregs := (gregs s2)(10 := r)\<rparr>) | Stop e s2 \<Rightarrow> Stop e s2)"
  using assms by (simp add: handle_signal_def handle_sigsys_def deref_apply Let_def andthen_apply SIGSYS_def
      split: outcome.split)

definition no_info :: siginfo where
  "no_info = \<lparr>si_code = 0, si_addr = 0, si_syscall = 64\<rparr>"

lemma user_machine_facts:
  "priv_inv (priv user_machine)" "priv_mode (priv user_machine) = PRIV_U" "gregs user_machine 10 \<noteq> 0xdeadbeefdeadbeef"
  "conf_mapped sample_env user_machine" "gregs user_machine 0 = 0x1000" "sip (priv user_machine) = 0"
  using paged_inv(2)
  by (simp_all add: user_machine_def conf_mapped_def sample_env_def is_err_def paged_machine_def sample_priv_def
      initialize_priv_def Let_def)




text \<open>A guest kernel about to run \<open>csrw satp, a0\<close>.\<close>

definition csrw_env :: env where
  "csrw_env = idle_env\<lparr>gmem := (\<lambda>_ a. map_of [(0, 0x73), (1, 0x10), (2, 0x05), (3, 0x18)] a)\<rparr>"

lemma csrw_instr:
  "read32 (gmem csrw_env (trace sample_machine @ [conf_call])) (gregs sample_machine 0) = Some (encode (Csr RW (Xreg 10) Satp 0))"
  by (simp add: csrw_env_def sample_machine_def read32_def read16_def enc_def)

lemma sample_machine_facts: "priv_mode (priv sample_machine) = PRIV_S" "conf_mapped csrw_env sample_machine"
  by (simp_all add: sample_machine_def sample_priv_def initialize_priv_def Let_def conf_mapped_def csrw_env_def
      idle_env_def is_err_def)


lemma user_ecall_returns:
  assumes "conf_mapped E user_machine"
  shows "\<exists>s'. handler E SIGSYS no_info user_machine = Ok () s' \<and> priv_mode (priv s') = PRIV_S
    \<and> stub_start (priv s') = 0x3000000000 \<and> stub_size (priv s') = 0x9000
    \<and> trace s' = [conf_call] @ flush_calls (priv s') @ [Ecall SYS_munmap [Reg (sysret E [conf_call]), Reg CONF_SIZE]]"
proof -
  let ?s = "user_machine\<lparr>trace := trace user_machine @ [conf_call]\<rparr>"
  have r: "handle_signal E (sysret E (trace user_machine @ [conf_call])) SIGSYS no_info ?s =
      enter_trap SCAUSE_UECALL 0 (?s\<lparr>priv := (priv ?s)\<lparr>counter_uecall := counter_uecall (priv ?s) + 1\<rparr>,
       gregs := (gregs ?s)(17 := si_syscall no_info, 0 := gregs ?s 0 - 4)\<rparr>)"
    using user_ecall_run [of ?s] user_machine_facts assms by (simp add: conf_mapped_def)
  have i: "\<not> interrupt_ready (trap_priv a c t p\<lparr>should_clear_vm := True\<rparr>)" if "sip p = 0" for a c t p
    using that trap_priv_csrs(1) [of Sip a c t p] by (simp add: interrupt_ready_def field_defs bf_get_def)
  have c: "stub_start (trap_priv a c t p) = stub_start p" "stub_size (trap_priv a c t p) = stub_size p" for a c t p
    using config_of_simps(20) [of a c t p] by (simp_all add: config_of_def)
  have u: "stub_start (priv user_machine) = 0x3000000000" "stub_size (priv user_machine) = 0x9000" "trace user_machine = []"
    by (simp_all add: user_machine_def paged_machine_def sample_machine_def sample_priv_def initialize_priv_def Let_def)
  show ?thesis
    unfolding handler_apply Let_def r enter_trap_apply
    by (simp add: finish_def interrupted_def i user_machine_facts(6) trap_priv_csrs c u flush_calls_def)
qed

text \<open>
  C18: the timer signal sets the pending bit of \<open>sip\<close> and, if the guest's enable bits allow it,
  takes the interrupt of the architecture before the guest goes on; otherwise the guest goes
  on where it was.
\<close>

theorem timer_tick:
  assumes "priv_inv (priv s)" and "conf_mapped E s" and "si_code info = SI_TIMER"
  shows "\<exists>s'. handler E SIGALRM info s = Ok () s' \<and> abs_isa s' = isa_interrupt
    (abs_isa s\<lparr>csrs := (csrs (abs_isa s))(Sip := put_bit 5 True (csrs (abs_isa s) Sip))\<rparr>)"
proof -
  let ?t = "trace s @ [conf_call]"
  have sti: "set_six_sti w 1 = put_bit 5 True w" for w
    using bit_sti [of _ w True] by (auto intro!: bit_word_eqI simp: bit_put_bit)
  have "\<exists>u. handle_signal E (sysret E ?t) SIGALRM info (s\<lparr>trace := ?t\<rparr>) =
      Ok () (s\<lparr>priv := (priv s)\<lparr>sip := put_bit 5 True (sip (priv s))\<rparr>, trace := u\<rparr>)"
    using assms(2,3) by (cases "priv_mode (priv s) = PRIV_S")
      (auto simp: handle_signal_def handle_sigalrm_def conf_mapped_def deref_apply sti
        SIGALRM_def SIGSYS_def SIGILL_def)
  then obtain u where s2: "handle_signal E (sysret E ?t) SIGALRM info (s\<lparr>trace := ?t\<rparr>) =
      Ok () (s\<lparr>priv := (priv s)\<lparr>sip := put_bit 5 True (sip (priv s))\<rparr>, trace := u\<rparr>)" (is "_ = Ok () ?s")
    by blast
  have "priv_inv (priv ?s)"
    using sti_inv [OF assms(1), of True] by (simp add: sti)
  then obtain s' where "handler E SIGALRM info s = Ok () s'" "abs_isa s' = isa_interrupt (abs_isa ?s)"
    using handler_isa [OF s2] by blast
  moreover have "abs_isa ?s = abs_isa s\<lparr>csrs := (csrs (abs_isa s))(Sip := put_bit 5 True (csrs (abs_isa s) Sip))\<rparr>"
  proof -
    have "csr_get c (p\<lparr>sip := v\<rparr>) = (if c = Sip then v else csr_get c p)" for c p v by (cases c) simp_all
    then show ?thesis by (auto simp: abs_isa_def fun_eq_iff)
  qed
  ultimately show ?thesis by metis
qed

theorem timer_tick_witness:
  "\<exists>s'. handler csrw_env SIGALRM (no_info\<lparr>si_code := SI_TIMER\<rparr>) sample_machine = Ok () s' \<and>
   abs_isa s' = isa_interrupt (abs_isa sample_machine\<lparr>csrs := (csrs (abs_isa sample_machine))
     (Sip := put_bit 5 True (csrs (abs_isa sample_machine) Sip))\<rparr>)"
  using timer_tick [OF sample_inv sample_machine_facts(2), of "no_info\<lparr>si_code := SI_TIMER\<rparr>"] by simp

definition c_access :: "u16 \<Rightarrow> u64 option" where
  "c_access w = (let op = unat w mod 4; f3 = unat w div 2 ^ 13
     in if op \<in> {0, 2} \<and> f3 \<in> {1, 2, 3} then Some 13
        else if op \<in> {0, 2} \<and> f3 \<in> {5, 6, 7} then Some 15 else None)"

lemma c_access_tests:
  "rvc_looks_like_load w \<longleftrightarrow> c_access w = Some 13" "rvc_looks_like_store w \<longleftrightarrow> c_access w = Some 15"
proof -
  have m: "(3 :: u16) = mask 2" by (simp add: mask_eq_decr_exp)
  have "w AND 3 = take_bit 2 w" by (simp only: m take_bit_eq_mask)
  then have o: "unat (w AND 3) = unat w mod 4"
    by (simp add: unsigned_take_bit_eq take_bit_nat_def)
  have f: "unat (drop_bit 13 w) = unat w div 2 ^ 13"
    by (simp add: unat_drop_bit_eq drop_bit_nat_def)
  have r: "rvc_looks_like_load w \<longleftrightarrow> unat w mod 4 \<in> {0, 2} \<and> unat w div 2 ^ 13 \<in> {1, 2, 3}"
    "rvc_looks_like_store w \<longleftrightarrow> unat w mod 4 \<in> {0, 2} \<and> unat w div 2 ^ 13 \<in> {5, 6, 7}"
    unfolding rvc_looks_like_load_def rvc_looks_like_store_def Let_def word_unat_eq_iff [of "w AND 3"]
      word_unat_eq_iff [of "drop_bit 13 w"] o f by simp_all
  show "rvc_looks_like_load w \<longleftrightarrow> c_access w = Some 13" "rvc_looks_like_store w \<longleftrightarrow> c_access w = Some 15"
    unfolding r c_access_def Let_def by auto
qed

lemma byte_low_bits:
  "(ucast (w :: u32) :: u8) AND 3 = 3 \<longleftrightarrow> bit w 0 \<and> bit w 1"
  "(ucast (h :: u16) :: u8) AND 3 = 3 \<longleftrightarrow> bit h 0 \<and> bit h 1"
proof -
  have m: "(3 :: u8) = mask 2" by (simp add: mask_eq_decr_exp)
  have "b AND 3 = 3 \<longleftrightarrow> bit b 0 \<and> bit b 1" for b :: u8
    unfolding m bit_eq_iff
    by (auto simp: bit_simps dest!: less_2_cases dest: spec [of _ 0] spec [of _ "Suc 0"])
  then show "(ucast (w :: u32) :: u8) AND 3 = 3 \<longleftrightarrow> bit w 0 \<and> bit w 1"
    "(ucast (h :: u16) :: u8) AND 3 = 3 \<longleftrightarrow> bit h 0 \<and> bit h 1"
    by (simp_all add: bit_simps)
qed

lemma byte_opcode: "ucast ((ucast w :: u8) AND 0b1111111) = ins_opcode w"
proof -
  have m: "(0b1111111 :: u8) = mask 7" by (simp add: mask_eq_decr_exp)
  show ?thesis
    unfolding m by (rule bit_word_eqI) (auto simp: bit_simps field_defs bit_ins_bitfield)
qed


text \<open>
  C26: the cause of a page fault.  A fault at the program counter is an instruction page fault;
  otherwise a 32-bit load is a load page fault, a 32-bit store or atomic operation a store page
  fault, and a compressed instruction is told apart as the compressed instruction set
  defines its loads and stores.
\<close>

theorem fault_cause_correct:
  "(si_addr info = gregs s 0 \<longrightarrow> fault_cause E info s = Ok 12 s)
   \<and> (si_addr info \<noteq> gregs s 0 \<longrightarrow>
     (\<forall>w. read32 (gmem E (trace s)) (gregs s 0) = Some w \<longrightarrow>
        (ins_opcode w = 0x03 \<longrightarrow> fault_cause E info s = Ok 13 s)
        \<and> (ins_opcode w = 0x23 \<or> ins_opcode w = 0x2f \<longrightarrow> fault_cause E info s = Ok 15 s))
     \<and> (\<forall>h cause. read16 (gmem E (trace s)) (gregs s 0) = Some h \<longrightarrow> c_access h = Some cause \<longrightarrow>
        fault_cause E info s = Ok cause s))"
proof -
  have 32: "fault_cause E info s = Ok (if ins_opcode w = 0x03 then 13 else 15) s"
    if "si_addr info \<noteq> gregs s 0" "read32 (gmem E (trace s)) (gregs s 0) = Some w"
      "ins_opcode w \<in> {0x03, 0x23, 0x2f}" for w
  proof -
    have "bit (ins_opcode w) n \<longleftrightarrow> n < 7 \<and> bit w n" for n
      by (auto simp: field_defs bit_ins_bitfield)
    from this [of 0] this [of 1] have "bit w 0 \<and> bit w 1"
      using that(3) by auto
    then show ?thesis
      using that read32_byte [OF that(2)] byte_opcode [of w]
      by (auto simp: fault_cause_def load_apply read8_def byte_low_bits riscv_const Let_def)
  qed
  have 16: "fault_cause E info s = Ok cause s"
    if "si_addr info \<noteq> gregs s 0" "read16 (gmem E (trace s)) (gregs s 0) = Some h" "c_access h = Some cause" for h cause
  proof -
    have "(ucast h :: u8) AND 3 \<noteq> 3"
    proof -
      have "unat h mod 4 = 0 \<or> unat h mod 4 = 2"
        using that(3) by (auto simp: c_access_def Let_def split: if_splits)
      then have "even (unat h)" by presburger
      then have "\<not> bit h 0" using bit_unsigned_iff [of h 0, where ?'a = nat] by (simp add: bit_0 [where ?'a = nat])
      then show ?thesis by (simp add: byte_low_bits)
    qed
    moreover have "cause = 13 \<or> cause = 15"
      using that(3) by (auto simp: c_access_def Let_def split: if_splits)
    ultimately show ?thesis
      using that c_access_tests [of h] read16_byte [OF that(2)]
      by (auto simp: fault_cause_def load_apply read8_def riscv_const)
  qed
  have "si_addr info = gregs s 0 \<Longrightarrow> fault_cause E info s = Ok 12 s"
    by (simp add: fault_cause_def riscv_const)
  with 32 16 show ?thesis by auto
qed


theorem fault_cause_correct_witness:
  "fault_cause sd_env (no_info\<lparr>si_addr := 0x3000\<rparr>) user_machine = Ok 15 user_machine"
proof -
  have "read32 (gmem sd_env (trace user_machine)) (gregs user_machine 0) = Some (sd_instr 0 10 11 0)"
    by (simp add: sd_env_def user_machine_def read32_def read16_def sd_instr_def enc_def)
  then show ?thesis
    using fault_cause_correct [of "no_info\<lparr>si_addr := 0x3000\<rparr>" user_machine sd_env] sd_instr_fields(1)
    by (simp add: user_machine_facts(5))
qed

text \<open>
  C36: floating point loads and stores have opcodes of their own, which the classification does
  not know: a page fault of one is reported to the guest as an instruction page fault, although
  the guest is told that the floating point unit is on.
\<close>

theorem fp_fault_misreported:
  assumes "si_addr info \<noteq> gregs s 0" and "read32 (gmem E (trace s)) (gregs s 0) = Some w"
    and "ins_opcode w = 0x07 \<or> ins_opcode w = 0x27"
  shows "fault_cause E info s = Ok SCAUSE_INSTR_PF
    (s\<lparr>trace := trace s @ [log_call ''weird 32-bit instruction page fault, assuming instr page fault'']\<rparr>)"
proof -
  have "bit (ins_opcode w) n \<longleftrightarrow> n < 7 \<and> bit w n" for n
    by (auto simp: field_defs bit_ins_bitfield)
  from this [of 0] this [of 1] have "bit w 0 \<and> bit w 1"
    using assms(3) by auto
  then show ?thesis
    using assms read32_byte [OF assms(2)] byte_opcode [of w]
    by (auto simp: fault_cause_def load_apply read8_def byte_low_bits riscv_const Let_def)
qed

theorem fp_fault_misreported_witness:
  "fault_cause (idle_env\<lparr>gmem := (\<lambda>_ a. map_of [(0x1000, 0x07), (0x1001, 0x30), (0x1002, 0x05), (0x1003, 0)] a)\<rparr>)
     (no_info\<lparr>si_addr := 0x3000\<rparr>) user_machine = Ok SCAUSE_INSTR_PF (user_machine\<lparr>trace :=
       trace user_machine @ [log_call ''weird 32-bit instruction page fault, assuming instr page fault'']\<rparr>)"
proof -
  let ?E = "idle_env\<lparr>gmem := (\<lambda>_ a. map_of [(0x1000, 0x07), (0x1001, 0x30), (0x1002, 0x05), (0x1003, 0)] a)\<rparr>"
  have r: "read32 (gmem ?E (trace user_machine)) (gregs user_machine 0) = Some 0x00053007"
    by (simp add: user_machine_def read32_def read16_def)
  have o: "ins_opcode 0x00053007 = 0x07 \<or> ins_opcode 0x00053007 = 0x27"
    by (simp add: field_defs ins_bitfield_def)
  show ?thesis
    using fp_fault_misreported [OF _ r o, of "no_info\<lparr>si_addr := 0x3000\<rparr>"] by (simp add: user_machine_facts(5))
qed

section \<open>The virtual machine as a transition system\<close>

text \<open>
  Between two signals the guest runs natively and may leave any values in its registers; its
  memory is part of the environment.  A signal runs the handler; one that does not return ends
  the run.
\<close>

inductive reachable :: "env \<Rightarrow> machine \<Rightarrow> machine \<Rightarrow> bool" for E s0 where
  start: "reachable E s0 s0"
| run: "reachable E s0 s \<Longrightarrow> reachable E s0 (s\<lparr>gregs := g\<rparr>)"
| signal: "reachable E s0 s \<Longrightarrow> handler_wrapper E sig info s = Ok () s' \<Longrightarrow> reachable E s0 s'"

lemma handler_wrapper_apply:
  "handler_wrapper E sig info s = (case handler E sig info s of
     Ok _ s' \<Rightarrow> Ok () (s'\<lparr>trace := trace s' @ [Ecall SYS_rt_sigreturn []]\<rparr>) | Stop e s' \<Rightarrow> Stop e s')"
  by (simp add: handler_wrapper_def andthen_apply ecall_apply split: outcome.split)

lemma reachable_inv:
  assumes "reachable E s0 s" and "priv_inv (priv s0)" and "\<not> should_clear_vm (priv s0)"
  shows "priv_inv (priv s) \<and> config_of (priv s) = config_of (priv s0) \<and> \<not> should_clear_vm (priv s)"
  using assms
proof (induction rule: reachable.induct)
  case (signal s sig info s')
  then obtain s1 where "handler E sig info s = Ok () s1" "priv s' = priv s1"
    by (auto simp: handler_wrapper_apply split: outcome.splits)
  then show ?case using handler_guest [of s E sig info s1] signal by simp
qed simp_all

text \<open>
  C10: every state of every run is well-formed.  From a well-formed start without a pending
  removal, after any number of native steps and handled signals in any order, the privileged
  state is well-formed, the configuration is the one at the start and no removal is pending.
\<close>

theorem reachable_wellformed:
  assumes "reachable E s0 s" and "priv_inv (priv s0)" and "\<not> should_clear_vm (priv s0)"
  shows "priv_inv (priv s) \<and> config_of (priv s) = config_of (priv s0) \<and> \<not> should_clear_vm (priv s)"
  using assms by (rule reachable_inv)

theorem reachable_wellformed_witness:
  "\<exists>s. reachable sample_env user_machine s \<and> priv_mode (priv s) = PRIV_S \<and> priv_inv (priv s)
     \<and> config_of (priv s) = config_of (priv user_machine) \<and> \<not> should_clear_vm (priv s)"
proof -
  obtain s' where s': "handler sample_env SIGSYS no_info user_machine = Ok () s'" "priv_mode (priv s') = PRIV_S"
    using user_ecall_returns [OF user_machine_facts(4)] by blast
  have "\<not> should_clear_vm (priv user_machine)"
    by (simp add: user_machine_def paged_machine_def sample_priv_def initialize_priv_def Let_def)
  moreover have r: "reachable sample_env user_machine (s'\<lparr>trace := trace s' @ [Ecall SYS_rt_sigreturn []]\<rparr>)"
    by (rule signal [where sig = SIGSYS and info = no_info, OF start]) (simp add: handler_wrapper_apply s'(1))
  ultimately show ?thesis using reachable_wellformed [OF r user_machine_facts(1)] s'(2) r by fastforce
qed

end
