(* ===== verification/Address_Space.thy ===== *)
theory Address_Space
  imports Stub
begin

text \<open>
  The address space of the process and what dropping the guest's mappings achieves.

  The interface \<open>linux_mm\<close> states what the stub relies on of \<open>munmap\<close>.  Its model replays the
  \<open>mmap\<close> and \<open>munmap\<close> calls of a trace with the results the kernel gave, starting from the
  addresses \<open>m0\<close> that were mapped before; a call that failed changes nothing.
\<close>

section \<open>The interface\<close>

abbreviation in_range :: "u64 \<Rightarrow> u64 \<Rightarrow> nat \<Rightarrow> bool" where
  "in_range a l x \<equiv> unat a \<le> x \<and> x < unat a + unat l"

locale linux_mm =
  fixes mapped :: "ecall list \<Rightarrow> nat \<Rightarrow> bool" and result :: "ecall list \<Rightarrow> u64"
  assumes unmapped: "result (t @ [Ecall SYS_munmap [Reg a, Reg l]]) = 0 \<Longrightarrow>
      mapped (t @ [Ecall SYS_munmap [Reg a, Reg l]]) x \<longleftrightarrow> mapped t x \<and> \<not> in_range a l x"
    and unmap_only: "mapped (t @ [Ecall SYS_munmap [Reg a, Reg l]]) x \<Longrightarrow> mapped t x"
begin

lemma flush:
  assumes "unat (stub_start p) + unat (stub_size p) \<le> 2 ^ 38" and "x < 2 ^ 38"
    and "\<And>t a l. result (t @ [Ecall SYS_munmap [Reg a, Reg l]]) = 0"
  shows "mapped (t @ flush_calls p) x \<longleftrightarrow> mapped t x \<and> in_range (stub_start p) (stub_size p) x"
proof -
  let ?e = "stub_start p + stub_size p"
  have e: "unat ?e = unat (stub_start p) + unat (stub_size p)"
    using assms(1) by (simp add: unat_word_ariths)
  moreover have "unat (2 ^ 38 - ?e) = 2 ^ 38 - unat ?e"
    using assms(1) e by (simp add: unat_sub_if')
  moreover have "mapped (t @ flush_calls p) x \<longleftrightarrow>
      mapped t x \<and> \<not> in_range 0 (stub_start p) x \<and> \<not> in_range ?e (2 ^ 38 - ?e) x"
  proof -
    have "t @ flush_calls p = (t @ [Ecall SYS_munmap [Reg 0, Reg (stub_start p)]])
        @ [Ecall SYS_munmap [Reg ?e, Reg (2 ^ 38 - ?e)]]"
      by (simp add: flush_calls_def)
    then show ?thesis by (simp only: unmapped [OF assms(3)] conj_assoc)
  qed
  ultimately show ?thesis using assms(1,2) by auto
qed

end

section \<open>Replaying a trace\<close>

fun mapped_rev :: "(nat \<Rightarrow> bool) \<Rightarrow> env \<Rightarrow> ecall list \<Rightarrow> nat \<Rightarrow> bool" where
  "mapped_rev m0 E [] x = m0 x"
| "mapped_rev m0 E (c # r) x =
     (case c of
        Ecall SYS_munmap [Reg a, Reg l] \<Rightarrow>
          mapped_rev m0 E r x \<and> \<not> (sysret E (rev (c # r)) = 0 \<and> in_range a l x)
      | Ecall SYS_mmap [Reg a, Reg l, prot, flags, fd, off] \<Rightarrow>
          mapped_rev m0 E r x \<or> (\<not> is_err (sysret E (rev (c # r))) \<and> in_range (sysret E (rev (c # r))) l x)
      | _ \<Rightarrow> mapped_rev m0 E r x)"

definition mapped_at :: "(nat \<Rightarrow> bool) \<Rightarrow> env \<Rightarrow> ecall list \<Rightarrow> nat \<Rightarrow> bool" where
  "mapped_at m0 E t x = mapped_rev m0 E (rev t) x"

text \<open>Only the results of the calls count.\<close>

lemma mapped_rev_cong: "sysret E = sysret E' \<Longrightarrow> mapped_rev m0 E r x = mapped_rev m0 E' r x"
  by (induction r) (simp_all split: ecall.split sysno.split list.split sysarg.split)

interpretation mm: linux_mm "mapped_at m0 E" "sysret E" for m0 E
  by unfold_locales (auto simp: mapped_at_def)

lemma mapped_mmap:
  "mapped_at m0 E (t @ [Ecall SYS_mmap [Reg a, Reg l, p, f, d, off]]) x \<longleftrightarrow> mapped_at m0 E t x \<or>
     (let r = sysret E (t @ [Ecall SYS_mmap [Reg a, Reg l, p, f, d, off]]) in \<not> is_err r \<and> in_range r l x)"
  by (simp add: mapped_at_def Let_def)

section \<open>Properties\<close>

text \<open>
  C1: no mapping of the guest survives a change of translation.  When a returning handler
  changed the privilege mode or \<open>satp\<close>, and the stub lies in the user half of the address
  space, then every address below \<open>2 ^ 38\<close> that is still mapped belongs to the stub, so user
  mode never runs on mappings made for the kernel, nor one address space on those of another.
\<close>

theorem stale_mappings_gone:
  assumes "handler E sig info s = Ok () s'"
    and "priv_mode (priv s') \<noteq> priv_mode (priv s) \<or> satp (priv s') \<noteq> satp (priv s)"
    and "unat (stub_start (priv s')) + unat (stub_size (priv s')) \<le> 2 ^ 38"
    and "\<forall>t a l. sysret E (t @ [Ecall SYS_munmap [Reg a, Reg l]]) = 0"
    and "x < 2 ^ 38" and "mapped_at m0 E (trace s') x"
  shows "unat (stub_start (priv s')) \<le> x \<and> x < unat (stub_start (priv s')) + unat (stub_size (priv s'))"
proof -
  obtain t where "trace s' = t @ flush_calls (priv s') @
      [Ecall SYS_munmap [Reg (sysret E (trace s @ [conf_call])), Reg CONF_SIZE]]"
    using change_flushes [OF assms(1,2)] by blast
  then have "mapped_at m0 E (t @ flush_calls (priv s')) x"
    using assms(6) mm.unmap_only [of m0 E "t @ flush_calls (priv s')"] by simp
  then show ?thesis
    using mm.flush [OF assms(3,5)] assms(4) by blast
qed

text \<open>A kernel that puts every mapping at one address and frees what it is asked to.\<close>

definition mm_env :: env where
  "mm_env = idle_env\<lparr>sysret := (\<lambda>t. case last t of Ecall n _ \<Rightarrow> if n = SYS_munmap then 0 else 0x2000000000)\<rparr>"

lemma mm_env_conf: "sysret mm_env [conf_call] = 0x2000000000" "conf_mapped mm_env user_machine"
  by (simp_all add: mm_env_def conf_call_def conf_mapped_def is_err_def user_machine_def paged_machine_def
      sample_machine_def)

lemma mm_env_unmap: "\<forall>t a l. sysret mm_env (t @ [Ecall SYS_munmap [Reg a, Reg l]]) = 0"
  by (simp add: mm_env_def)

theorem stale_mappings_gone_witness:
  "\<exists>s'. handler mm_env SIGSYS no_info user_machine = Ok () s' \<and> priv_mode (priv s') \<noteq> priv_mode (priv user_machine)
     \<and> mapped_at (\<lambda>_. True) mm_env (trace s') 0x3000000010
     \<and> unat (stub_start (priv s')) \<le> 0x3000000010
     \<and> 0x3000000010 < unat (stub_start (priv s')) + unat (stub_size (priv s'))"
proof -
  obtain s' where s': "handler mm_env SIGSYS no_info user_machine = Ok () s'" "priv_mode (priv s') = PRIV_S"
    "stub_start (priv s') = 0x3000000000" "stub_size (priv s') = 0x9000"
    "trace s' = ([conf_call] @ flush_calls (priv s')) @ [Ecall SYS_munmap [Reg 0x2000000000, Reg CONF_SIZE]]"
    using user_ecall_returns [OF mm_env_conf(2)] unfolding mm_env_conf(1) by auto
  have n: "priv_mode (priv s') \<noteq> priv_mode (priv user_machine)"
    using s'(2) user_machine_facts(2) by (simp add: riscv_const)
  have r: "unat (stub_start (priv s')) + unat (stub_size (priv s')) \<le> 2 ^ 38" using s'(3,4) by simp
  have "mapped_at (\<lambda>_. True) mm_env ([conf_call] @ flush_calls (priv s')) 0x3000000010"
    using mm.flush [OF r, of "0x3000000010" mm_env "\<lambda>_. True" "[conf_call]"] mm_env_unmap s'(3,4)
    by (simp add: mapped_at_def conf_call_def)
  then have "mapped_at (\<lambda>_. True) mm_env (trace s') 0x3000000010"
    using mm.unmapped [of mm_env "[conf_call] @ flush_calls (priv s')" "0x2000000000" CONF_SIZE "\<lambda>_. True" "0x3000000010"]
      mm_env_unmap [rule_format, of "[conf_call] @ flush_calls (priv s')"] by (simp add: s'(5) CONF_SIZE_def)
  then show ?thesis
    using stale_mappings_gone [OF s'(1) disjI1 [OF n] r mm_env_unmap] s'(1) n by simp
qed

text \<open>
  Dropping the guest's mappings never touches the stub: its code, data and signal stack stay
  mapped.
\<close>

lemma flush_keeps_stub:
  assumes "unat (stub_start (priv s)) + unat (stub_size (priv s)) \<le> 2 ^ 38"
    and "\<forall>t a l. sysret E (t @ [Ecall SYS_munmap [Reg a, Reg l]]) = 0"
    and "unat (stub_start (priv s)) \<le> x" and "x < unat (stub_start (priv s)) + unat (stub_size (priv s))"
    and "mapped_at m0 E (trace s) x"
  shows "\<exists>s'. clear_vm E s = Ok () s' \<and> mapped_at m0 E (trace s') x"
proof -
  have "mapped_at m0 E (trace s @ flush_calls (priv s)) x"
    using mm.flush [OF assms(1), of x E m0 "trace s"] assms by simp
  then show ?thesis using assms(5) by (simp add: clear_vm_apply)
qed

end
