(* ===== verification/Boot.thy ===== *)
theory Boot
  imports Seccomp Address_Space
begin

text \<open>
  Startup of the stub: \<open>entrypoint\<close> and \<open>entrypoint_1\<close> of
  \<^verbatim>\<open>src/src/urvirt-stub/urvirt-stub.c\<close> (\<open>entrypoint_1\<close> lines 182 to 284, \<open>entrypoint\<close> lines 286 to 345).

  The loader jumps to \<open>entrypoint\<close>, which unmaps everything but the stub and moves to its own
  stack; \<open>entrypoint_1\<close> installs the signal handlers, the timer and the system call filter,
  copies the guest kernel into RAM, sets up the privileged state and jumps to the kernel.

  The state is the machine of the signal handler and the bytes that were stored to guest RAM.
  The configuration page, which both functions map several times, is the record \<open>priv\<close>.
\<close>

section \<open>Definitions\<close>

text \<open>The values of the Linux headers.\<close>

definition STDIN_FILENO :: u32 where [riscv_const]: "STDIN_FILENO = 0"
definition F_SETFL :: u32 where [riscv_const]: "F_SETFL = 4"
definition O_NONBLOCK :: u32 where [riscv_const]: "O_NONBLOCK = 0x800"
definition SA_SIGINFO :: u64 where [riscv_const]: "SA_SIGINFO = 4"
definition SA_ONSTACK :: u64 where [riscv_const]: "SA_ONSTACK = 0x08000000"
definition SIGEV_SIGNAL :: u32 where [riscv_const]: "SIGEV_SIGNAL = 0"
definition CLOCK_REALTIME :: u32 where [riscv_const]: "CLOCK_REALTIME = 0"
definition PR_SET_NO_NEW_PRIVS :: u32 where [riscv_const]: "PR_SET_NO_NEW_PRIVS = 38"
definition SECCOMP_SET_MODE_FILTER :: u32 where [riscv_const]: "SECCOMP_SET_MODE_FILTER = 1"

record boot = machine +
  stored :: "u64 \<Rightarrow> u8 option"

definition store_ram :: "u64 \<Rightarrow> u64 \<Rightarrow> u8 \<Rightarrow> (boot, unit) prog" where
  "store_ram ram a c =
     (if \<not> is_err ram \<and> RAM_START \<le> a \<and> a < RAM_START + RAM_SIZE
      then modify (\<lambda>s. s\<lparr>stored := (stored s)(a := Some c)\<rparr>)
      else halt Segv)"

function copy_kernel :: "env \<Rightarrow> u64 \<Rightarrow> u64 \<Rightarrow> nat \<Rightarrow> nat \<Rightarrow> (boot, unit) prog" where
  "copy_kernel E ram kern n i =
     (if i < n then
        andthen (load E read8 (kern + of_nat i)) (\<lambda>c.
        andthen (store_ram ram (KERNEL_START + of_nat i) c) (\<lambda>_.
        copy_kernel E ram kern n (i + 1)))
      else skip)"
  by pat_completeness auto
termination
  by (relation "measure (\<lambda>(E, ram, kern, n, i). n - i)") auto

declare copy_kernel.simps [simp del]

text \<open>
  \<open>hw\<close> is the address of \<open>handler_wrapper\<close>, \<open>filt\<close> the array of 32 filter instructions on
  the stack before it is written.
\<close>

definition install_handlers :: "env \<Rightarrow> u64 \<Rightarrow> u64 \<Rightarrow> (boot, unit) prog" where
  "install_handlers E hw sigstack_start =
     andthen (s_sigaltstack E \<lparr>ss_sp = sigstack_start, ss_flags = 0, ss_size = SIGSTACK_SIZE\<rparr>) (\<lambda>_.
     let sa = \<lparr>sa_sigaction = hw, sa_flags = SA_SIGINFO OR SA_ONSTACK,
               sa_mask = (replicate 16 0)[0 := 0 OR push_bit (unat (SIGALRM - 1)) 1]\<rparr>
     in andthen (s_rt_sigaction E SIGILL sa) (\<lambda>_.
        andthen (s_rt_sigaction E SIGSYS sa) (\<lambda>_.
        andthen (s_rt_sigaction E SIGALRM sa) (\<lambda>_.
        andthen (s_rt_sigaction E SIGSEGV sa) (\<lambda>_. skip)))))"

text \<open>The second half of \<open>entrypoint_1\<close>: install the filter and enter the guest.\<close>

definition enter_guest ::
  "env \<Rightarrow> sock_filter list \<Rightarrow> u64 \<Rightarrow> u64 \<Rightarrow> u64 \<Rightarrow> u8 list \<Rightarrow> (boot, unit) prog" where
  "enter_guest E filt conf kern kernel_size_pg timer =
     andthen (gets priv) (\<lambda>c.
     let (filt, len) = gen_addr_filter (stub_start c) (stub_start c + stub_size c) filt
     in andthen (s_prctl E PR_SET_NO_NEW_PRIVS 1 0 0 0) (\<lambda>_.
     andthen (s_seccomp E SECCOMP_SET_MODE_FILTER 0 (take len filt)) (\<lambda>r.
     andthen (whenM (r <s 0) (s_exit_group E 1)) (\<lambda>_.
     andthen (s_munmap E kern kernel_size_pg) (\<lambda>_.
     andthen (modify (\<lambda>s. s\<lparr>priv := (initialize_priv (priv s))\<lparr>timerid := le_word timer\<rparr>\<rparr>)) (\<lambda>_.
     andthen (s_munmap E conf CONF_SIZE) (\<lambda>_.
     andthen (write_log E ''Jumping to kernel ...'') (\<lambda>_.
     modify (\<lambda>s. s\<lparr>gregs := (gregs s)(0 := KERNEL_START)\<rparr>)))))))))"

definition entrypoint_1 ::
  "env \<Rightarrow> sock_filter list \<Rightarrow> u64 \<Rightarrow> u64 \<Rightarrow> u64 \<Rightarrow> (boot, unit) prog" where
  "entrypoint_1 E filt hw sigstack_start conf =
     andthen (s_fcntl E STDIN_FILENO F_SETFL O_NONBLOCK) (\<lambda>_.
     andthen (install_handlers E hw sigstack_start) (\<lambda>_.
     andthen (s_timer_create E CLOCK_REALTIME
       \<lparr>sigev_notify = SIGEV_SIGNAL, sigev_signo = SIGALRM, sival_int = 0\<rparr>) (\<lambda>timer.
     andthen (s_mmap E RAM_START RAM_SIZE (PROT_READ OR PROT_WRITE OR PROT_EXEC)
       (MAP_SHARED OR MAP_FIXED) RAM_FD 0) (\<lambda>ram.
     andthen (deref conf) (\<lambda>_.
     andthen (gets (\<lambda>s. kernel_size (priv s))) (\<lambda>size.
     let kernel_size_pg = (size + 4095) AND NOT 4095
     in andthen (s_mmap E 0 kernel_size_pg PROT_READ MAP_PRIVATE KERNEL_FD 0) (\<lambda>kern.
     andthen (copy_kernel E ram kern (unat size) 0) (\<lambda>_.
     andthen (s_riscv_flush_icache E 0 0 0) (\<lambda>_.
     enter_guest E filt conf kern kernel_size_pg timer)))))))))"

definition map_conf :: "env \<Rightarrow> (boot, u64) prog" where
  "map_conf E = s_mmap E 0 CONF_SIZE (PROT_READ OR PROT_WRITE) MAP_SHARED CONFIG_FD 0"

definition entrypoint :: "env \<Rightarrow> sock_filter list \<Rightarrow> u64 \<Rightarrow> (boot, unit) prog" where
  "entrypoint E filt hw =
     andthen (map_conf E) (\<lambda>conf.
     andthen (deref conf) (\<lambda>_.
     andthen (gets priv) (\<lambda>c.
     andthen (s_munmap E 0 (stub_start c)) (\<lambda>_.
     andthen (s_munmap E conf CONF_SIZE) (\<lambda>_.
     andthen (map_conf E) (\<lambda>conf.
     andthen (deref conf) (\<lambda>_.
     andthen (gets priv) (\<lambda>c.
     let kernel_end = stub_start c + stub_size c
     in andthen (s_munmap E kernel_end (push_bit 38 1 - kernel_end)) (\<lambda>_.
     andthen (s_munmap E conf CONF_SIZE) (\<lambda>_.
     andthen (s_mmap E kernel_end SIGSTACK_SIZE (PROT_READ OR PROT_WRITE)
       (MAP_PRIVATE OR MAP_ANONYMOUS OR MAP_STACK OR MAP_FIXED) (- 1) 0) (\<lambda>sigstack_start.
     andthen (map_conf E) (\<lambda>conf.
     andthen (deref conf) (\<lambda>_.
     andthen (modify (\<lambda>s. s\<lparr>priv := (priv s)\<lparr>stub_size := stub_size (priv s) + SIGSTACK_SIZE\<rparr>\<rparr>)) (\<lambda>_.
     entrypoint_1 E filt hw sigstack_start conf))))))))))))))"

section \<open>Copying the kernel\<close>

lemma kernel_address:
  assumes "i < 0xe00000"
  shows "RAM_START \<le> KERNEL_START + of_nat i \<and> KERNEL_START + of_nat i < RAM_START + RAM_SIZE"
    "unat (KERNEL_START + of_nat i :: u64) = 0x80200000 + i"
proof -
  show "unat (KERNEL_START + of_nat i :: u64) = 0x80200000 + i"
    using assms by (simp add: riscv_const unat_word_ariths unsigned_of_nat take_bit_nat_eq_self)
  then show "RAM_START \<le> KERNEL_START + of_nat i \<and> KERNEL_START + of_nat i < RAM_START + RAM_SIZE"
    using assms by (simp add: word_le_nat_alt word_less_nat_alt RAM_START_def RAM_SIZE_def)
qed

definition with_kernel :: "(nat \<Rightarrow> u8) \<Rightarrow> nat \<Rightarrow> nat \<Rightarrow> (u64 \<Rightarrow> u8 option) \<Rightarrow> u64 \<Rightarrow> u8 option" where
  "with_kernel img i n m a =
     (if 0x80200000 + i \<le> unat a \<and> unat a < 0x80200000 + n then Some (img (unat a - 0x80200000)) else m a)"

lemma with_kernel_step:
  assumes "i < n" "i < 0xe00000"
  shows "with_kernel img (Suc i) n (m(KERNEL_START + of_nat i := Some (img i))) = with_kernel img i n m"
proof
  fix a
  have "a = KERNEL_START + of_nat i \<longleftrightarrow> unat a = 0x80200000 + i"
    using kernel_address(2) [OF assms(2)] by (auto simp: word_unat_eq_iff)
  then show "with_kernel img (Suc i) n (m(KERNEL_START + of_nat i := Some (img i))) a = with_kernel img i n m a"
    using assms(1) by (auto simp: with_kernel_def)
qed

lemma copy_kernel_ok:
  assumes "\<not> is_err ram" "n \<le> 0xe00000" "\<forall>j<n. gmem E (trace s) (kern + of_nat j) = Some (img j)"
  shows "copy_kernel E ram kern n i s = Ok () (s\<lparr>stored := with_kernel img i n (stored s)\<rparr>)"
  using assms(3)
proof (induction "n - i" arbitrary: i s)
  case 0
  then have "with_kernel img i n m = m" for m by (auto simp: with_kernel_def fun_eq_iff)
  then show ?case using 0 by (subst copy_kernel.simps) simp
next
  case (Suc k)
  then have i: "i < n" "i < 0xe00000" using assms(2) by auto
  let ?s = "s\<lparr>stored := (stored s)(KERNEL_START + of_nat i := Some (img i))\<rparr>"
  have "copy_kernel E ram kern n (i + 1) ?s = Ok () (?s\<lparr>stored := with_kernel img (i + 1) n (stored ?s)\<rparr>)"
    using Suc by (intro Suc.hyps(1)) simp_all
  then show ?case
    using i Suc.prems kernel_address(1) [OF i(2)] assms(1) with_kernel_step [OF i]
    by (subst copy_kernel.simps) (simp add: load_apply read8_def store_ram_def)
qed

lemma copy_kernel_too_large:
  assumes "\<not> is_err ram" "0xe00000 < n" "\<forall>j<n. gmem E (trace s) (kern + of_nat j) = Some (img j)" "i \<le> 0xe00000"
  shows "\<exists>s'. copy_kernel E ram kern n i s = Stop Segv s'"
  using assms(3,4)
proof (induction "0xe00000 - i" arbitrary: i s)
  case 0
  then have i: "i = 0xe00000" by simp
  have "gmem E (trace s) (kern + of_nat 0xe00000) = Some (img 0xe00000)"
    using 0 assms(2) by blast
  then show ?case using i assms(2)
    by (subst copy_kernel.simps) (simp add: load_apply read8_def store_ram_def riscv_const)
next
  case (Suc k)
  then have i: "i < n" "i < 0xe00000" using assms(2) by auto
  let ?s = "s\<lparr>stored := (stored s)(KERNEL_START + of_nat i := Some (img i))\<rparr>"
  have "\<exists>s'. copy_kernel E ram kern n (i + 1) ?s = Stop Segv s'"
    using Suc i by (intro Suc.hyps(1)) simp_all
  then show ?case
    using i Suc.prems kernel_address(1) [OF i(2)] assms(1)
    by (subst copy_kernel.simps) (simp add: load_apply read8_def store_ram_def)
qed


section \<open>Starting the guest\<close>

definition ram_call :: ecall where
  "ram_call = Ecall SYS_mmap [Reg RAM_START, Reg RAM_SIZE, int_arg (PROT_READ OR PROT_WRITE OR PROT_EXEC),
     int_arg (MAP_SHARED OR MAP_FIXED), int_arg RAM_FD, Reg 0]"

definition kernel_call :: "u64 \<Rightarrow> ecall" where
  "kernel_call n = Ecall SYS_mmap [Reg 0, Reg ((n + 4095) AND NOT 4095), int_arg PROT_READ, int_arg MAP_PRIVATE,
     int_arg KERNEL_FD, Reg 0]"

definition filter_call :: "priv_state \<Rightarrow> ecall" where
  "filter_call c = Ecall SYS_seccomp [Reg 1, Reg 0,
     FprogPtr (addr_filter (stub_start c) (stub_start c + stub_size c))]"

text \<open>
  What the kernel has to do for the start to succeed: map the RAM file and the kernel image
  of \<open>n\<close> bytes \<open>img\<close>, at the address \<open>kern\<close>.
\<close>

definition image_mapped :: "env \<Rightarrow> u64 \<Rightarrow> (nat \<Rightarrow> u8) \<Rightarrow> nat \<Rightarrow> bool" where
  "image_mapped E kern img n \<longleftrightarrow>
     (\<forall>t. \<not> is_err (sysret E (t @ [ram_call])) \<and> sysret E (t @ [kernel_call (of_nat n)]) = kern
       \<and> (\<forall>j<n. gmem E (t @ [kernel_call (of_nat n)]) (kern + of_nat j) = Some (img j)))"

lemmas boot_calls = s_fcntl_def s_sigaltstack_def s_rt_sigaction_def s_timer_create_def
  s_riscv_flush_icache_def s_prctl_def s_seccomp_def internal_syscall_def ecall_apply

definition guest_start :: "u8 list \<Rightarrow> priv_state \<Rightarrow> priv_state" where
  "guest_start timer p = (initialize_priv p)\<lparr>timerid := le_word timer\<rparr>"

lemma enter_guest_apply:
  assumes "length filt = 32"
  shows "enter_guest E filt conf kern pg timer s =
    (let t = trace s @ [Ecall SYS_prctl [Reg 38, Reg 1, Reg 0, Reg 0, Reg 0], filter_call (priv s)]
     in if (ucast (sysret E t) :: u32) <s 0 then Stop (Exit 1) (s\<lparr>trace := t @ [Ecall SYS_exit_group [Reg 1]]\<rparr>)
        else Ok () (s\<lparr>trace := t @ [Ecall SYS_munmap [Reg kern, Reg pg], Ecall SYS_munmap [Reg conf, Reg CONF_SIZE],
               log_call ''Jumping to kernel ...''],
             priv := guest_start timer (priv s), gregs := (gregs s)(0 := KERNEL_START)\<rparr>))"
proof -
  let ?c = "priv s"
  obtain f where f: "gen_addr_filter (stub_start ?c) (stub_start ?c + stub_size ?c) filt = (f, 12)"
    "take 12 f = addr_filter (stub_start ?c) (stub_start ?c + stub_size ?c)"
    using take_gen_addr_filter [of filt "stub_start ?c" "stub_start ?c + stub_size ?c"] assms
    by (simp add: gen_addr_filter_def length_addr_filter Let_def)
  show ?thesis
    by (simp add: enter_guest_def f boot_calls Let_def filter_call_def guest_start_def whenM_def
        PR_SET_NO_NEW_PRIVS_def SECCOMP_SET_MODE_FILTER_def)
qed

definition setup_calls :: "u64 \<Rightarrow> u64 \<Rightarrow> ecall list" where
  "setup_calls hw sp =
     (let act = SigactionPtr \<lparr>sa_sigaction = hw, sa_flags = 0x08000004, sa_mask = 0x2000 # replicate 15 0\<rparr>
      in [Ecall SYS_fcntl [Reg 0, Reg 4, Reg 0x800],
          Ecall SYS_sigaltstack [StackPtr \<lparr>ss_sp = sp, ss_flags = 0, ss_size = 4096\<rparr>, Reg 0],
          Ecall SYS_rt_sigaction [Reg 4, act, Reg 0, Reg 8],
          Ecall SYS_rt_sigaction [Reg 31, act, Reg 0, Reg 8],
          Ecall SYS_rt_sigaction [Reg 14, act, Reg 0, Reg 8],
          Ecall SYS_rt_sigaction [Reg 11, act, Reg 0, Reg 8],
          Ecall SYS_timer_create [Reg 0,
            SigeventPtr \<lparr>sigev_notify = 0, sigev_signo = 14, sival_int = 0\<rparr>, OutPtr],
          ram_call])"

lemma alarm_mask:
  "(replicate 16 (0 :: u64))[0 := 0 OR push_bit (unat (SIGALRM - 1)) 1] = 0x2000 # replicate 15 0"
proof -
  have "replicate 16 (0 :: u64) = 0 # replicate 15 0" by (simp add: numeral_eq_Suc)
  then show ?thesis by (simp add: SIGALRM_def)
qed

lemma install_handlers_apply:
  "install_handlers E hw sp s =
     (let act = SigactionPtr \<lparr>sa_sigaction = hw, sa_flags = 0x08000004, sa_mask = 0x2000 # replicate 15 0\<rparr>
      in Ok () (s\<lparr>trace := trace s @ [
          Ecall SYS_sigaltstack [StackPtr \<lparr>ss_sp = sp, ss_flags = 0, ss_size = 4096\<rparr>, Reg 0],
          Ecall SYS_rt_sigaction [Reg 4, act, Reg 0, Reg 8],
          Ecall SYS_rt_sigaction [Reg 31, act, Reg 0, Reg 8],
          Ecall SYS_rt_sigaction [Reg 14, act, Reg 0, Reg 8],
          Ecall SYS_rt_sigaction [Reg 11, act, Reg 0, Reg 8]]\<rparr>))"
  unfolding install_handlers_def alarm_mask
  by (simp add: boot_calls Let_def SIGALRM_def SIGILL_def SIGSYS_def SIGSEGV_def SA_SIGINFO_def SA_ONSTACK_def
      SIGSTACK_SIZE_def)

lemma entrypoint_1_apply:
  assumes "\<not> is_err conf"
  shows "entrypoint_1 E filt hw sp conf s =
    (let t = trace s @ setup_calls hw sp; n = kernel_size (priv s); timer = sysout E (butlast t);
         k = sysret E (t @ [kernel_call n])
     in andthen (copy_kernel E (sysret E t) k (unat n) 0) (\<lambda>_.
        andthen (s_riscv_flush_icache E 0 0 0) (\<lambda>_.
        enter_guest E filt conf k ((n + 4095) AND NOT 4095) timer)) (s\<lparr>trace := t @ [kernel_call n]\<rparr>))"
  using assms
  by (simp add: entrypoint_1_def install_handlers_apply boot_calls Let_def deref_apply kernel_call_def setup_calls_def
      ram_call_def SIGALRM_def STDIN_FILENO_def F_SETFL_def O_NONBLOCK_def SIGEV_SIGNAL_def CLOCK_REALTIME_def
      butlast_append)


text \<open>The calls of \<open>entrypoint_1\<close> up to the jump.\<close>

definition start_calls :: "u64 \<Rightarrow> u64 \<Rightarrow> u64 \<Rightarrow> u64 \<Rightarrow> priv_state \<Rightarrow> ecall list" where
  "start_calls hw sp conf kern p = setup_calls hw sp @ [kernel_call (kernel_size p),
     Ecall SYS_riscv_flush_icache [Reg 0, Reg 0, Reg 0], Ecall SYS_prctl [Reg 38, Reg 1, Reg 0, Reg 0, Reg 0],
     filter_call p, Ecall SYS_munmap [Reg kern, Reg ((kernel_size p + 4095) AND NOT 4095)],
     Ecall SYS_munmap [Reg conf, Reg CONF_SIZE], log_call ''Jumping to kernel ...'']"

section \<open>Properties\<close>

lemma initialized: "priv_mode (initialize_priv p) = PRIV_S" "satp (initialize_priv p) = 0"
  by (simp_all add: initialize_priv_def Let_def)

lemma entrypoint_1_starts:
  assumes "image_mapped E kern img n" and "n = unat (kernel_size (priv s))" and "n \<le> 0xe00000"
    and "length filt = 32" and "\<not> is_err conf"
    and "\<forall>t. \<not> (ucast (sysret E (t @ [filter_call (priv s)])) :: u32) <s 0"
  shows "\<exists>s'. entrypoint_1 E filt hw sp conf s = Ok () s'
    \<and> stored s' = (\<lambda>a. if 0x80200000 \<le> unat a \<and> unat a < 0x80200000 + n
                        then Some (img (unat a - 0x80200000)) else stored s a)
    \<and> gregs s' 0 = 0x80200000 \<and> (\<exists>timer. priv s' = guest_start timer (priv s))
    \<and> trace s' = trace s @ start_calls hw sp conf kern (priv s)"
proof -
  let ?t = "trace s @ setup_calls hw sp"
  have w: "of_nat n = kernel_size (priv s)" using assms(2) by simp
  have "\<exists>u. ?t = u @ [ram_call]" by (simp add: setup_calls_def Let_def)
  then have ram: "\<not> is_err (sysret E ?t)" using assms(1) unfolding image_mapped_def by metis
  have k: "sysret E (?t @ [kernel_call (kernel_size (priv s))]) = kern"
    and g: "\<forall>j<n. gmem E (?t @ [kernel_call (kernel_size (priv s))]) (kern + of_nat j) = Some (img j)"
    using assms(1) unfolding image_mapped_def w by blast+
  let ?s = "s\<lparr>trace := ?t @ [kernel_call (kernel_size (priv s))]\<rparr>"
  have c: "copy_kernel E (sysret E ?t) kern (unat (kernel_size (priv s))) 0 ?s =
      Ok () (?s\<lparr>stored := with_kernel img 0 n (stored ?s)\<rparr>)"
    using copy_kernel_ok [OF ram assms(3), of E ?s kern img 0] g by (simp add: assms(2))
  have f: "\<not> (ucast (sysret E (t @ u @ [p, q, r, filter_call (priv s)])) :: u32) <s 0" for t u p q r
    using assms(6) [rule_format, of "t @ u @ [p, q, r]"] by simp
  show ?thesis
    unfolding entrypoint_1_apply [OF assms(5)] Let_def k andthen_apply [of "copy_kernel _ _ _ _ _"] c outcome.case
    by (simp add: enter_guest_apply [OF assms(4)] boot_calls f Let_def
        with_kernel_def [abs_def] start_calls_def KERNEL_START_def exI [of _ "sysout E _"])
qed

lemma guest_start_facts:
  "priv_inv (guest_start timer p)" "priv_mode (guest_start timer p) = PRIV_S" "satp (guest_start timer p) = 0"
  "stub_start (guest_start timer p) = stub_start p" "stub_size (guest_start timer p) = stub_size p"
  "kernel_size (guest_start timer p) = kernel_size p" "should_clear_vm (guest_start timer p) = should_clear_vm p"
  using initialize_priv_inv [of p] initialize_priv_config [of p]
  by (simp_all add: guest_start_def priv_inv_def config_of_def initialized) (simp add: initialize_priv_def Let_def)

text \<open>
  C19: a successful start.  With the configuration page, the RAM file and a kernel image of at
  most 14 MiB mapped and the filter accepted, \<open>entrypoint_1\<close> reaches its jump: every byte of
  the image lies at its place from \<open>0x80200000\<close> on and no other byte of RAM was stored, and the
  guest starts there in supervisor mode, without translation, in a well-formed state that has
  the stub's configuration.
\<close>

theorem guest_starts:
  assumes "image_mapped E kern img n" and "n = unat (kernel_size (priv s))" and "n \<le> 0xe00000"
    and "length filt = 32" and "\<not> is_err conf"
    and "\<forall>t. \<not> (ucast (sysret E (t @ [filter_call (priv s)])) :: u32) <s 0"
  shows "\<exists>s'. entrypoint_1 E filt hw sp conf s = Ok () s'
    \<and> stored s' = (\<lambda>a. if 0x80200000 \<le> unat a \<and> unat a < 0x80200000 + n
                        then Some (img (unat a - 0x80200000)) else stored s a)
    \<and> gregs s' 0 = 0x80200000 \<and> priv_mode (priv s') = PRIV_S \<and> satp (priv s') = 0
    \<and> priv_inv (priv s') \<and> stub_start (priv s') = stub_start (priv s) \<and> stub_size (priv s') = stub_size (priv s)"
  using entrypoint_1_starts [OF assms, of hw sp] by (auto simp: guest_start_facts)

text \<open>A kernel that grants every request, and a machine with a kernel image of 16 KiB.\<close>

definition boot_env :: env where
  "boot_env = idle_env\<lparr>sysret := (\<lambda>_. 0x20000000), gmem := (\<lambda>_ _. Some 0x13)\<rparr>"

definition boot_machine :: boot where
  "boot_machine = \<lparr>trace = [], priv = sample_priv, gregs = (\<lambda>_. 0), stored = (\<lambda>_. None)\<rparr>"

lemma boot_facts:
  "image_mapped boot_env 0x20000000 (\<lambda>_. 0x13) n" "0x4000 = unat (kernel_size (priv boot_machine))"
  "length (replicate 32 load_low) = 32" "\<not> is_err 0x20000000"
  "\<forall>t. \<not> (ucast (sysret boot_env (t @ [filter_call (priv boot_machine)])) :: u32) <s 0"
  by (simp_all add: image_mapped_def boot_env_def is_err_def boot_machine_def sample_priv_def initialize_priv_def Let_def
      word_sless_alt)

theorem guest_starts_witness:
  "\<exists>s'. entrypoint_1 boot_env (replicate 32 load_low) 0x3000000100 0x3000008000 0x20000000 boot_machine = Ok () s'
    \<and> stored s' 0x80200000 = Some 0x13 \<and> stored s' 0x80204000 = None \<and> gregs s' 0 = 0x80200000 \<and> priv_inv (priv s')"
proof -
  have "(0x4000 :: nat) \<le> 0xe00000" by simp
  from guest_starts [OF boot_facts(1,2) this boot_facts(3-5), of "0x3000000100" "0x3000008000"]
  show ?thesis by (auto simp: boot_machine_def)
qed






section \<open>Leaving the loader\<close>

definition stack_call :: "priv_state \<Rightarrow> ecall" where
  "stack_call c = Ecall SYS_mmap [Reg (stub_start c + stub_size c), Reg SIGSTACK_SIZE, int_arg (PROT_READ OR PROT_WRITE),
     int_arg (MAP_PRIVATE OR MAP_ANONYMOUS OR MAP_STACK OR MAP_FIXED), int_arg (- 1), Reg 0]"

text \<open>
  C20: the stub is alone.  If the kernel maps the configuration page and the signal stack and
  frees what it is asked to, \<open>entrypoint\<close> reaches \<open>entrypoint_1\<close> with the stub's size grown
  by the signal stack, which lies right behind it, and of everything that was mapped below
  \<open>2 ^ 38\<close> only the stub, that stack and the configuration page are left.
\<close>

theorem entrypoint_alone:
  assumes "\<forall>t a l. sysret E (t @ [Ecall SYS_munmap [Reg a, Reg l]]) = 0"
    and "\<forall>t. \<not> is_err (sysret E (t @ [conf_call]))"
    and "\<forall>t. sysret E (t @ [stack_call (priv s)]) = stub_start (priv s) + stub_size (priv s)"
    and "unat (stub_start (priv s)) + unat (stub_size (priv s)) + 4096 \<le> 2 ^ 38"
  shows "\<exists>s1 conf. entrypoint E filt hw s =
      entrypoint_1 E filt hw (stub_start (priv s) + stub_size (priv s)) conf s1
    \<and> priv s1 = (priv s)\<lparr>stub_size := stub_size (priv s) + 4096\<rparr>
    \<and> (\<forall>x<2 ^ 38. mapped_at m0 E (trace s1) x \<longrightarrow>
        in_range (stub_start (priv s1)) (stub_size (priv s1)) x \<or> in_range conf CONF_SIZE x)"
proof -
  let ?c = "priv s" let ?e = "stub_start (priv s) + stub_size (priv s)"
  define t1 where "t1 = trace s @ [conf_call]"
  define t2 where "t2 = t1 @ [Ecall SYS_munmap [Reg 0, Reg (stub_start ?c)]]"
  define t3 where "t3 = t2 @ [Ecall SYS_munmap [Reg (sysret E t1), Reg CONF_SIZE]]"
  define t4 where "t4 = t3 @ [conf_call]"
  define t5 where "t5 = t4 @ [Ecall SYS_munmap [Reg ?e, Reg (2 ^ 38 - ?e)]]"
  define t6 where "t6 = t5 @ [Ecall SYS_munmap [Reg (sysret E t4), Reg CONF_SIZE]]"
  define t7 where "t7 = t6 @ [stack_call ?c]"
  define t8 where "t8 = t7 @ [conf_call]"
  let ?s1 = "s\<lparr>trace := t8, priv := ?c\<lparr>stub_size := stub_size ?c + 4096\<rparr>\<rparr>"
  have ok: "\<not> is_err (sysret E t1)" "\<not> is_err (sysret E t4)" "\<not> is_err (sysret E t8)" "sysret E t7 = ?e"
    using assms(2,3) unfolding t1_def t4_def t8_def t7_def by blast+
  have "entrypoint E filt hw s = entrypoint_1 E filt hw ?e (sysret E t8) ?s1"
    using ok by (simp add: entrypoint_def map_conf_def deref_apply Let_def conf_call_def [symmetric]
        t1_def t2_def t3_def t4_def t5_def t6_def t7_def t8_def stack_call_def SIGSTACK_SIZE_def)
  moreover have "in_range (stub_start ?c) (stub_size ?c + 4096) x \<or> in_range (sysret E t8) CONF_SIZE x"
    if "x < 2 ^ 38" "mapped_at m0 E t8 x" for x
  proof -
    have e: "unat ?e = unat (stub_start ?c) + unat (stub_size ?c)"
      "unat (2 ^ 38 - ?e) = 2 ^ 38 - unat ?e" "unat (stub_size ?c + 4096) = unat (stub_size ?c) + 4096"
      using assms(4) by (simp_all add: unat_word_ariths unat_sub_if')
    have un: "mapped_at m0 E (t @ [Ecall SYS_munmap [Reg a, Reg l]]) x \<longleftrightarrow> mapped_at m0 E t x \<and> \<not> in_range a l x" for t a l
      using mm.unmapped assms(1) by simp
    have conf: "mapped_at m0 E (t @ [conf_call]) x \<longleftrightarrow> mapped_at m0 E t x \<or> in_range (sysret E (t @ [conf_call])) CONF_SIZE x" for t
      using assms(2) by (simp add: conf_call_def mapped_mmap Let_def)
    have "mapped_at m0 E t7 x \<Longrightarrow> mapped_at m0 E t6 x \<or> in_range ?e 4096 x"
      using ok(4) unfolding t7_def stack_call_def mapped_mmap Let_def by (auto simp: SIGSTACK_SIZE_def)
    moreover have "mapped_at m0 E t6 x \<Longrightarrow> in_range (stub_start ?c) (stub_size ?c) x"
      using that(1) e unfolding t6_def t5_def t4_def t3_def t2_def un conf by auto
    moreover have "mapped_at m0 E t7 x \<or> in_range (sysret E t8) CONF_SIZE x"
      using that(2) unfolding t8_def conf .
    ultimately show ?thesis using e by auto
  qed
  ultimately show ?thesis by (intro exI [of _ ?s1] exI [of _ "sysret E t8"]) simp
qed


text \<open>A kernel that grants every request and honours fixed addresses.\<close>

definition juggle_env :: env where
  "juggle_env = idle_env\<lparr>sysret := (\<lambda>t. case last t of
     Ecall n (Reg a # _) \<Rightarrow> if n = SYS_munmap then 0 else if a = 0 then 0x20000000 else a
   | _ \<Rightarrow> 0)\<rparr>"

theorem entrypoint_alone_witness:
  "\<exists>s1 conf. entrypoint juggle_env (replicate 32 load_low) 0x3000000100 boot_machine =
      entrypoint_1 juggle_env (replicate 32 load_low) 0x3000000100 0x3000009000 conf s1
    \<and> stub_size (priv s1) = 0xa000
    \<and> (\<forall>x<2 ^ 38. mapped_at (\<lambda>_. True) juggle_env (trace s1) x \<longrightarrow>
        in_range 0x3000000000 0xa000 x \<or> in_range conf CONF_SIZE x)"
proof -
  have b: "stub_start (priv boot_machine) = 0x3000000000" "stub_size (priv boot_machine) = 0x9000"
    by (simp_all add: boot_machine_def sample_priv_def initialize_priv_def Let_def)
  have "\<forall>t a l. sysret juggle_env (t @ [Ecall SYS_munmap [Reg a, Reg l]]) = 0"
    "\<forall>t. \<not> is_err (sysret juggle_env (t @ [conf_call]))"
    "\<forall>t. sysret juggle_env (t @ [stack_call (priv boot_machine)]) = stub_start (priv boot_machine) + stub_size (priv boot_machine)"
    by (simp_all add: juggle_env_def conf_call_def stack_call_def is_err_def b)
  then obtain s1 conf where
    "entrypoint juggle_env (replicate 32 load_low) 0x3000000100 boot_machine =
      entrypoint_1 juggle_env (replicate 32 load_low) 0x3000000100 0x3000009000 conf s1"
    "priv s1 = (priv boot_machine)\<lparr>stub_size := 0xa000\<rparr>"
    "\<forall>x<2 ^ 38. mapped_at (\<lambda>_. True) juggle_env (trace s1) x \<longrightarrow>
        in_range (stub_start (priv s1)) (stub_size (priv s1)) x \<or> in_range conf CONF_SIZE x"
    using entrypoint_alone [of juggle_env boot_machine "replicate 32 load_low" "0x3000000100" "\<lambda>_. True"]
    by (auto simp: b)
  then show ?thesis by (intro exI [of _ s1] exI [of _ conf]) (simp add: b)
qed

end
