(* ===== verification/Loader.thy ===== *)
theory Loader
  imports Boot
begin

text \<open>
  The loader, \<^verbatim>\<open>src/src/urvirt-loader/urvirt-loader.c\<close>: it maps the stub, puts the kernel
  image, the block image and two fresh memory files at the descriptors the stub expects, writes the
  configuration page and jumps to the stub.

  It runs on the C library.  The operating system behind the library is the parameter \<open>libc\<close>,
  which answers each call as a function of the calls made so far; the interface
  \<open>linux_files\<close> states what the loader relies on of the calls that concern open files, and is
  interpreted on the replay of a trace.  The state is the trace of the calls and the contents of the
  configuration file, with the fields the stub gives them.
\<close>

section \<open>Calls of the C library\<close>

definition O_RDONLY :: u32 where [riscv_const]: "O_RDONLY = 0"
definition O_RDWR :: u32 where [riscv_const]: "O_RDWR = 2"
definition STDERR_FILENO :: u32 where [riscv_const]: "STDERR_FILENO = 2"

datatype lcall =
    LOpen string u32
  | LFstat u32
  | LMmap u64 u64 u32 u32 u32 u64
  | LMunmap u64 u64
  | LClose u32
  | LDup2 u32 u32
  | LMemfd string u32
  | LFtruncate u32 u64
  | LPrint u32 string

text \<open>
  The operating system behind the C library, as a function of the calls up to now: the result
  of the last call, and what \<open>st_size\<close> holds after it.
\<close>

record libc =
  lret :: "lcall list \<Rightarrow> u64"
  lstat :: "lcall list \<Rightarrow> u64"

record loader =
  ltrace :: "lcall list"
  config :: priv_state

definition libc_call :: "libc \<Rightarrow> lcall \<Rightarrow> (loader, u64) prog" where
  "libc_call L c = (\<lambda>s. let t = ltrace s @ [c] in Ok (lret L t) (s\<lparr>ltrace := t\<rparr>))"

definition int_call :: "libc \<Rightarrow> lcall \<Rightarrow> (loader, u32) prog" where
  "int_call L c = andthen (libc_call L c) (\<lambda>r. ret (ucast r))"

definition fstat :: "libc \<Rightarrow> u32 \<Rightarrow> (loader, u64) prog" where
  "fstat L fd = andthen (libc_call L (LFstat fd)) (\<lambda>_. gets (\<lambda>s. lstat L (ltrace s)))"

section \<open>The loader\<close>

definition page_up :: "u64 \<Rightarrow> u64" where
  "page_up n = (n + 4095) AND NOT 4095"

definition load_stub :: "libc \<Rightarrow> string \<Rightarrow> (loader, u64 \<times> u64) prog" where
  "load_stub L path =
     andthen (int_call L (LOpen path O_RDONLY)) (\<lambda>stub_img_fd.
     andthen (fstat L stub_img_fd) (\<lambda>file_size.
     let file_size_up = page_up file_size
     in andthen (libc_call L (LMmap 0 file_size_up (PROT_EXEC OR PROT_READ) MAP_PRIVATE stub_img_fd 0)) (\<lambda>stub_addr.
     andthen (int_call L (LClose stub_img_fd)) (\<lambda>_.
     ret (stub_addr, file_size_up)))))"

definition open_kernel :: "libc \<Rightarrow> string \<Rightarrow> (loader, u64) prog" where
  "open_kernel L path =
     andthen (int_call L (LOpen path O_RDONLY)) (\<lambda>kernel_img_fd.
     andthen (fstat L kernel_img_fd) (\<lambda>kernel_size.
     andthen (int_call L (LDup2 kernel_img_fd KERNEL_FD)) (\<lambda>_.
     andthen (int_call L (LClose kernel_img_fd)) (\<lambda>_.
     ret kernel_size))))"

definition create_memory :: "libc \<Rightarrow> (loader, unit) prog" where
  "create_memory L =
     andthen (int_call L (LMemfd ''config_fd'' 0)) (\<lambda>config_fd_orig.
     andthen (int_call L (LMemfd ''ram_fd'' 0)) (\<lambda>ram_fd_orig.
     andthen (int_call L (LFtruncate config_fd_orig CONF_SIZE)) (\<lambda>_.
     andthen (int_call L (LFtruncate ram_fd_orig RAM_SIZE)) (\<lambda>_.
     andthen (int_call L (LDup2 config_fd_orig CONFIG_FD)) (\<lambda>_.
     andthen (int_call L (LDup2 ram_fd_orig RAM_FD)) (\<lambda>_.
     andthen (int_call L (LClose config_fd_orig)) (\<lambda>_.
     andthen (int_call L (LClose ram_fd_orig)) (\<lambda>_. skip))))))))"

definition open_block :: "libc \<Rightarrow> string \<Rightarrow> (loader, unit) prog" where
  "open_block L path =
     andthen (int_call L (LOpen path O_RDWR)) (\<lambda>block_fd_orig.
     andthen (int_call L (LDup2 block_fd_orig BLOCK_FD)) (\<lambda>_.
     andthen (int_call L (LClose block_fd_orig)) (\<lambda>_. skip)))"

definition write_config :: "libc \<Rightarrow> u64 \<Rightarrow> u64 \<Rightarrow> u64 \<Rightarrow> (loader, unit) prog" where
  "write_config L stub_addr file_size_up ksize =
     andthen (libc_call L (LMmap 0 CONF_SIZE (PROT_READ OR PROT_WRITE) MAP_SHARED CONFIG_FD 0)) (\<lambda>conf.
     andthen (deref conf) (\<lambda>_.
     andthen (modify (\<lambda>s. s\<lparr>config := (config s)\<lparr>stub_start := stub_addr\<rparr>\<rparr>)) (\<lambda>_.
     andthen (modify (\<lambda>s. s\<lparr>config := (config s)\<lparr>stub_size := file_size_up\<rparr>\<rparr>)) (\<lambda>_.
     andthen (modify (\<lambda>s. s\<lparr>config := (config s)\<lparr>kernel_size := ksize\<rparr>\<rparr>)) (\<lambda>_.
     andthen (int_call L (LMunmap conf CONF_SIZE)) (\<lambda>_. skip))))))"

text \<open>
  \<open>main\<close> ends in the jump to the first byte of the mapped stub; its value is that address.
\<close>

definition main :: "libc \<Rightarrow> string list \<Rightarrow> (loader, u64) prog" where
  "main L argv =
     (if length argv \<noteq> 4 then
        if argv = [] then halt Undefined
        else andthen (int_call L (LPrint STDERR_FILENO
               (''Usage: '' @ argv ! 0 @ '' <stub-image> <kernel-image> <fs-img>'' @ newline))) (\<lambda>_.
             halt (Exit 1))
      else
        andthen (load_stub L (argv ! 1)) (\<lambda>(stub_addr, file_size_up).
        andthen (open_kernel L (argv ! 2)) (\<lambda>kernel_size.
        andthen (create_memory L) (\<lambda>_.
        andthen (open_block L (argv ! 3)) (\<lambda>_.
        andthen (write_config L stub_addr file_size_up kernel_size) (\<lambda>_.
        andthen (int_call L (LPrint STDERR_FILENO (''[urvirt] Entering urvirt-stub'' @ newline))) (\<lambda>_.
        andthen (deref stub_addr) (\<lambda>_.
        ret stub_addr))))))))"

section \<open>Open files\<close>

datatype fileid = Named string | Memory string

record os =
  fds :: "u32 \<Rightarrow> fileid option"
  fsize :: "fileid \<Rightarrow> u64"

abbreviation failed :: "u64 \<Rightarrow> bool" where
  "failed r \<equiv> (ucast r :: u32) <s 0"

text \<open>
  A call the operating system grants: a new descriptor is below 64 and was free, \<open>fstat\<close>
  reports the size of the file, and the others do not fail.
\<close>

fun granted :: "lcall \<Rightarrow> u64 \<Rightarrow> u64 \<Rightarrow> os \<Rightarrow> bool" where
  "granted (LOpen p m) r z v = (\<not> failed r \<and> (ucast r :: u32) < 64 \<and> fds v (ucast r) = None)"
| "granted (LMemfd n m) r z v = (\<not> failed r \<and> (ucast r :: u32) < 64 \<and> fds v (ucast r) = None)"
| "granted (LFstat a) r z v = (case fds v a of None \<Rightarrow> False | Some f \<Rightarrow> z = fsize v f)"
| "granted (LMmap p n q m a off) r z v = (\<not> is_err r)"
| "granted (LPrint a str) r z v = True"
| "granted c r z v = (\<not> failed r)"

fun orderly :: "(lcall list \<Rightarrow> os) \<Rightarrow> libc \<Rightarrow> lcall list \<Rightarrow> lcall list \<Rightarrow> bool" where
  "orderly view L t [] = True"
| "orderly view L t (c # cs) =
     (granted c (lret L (t @ [c])) (lstat L (t @ [c])) (view t) \<and> orderly view L (t @ [c]) cs)"

lemma orderly_append: "orderly view L t (a @ b) \<longleftrightarrow> orderly view L t a \<and> orderly view L (t @ a) b"
  by (induction a arbitrary: t) simp_all

text \<open>
  What a piece of the loader does to the open files and the configuration when the system
  grants its calls: \<open>R\<close> relates the value, files and configuration before and after.
\<close>

definition phase :: "(lcall list \<Rightarrow> os) \<Rightarrow> libc \<Rightarrow> (loader, 'a) prog \<Rightarrow>
    ('a \<Rightarrow> os \<Rightarrow> priv_state \<Rightarrow> os \<Rightarrow> priv_state \<Rightarrow> bool) \<Rightarrow> bool" where
  "phase view L m R \<longleftrightarrow> (\<forall>s x s'. m s = Ok x s' \<longrightarrow> (\<exists>cs. ltrace s' = ltrace s @ cs \<and>
     (orderly view L (ltrace s) cs \<longrightarrow> R x (view (ltrace s)) (config s) (view (ltrace s')) (config s'))))"

lemma phase_weaken:
  "phase view L m R \<Longrightarrow> (\<And>x u c v d. R x u c v d \<Longrightarrow> Q x u c v d) \<Longrightarrow> phase view L m Q"
  unfolding phase_def by meson

lemma phase_andthen:
  assumes "phase view L m R" "\<And>x. phase view L (f x) (R' x)"
  shows "phase view L (andthen m f) (\<lambda>y u c w e. \<exists>x v d. R x u c v d \<and> R' x y v d w e)"
  unfolding phase_def
proof (intro allI impI)
  fix s y s' assume "andthen m f s = Ok y s'"
  then obtain x s1 where m: "m s = Ok x s1" and f: "f x s1 = Ok y s'" by (auto simp: andthen_eq_Ok)
  obtain a where "ltrace s1 = ltrace s @ a"
      "orderly view L (ltrace s) a \<longrightarrow> R x (view (ltrace s)) (config s) (view (ltrace s1)) (config s1)"
    using assms(1) m unfolding phase_def by blast
  moreover obtain b where "ltrace s' = ltrace s1 @ b"
      "orderly view L (ltrace s1) b \<longrightarrow> R' x y (view (ltrace s1)) (config s1) (view (ltrace s')) (config s')"
    using assms(2) f unfolding phase_def by blast
  ultimately show "\<exists>cs. ltrace s' = ltrace s @ cs \<and> (orderly view L (ltrace s) cs \<longrightarrow>
      (\<exists>x v d. R x (view (ltrace s)) (config s) v d \<and> R' x y v d (view (ltrace s')) (config s')))"
    by (intro exI [of _ "a @ b"]) (auto simp: orderly_append)
qed

lemma phase_pure:
  "phase view L (ret x) (\<lambda>y u c v d. y = x \<and> v = u \<and> d = c)"
  "phase view L skip (\<lambda>_ u c v d. v = u \<and> d = c)"
  "phase view L (deref p) (\<lambda>_ u c v d. v = u \<and> d = c)"
  "phase view L (modify (\<lambda>s. s\<lparr>config := h (config s)\<rparr>)) (\<lambda>_ u c v d. v = u \<and> d = h c)"
  by (auto simp: phase_def deref_def)

lemma phase_call:
  assumes "\<And>t r. r = lret L (t @ [c]) \<Longrightarrow> granted c r (lstat L (t @ [c])) (view t) \<Longrightarrow> R r (view t) (view (t @ [c]))"
  shows "phase view L (libc_call L c) (\<lambda>r u e v d. R r u v \<and> d = e)"
    and "phase view L (int_call L c) (\<lambda>x u e v d. \<exists>r z. x = ucast r \<and> granted c r z u \<and> R r u v \<and> d = e)"
  using assms by (auto simp: phase_def libc_call_def int_call_def Let_def andthen_apply)

locale linux_files =
  fixes view :: "lcall list \<Rightarrow> os" and L :: libc
  assumes opened: "\<not> failed (lret L (t @ [LOpen p m])) \<Longrightarrow>
      view (t @ [LOpen p m]) = (view t)\<lparr>fds := (fds (view t))(ucast (lret L (t @ [LOpen p m])) := Some (Named p))\<rparr>"
    and created: "\<not> failed (lret L (t @ [LMemfd nm m])) \<Longrightarrow>
      view (t @ [LMemfd nm m]) = (view t)\<lparr>fds := (fds (view t))(ucast (lret L (t @ [LMemfd nm m])) := Some (Memory nm))\<rparr>"
    and duplicated: "\<not> failed (lret L (t @ [LDup2 a b])) \<Longrightarrow>
      view (t @ [LDup2 a b]) = (view t)\<lparr>fds := (fds (view t))(b := fds (view t) a)\<rparr>"
    and closed: "\<not> failed (lret L (t @ [LClose a])) \<Longrightarrow>
      view (t @ [LClose a]) = (view t)\<lparr>fds := (fds (view t))(a := None)\<rparr>"
    and resized: "\<not> failed (lret L (t @ [LFtruncate a n])) \<Longrightarrow> fds (view t) a = Some f \<Longrightarrow>
      view (t @ [LFtruncate a n]) = (view t)\<lparr>fsize := (fsize (view t))(f := n)\<rparr>"
    and unchanged: "view (t @ [LFstat a]) = view t" "view (t @ [LMmap addr n q m a off]) = view t"
      "view (t @ [LMunmap addr n]) = view t" "view (t @ [LPrint a str]) = view t"
begin

lemma open_phase:
  "phase view L (int_call L (LOpen p m)) (\<lambda>fd u c v d. fd < 64 \<and> fds u fd = None
     \<and> v = u\<lparr>fds := (fds u)(fd := Some (Named p))\<rparr> \<and> d = c)"
  by (rule phase_weaken [OF phase_call(2) [where R = "\<lambda>r u v. v = u\<lparr>fds := (fds u)(ucast r := Some (Named p))\<rparr>"]])
    (auto simp: opened)

lemma memfd_phase:
  "phase view L (int_call L (LMemfd n m)) (\<lambda>fd u c v d. fd < 64 \<and> fds u fd = None
     \<and> v = u\<lparr>fds := (fds u)(fd := Some (Memory n))\<rparr> \<and> d = c)"
  by (rule phase_weaken [OF phase_call(2) [where R = "\<lambda>r u v. v = u\<lparr>fds := (fds u)(ucast r := Some (Memory n))\<rparr>"]])
    (auto simp: created)

lemma dup2_phase:
  "phase view L (int_call L (LDup2 a b)) (\<lambda>_ u c v d. v = u\<lparr>fds := (fds u)(b := fds u a)\<rparr> \<and> d = c)"
  by (rule phase_weaken [OF phase_call(2) [where R = "\<lambda>r u v. v = u\<lparr>fds := (fds u)(b := fds u a)\<rparr>"]])
    (auto simp: duplicated)

lemma close_phase:
  "phase view L (int_call L (LClose a)) (\<lambda>_ u c v d. v = u\<lparr>fds := (fds u)(a := None)\<rparr> \<and> d = c)"
  by (rule phase_weaken [OF phase_call(2) [where R = "\<lambda>r u v. v = u\<lparr>fds := (fds u)(a := None)\<rparr>"]])
    (auto simp: closed)

lemma ftruncate_phase:
  "phase view L (int_call L (LFtruncate a n))
     (\<lambda>_ u c v d. (\<forall>f. fds u a = Some f \<longrightarrow> v = u\<lparr>fsize := (fsize u)(f := n)\<rparr>) \<and> d = c)"
  by (rule phase_weaken [OF phase_call(2) [where R = "\<lambda>r u v. \<forall>f. fds u a = Some f \<longrightarrow> v = u\<lparr>fsize := (fsize u)(f := n)\<rparr>"]])
    (auto simp: resized)

lemma fstat_phase:
  "phase view L (fstat L a) (\<lambda>z u c v d. (\<forall>f. fds u a = Some f \<longrightarrow> z = fsize u f) \<and> v = u \<and> d = c)"
  using unchanged by (auto simp: phase_def libc_call_def fstat_def Let_def andthen_apply)

lemma other_phases:
  "phase view L (libc_call L (LMmap p n q m a off)) (\<lambda>_ u c v d. v = u \<and> d = c)"
  "phase view L (int_call L (LMunmap p n)) (\<lambda>_ u c v d. v = u \<and> d = c)"
  "phase view L (int_call L (LPrint a str)) (\<lambda>_ u c v d. v = u \<and> d = c)"
  using unchanged by (auto simp: phase_def libc_call_def int_call_def Let_def andthen_apply)

lemmas phases = phase_andthen phase_pure open_phase memfd_phase dup2_phase close_phase ftruncate_phase
  fstat_phase other_phases

lemma close_new:
  assumes "x < (64 :: u32)" "m x = None"
  shows "64 \<le> b \<Longrightarrow> m(b := v, x := None) = m(b := v)"
    "y < 64 \<Longrightarrow> m y = None \<Longrightarrow> m(x := a, y := b', 64 := v, 65 := w, x := None, y := None) = m(64 := v, 65 := w)"
  using assms by (auto simp: fun_eq_iff)

lemma load_stub_files:
  "phase view L (load_stub L p) (\<lambda>x u c v d. snd x = page_up (fsize u (Named p)) \<and> v = u \<and> d = c)"
  unfolding load_stub_def Let_def by (rule phase_weaken, (rule phases)+) (auto simp: fun_upd_idem)

lemma open_kernel_files:
  "phase view L (open_kernel L p)
     (\<lambda>x u c v d. x = fsize u (Named p) \<and> v = u\<lparr>fds := (fds u)(66 := Some (Named p))\<rparr> \<and> d = c)"
  unfolding open_kernel_def KERNEL_FD_def by (rule phase_weaken, (rule phases)+) (auto simp: close_new)

lemma open_block_files:
  "phase view L (open_block L p) (\<lambda>_ u c v d. v = u\<lparr>fds := (fds u)(67 := Some (Named p))\<rparr> \<and> d = c)"
  unfolding open_block_def BLOCK_FD_def by (rule phase_weaken, (rule phases)+) (auto simp: close_new)

lemma create_memory_files:
  "phase view L (create_memory L) (\<lambda>_ u c v d.
     v = u\<lparr>fds := (fds u)(64 := Some (Memory ''config_fd''), 65 := Some (Memory ''ram_fd'')),
       fsize := (fsize u)(Memory ''config_fd'' := CONF_SIZE, Memory ''ram_fd'' := RAM_SIZE)\<rparr> \<and> d = c)"
  unfolding create_memory_def CONFIG_FD_def RAM_FD_def
  by (rule phase_weaken, (rule phases)+) (auto simp: close_new split: if_splits)

lemma write_config_files:
  "phase view L (write_config L a n k)
     (\<lambda>_ u c v d. v = u \<and> d = c\<lparr>stub_start := a, stub_size := n, kernel_size := k\<rparr>)"
  unfolding write_config_def by (rule phase_weaken, (rule phases)+) auto

lemma main_files:
  assumes "length argv = 4"
  shows "phase view L (main L argv) (\<lambda>a u c v d.
     v = u\<lparr>fds := (fds u)(66 := Some (Named (argv ! 2)), 64 := Some (Memory ''config_fd''),
           65 := Some (Memory ''ram_fd''), 67 := Some (Named (argv ! 3))),
         fsize := (fsize u)(Memory ''config_fd'' := CONF_SIZE, Memory ''ram_fd'' := RAM_SIZE)\<rparr>
     \<and> d = c\<lparr>stub_start := a, stub_size := page_up (fsize u (Named (argv ! 1))),
         kernel_size := fsize u (Named (argv ! 2))\<rparr>)"
  unfolding main_def case_prod_beta using assms
  apply simp
  by (rule phase_weaken, (rule phases load_stub_files open_kernel_files create_memory_files open_block_files
      write_config_files)+) auto

end

section \<open>Replaying the calls\<close>

fun os_step :: "lcall \<Rightarrow> u64 \<Rightarrow> os \<Rightarrow> os" where
  "os_step (LOpen p m) r v = v\<lparr>fds := (fds v)(ucast r := Some (Named p))\<rparr>"
| "os_step (LMemfd n m) r v = v\<lparr>fds := (fds v)(ucast r := Some (Memory n))\<rparr>"
| "os_step (LDup2 a b) r v = v\<lparr>fds := (fds v)(b := fds v a)\<rparr>"
| "os_step (LClose a) r v = v\<lparr>fds := (fds v)(a := None)\<rparr>"
| "os_step (LFtruncate a n) r v =
     (case fds v a of None \<Rightarrow> v | Some f \<Rightarrow> v\<lparr>fsize := (fsize v)(f := n)\<rparr>)"
| "os_step c r v = v"

fun os_rev :: "os \<Rightarrow> libc \<Rightarrow> lcall list \<Rightarrow> os" where
  "os_rev v L [] = v"
| "os_rev v L (c # r) =
     (let x = lret L (rev (c # r)) in if failed x then os_rev v L r else os_step c x (os_rev v L r))"

definition os_after :: "os \<Rightarrow> libc \<Rightarrow> lcall list \<Rightarrow> os" where
  "os_after v L t = os_rev v L (rev t)"

interpretation files: linux_files "os_after v L" L for v L
  by unfold_locales (auto simp: os_after_def Let_def)

text \<open>Whether calls are granted can be checked along the replay.\<close>

fun grants :: "libc \<Rightarrow> os \<Rightarrow> lcall list \<Rightarrow> lcall list \<Rightarrow> bool" where
  "grants L v t [] = True"
| "grants L v t (c # cs) = (let t' = t @ [c]; r = lret L t' in granted c r (lstat L t') v \<and>
     grants L (if failed r then v else os_step c r v) t' cs)"

lemma orderly_replay: "orderly (os_after v L) L t cs \<longleftrightarrow> grants L (os_after v L t) t cs"
  by (induction cs arbitrary: t) (simp_all add: Let_def os_after_def)

section \<open>How the loader ends\<close>

text \<open>
  \<open>ends m P Q\<close>: from every state \<open>m\<close> either returns a value with \<open>P\<close> or stops for a reason
  with \<open>Q\<close>.
\<close>

definition ends :: "('s, 'a) prog \<Rightarrow> ('a \<Rightarrow> bool) \<Rightarrow> (stop \<Rightarrow> bool) \<Rightarrow> bool" where
  "ends m P Q \<longleftrightarrow> (\<forall>s. case m s of Ok x s' \<Rightarrow> P x | Stop e s' \<Rightarrow> Q e)"

lemma ends_andthen:
  assumes "ends m P Q" "\<And>x. P x \<Longrightarrow> ends (f x) P' Q"
  shows "ends (andthen m f) P' Q"
  unfolding ends_def andthen_apply
proof
  fix s
  show "case (case m s of Ok x s' \<Rightarrow> f x s' | Stop e s' \<Rightarrow> Stop e s') of Ok x s' \<Rightarrow> P' x | Stop e s' \<Rightarrow> Q e"
    using assms unfolding ends_def by (cases "m s") (auto dest!: spec [where x = s])
qed

lemma ends_weaken: "ends m P Q \<Longrightarrow> (\<And>x. P x \<Longrightarrow> P' x) \<Longrightarrow> (\<And>e. Q e \<Longrightarrow> Q' e) \<Longrightarrow> ends m P' Q'"
  unfolding ends_def by (metis outcome.case outcome.exhaust)

lemma ends_simple:
  "PX x \<Longrightarrow> ends (ret x) PX Q" "P () \<Longrightarrow> ends skip P Q" "P () \<Longrightarrow> ends (modify h) P Q"
  "(\<And>t. PI (ucast (lret L (t @ [c])))) \<Longrightarrow> ends (int_call L c) PI Q"
  "(\<And>t. PL (lret L (t @ [c]))) \<Longrightarrow> ends (libc_call L c) PL Q"
  "(\<And>z. PL z) \<Longrightarrow> ends (fstat L a) PL Q"
  "(\<not> is_err p \<Longrightarrow> P ()) \<Longrightarrow> (is_err p \<Longrightarrow> Q Segv) \<Longrightarrow> ends (deref p) P Q"
  by (auto simp: ends_def int_call_def libc_call_def fstat_def Let_def andthen_apply deref_def)

lemma load_stub_ends:
  assumes "\<And>t n fd. P (lret L (t @ [LMmap 0 n 5 2 fd 0]))"
  shows "ends (load_stub L p) (\<lambda>x. P (fst x)) Q"
proof -
  have e: "PROT_EXEC OR PROT_READ = 5" "MAP_PRIVATE = 2" by (simp_all add: riscv_const)
  show ?thesis unfolding load_stub_def Let_def e
    by (rule ends_andthen [where P = "\<lambda>_. True"], simp add: ends_simple,
        rule ends_andthen [where P = "\<lambda>_. True"], simp add: ends_simple,
        rule ends_andthen [where P = P], simp add: ends_simple assms,
        rule ends_andthen [where P = "\<lambda>_. True"], simp_all add: ends_simple)
qed

lemma middle_ends:
  "ends (open_kernel L p) (\<lambda>_. True) Q" "ends (create_memory L) (\<lambda>_. True) Q" "ends (open_block L p) (\<lambda>_. True) Q"
  unfolding open_kernel_def create_memory_def open_block_def
  by ((rule ends_andthen [where P = "\<lambda>_. True"] | rule ends_simple | rule TrueI)+)

lemma write_config_ends:
  assumes "Q Segv \<or> (\<forall>t. \<not> is_err (lret L (t @ [LMmap 0 CONF_SIZE 3 1 CONFIG_FD 0])))"
  shows "ends (write_config L a n k) (\<lambda>_. True) Q"
proof -
  have e: "PROT_READ OR PROT_WRITE = 3" "MAP_SHARED = 1" by (simp_all add: riscv_const)
  show ?thesis unfolding write_config_def e
  proof (rule ends_andthen [where P = "\<lambda>r. Q Segv \<or> \<not> is_err r"])
    show "ends (libc_call L (LMmap 0 CONF_SIZE 3 1 CONFIG_FD 0)) (\<lambda>r. Q Segv \<or> \<not> is_err r) Q"
      using assms by (auto intro: ends_simple)
  qed ((rule ends_andthen [where P = "\<lambda>_. True"] | rule ends_simple | rule TrueI | blast)+)
qed

lemma main_ends:
  assumes "length argv = 4" and "\<And>t n fd. P (lret L (t @ [LMmap 0 n 5 2 fd 0]))"
    and "\<And>a. P a \<Longrightarrow> is_err a \<Longrightarrow> Q Segv"
    and "Q Segv \<or> (\<forall>t. \<not> is_err (lret L (t @ [LMmap 0 CONF_SIZE 3 1 CONFIG_FD 0])))"
  shows "ends (main L argv) (\<lambda>a. P a \<and> \<not> is_err a) Q"
proof -
  have jump: "ends (andthen (deref a) (\<lambda>_. ret a)) (\<lambda>a. P a \<and> \<not> is_err a) Q" if "P a" for a
    by (rule ends_andthen [where P = "\<lambda>_. \<not> is_err a"]) (use that assms(3) in \<open>auto intro: ends_simple\<close>)
  note steps = load_stub_ends [where P = P] middle_ends write_config_ends [where Q = Q and L = L, OF assms(4)]
  have "main L argv = andthen (load_stub L (argv ! 1)) (\<lambda>x.
      andthen (open_kernel L (argv ! 2)) (\<lambda>k. andthen (create_memory L) (\<lambda>_. andthen (open_block L (argv ! 3)) (\<lambda>_.
      andthen (write_config L (fst x) (snd x) k) (\<lambda>_.
      andthen (int_call L (LPrint STDERR_FILENO (''[urvirt] Entering urvirt-stub'' @ newline))) (\<lambda>_.
      andthen (deref (fst x)) (\<lambda>_. ret (fst x))))))))"
    unfolding main_def case_prod_beta using assms(1) by simp
  moreover have "ends \<dots> (\<lambda>a. P a \<and> \<not> is_err a) Q"
    by (rule steps [THEN ends_andthen] assms(2))+
      (rule ends_andthen [where P = "\<lambda>_. True"], simp add: ends_simple, rule jump)
  ultimately show ?thesis by simp
qed

lemma page_up_unat:
  assumes "unat n + 4096 \<le> 2 ^ 64"
  shows "unat (page_up n) = (unat n + 4095) div 4096 * 4096"
proof -
  have m: "(4095 :: u64) = mask 12" by (simp add: mask_eq_decr_exp)
  have "unat (n + 4095) = unat n + 4095" using assms by (simp add: unat_word_ariths)
  moreover have "page_up n = (n + 4095) - take_bit 12 (n + 4095)"
    unfolding page_up_def using and_not_mask_eq [of "n + 4095" 12] by (simp add: m)
  moreover have "take_bit 12 (n + 4095) \<le> n + 4095" by (simp add: word_le_nat_alt unsigned_take_bit_eq)
  ultimately have "unat (page_up n) = (unat n + 4095) - (unat n + 4095) mod 4096"
    by (simp add: unat_sub take_bit_eq_mod unat_mod)
  then show ?thesis by (simp add: minus_mod_eq_div_mult)
qed

lemma main_reaches:
  assumes "length argv = 4" and "ltrace s = []"
    and "\<forall>t p n q m fd. \<not> is_err (lret L (t @ [LMmap p n q m fd 0]))"
  shows "\<exists>a s'. main L argv s = Ok a s' \<and> (orderly (os_after v L) L [] (ltrace s') \<longrightarrow>
     os_after v L (ltrace s') = v\<lparr>fds := (fds v)(66 := Some (Named (argv ! 2)), 64 := Some (Memory ''config_fd''),
           65 := Some (Memory ''ram_fd''), 67 := Some (Named (argv ! 3))),
         fsize := (fsize v)(Memory ''config_fd'' := CONF_SIZE, Memory ''ram_fd'' := RAM_SIZE)\<rparr>
     \<and> config s' = (config s)\<lparr>stub_start := a, stub_size := page_up (fsize v (Named (argv ! 1))),
         kernel_size := fsize v (Named (argv ! 2))\<rparr>)"
proof -
  have "ends (main L argv) (\<lambda>a. \<not> is_err a \<and> \<not> is_err a) (\<lambda>_. False)"
    by (rule main_ends) (use assms in auto)
  then obtain a s' where m: "main L argv s = Ok a s'"
    unfolding ends_def by (metis (no_types, lifting) outcome.case(2) outcome.exhaust)
  have v: "os_after v L (ltrace s) = v" by (simp add: assms(2) os_after_def)
  show ?thesis
    using files.main_files [OF assms(1), of v L, unfolded phase_def, rule_format, OF m] m
    unfolding v unfolding assms(2) by auto
qed

section \<open>Properties\<close>

text \<open>
  C21: the loader hands over what the stub expects.  Given three file names, the loader
  reaches its jump unless a mapping fails, and if the system granted its calls (new descriptors free
  and below 64, sizes reported as they are), then at the jump descriptor 64 is a fresh memory
  file of 4 KiB, 65 one of 16 MiB, 66 the kernel image and 67 the block image, every other
  descriptor is as it was, and the configuration page holds the address of the stub, its size
  rounded up to whole pages and the size of the kernel image.
\<close>

theorem loader_hands_over:
  assumes "length argv = 4" and "ltrace s = []"
    and "\<forall>t p n q m fd. \<not> is_err (lret L (t @ [LMmap p n q m fd 0]))"
  shows "\<exists>a s'. main L argv s = Ok a s' \<and>
    (orderly (os_after v L) L [] (ltrace s') \<longrightarrow>
      os_after v L (ltrace s') = v\<lparr>
        fds := (fds v)(64 := Some (Memory ''config_fd''), 65 := Some (Memory ''ram_fd''),
          66 := Some (Named (argv ! 2)), 67 := Some (Named (argv ! 3))),
        fsize := (fsize v)(Memory ''config_fd'' := 4096, Memory ''ram_fd'' := 0x1000000)\<rparr>
      \<and> stub_start (config s') = a \<and> kernel_size (config s') = fsize v (Named (argv ! 2))
      \<and> (unat (fsize v (Named (argv ! 1))) + 4096 \<le> 2 ^ 64 \<longrightarrow>
          unat (stub_size (config s')) = (unat (fsize v (Named (argv ! 1))) + 4095) div 4096 * 4096))"
proof -
  have "m(66 := a, 64 := b, 65 := c, 67 := d) = m(64 := b, 65 := c, 66 := a, 67 := d)"
    for m :: "u32 \<Rightarrow> fileid option" and a b c d by (auto simp: fun_eq_iff)
  with main_reaches [OF assms, of v] show ?thesis by (auto simp: page_up_unat CONF_SIZE_def RAM_SIZE_def)
qed

text \<open>A system that grants every call of the loader, with a stub of 5000 bytes and a kernel of 16 KiB.\<close>

fun sample_ret :: "lcall \<Rightarrow> u64" where
  "sample_ret (LOpen p m) = 3"
| "sample_ret (LMemfd n m) = (if n = ''config_fd'' then 3 else 4)"
| "sample_ret (LMmap p n q m fd off) = 0x3000000000"
| "sample_ret (LDup2 a b) = ucast b"
| "sample_ret _ = 0"

definition sample_libc :: libc where
  "sample_libc = \<lparr>lret = (\<lambda>t. sample_ret (last t)),
    lstat = (\<lambda>t. if length t = 2 then 5000 else 0x4000)\<rparr>"

definition sample_os :: os where
  "sample_os = \<lparr>fds = (\<lambda>_. None), fsize = (\<lambda>f. if f = Named ''stub'' then 5000 else 0x4000)\<rparr>"

definition sample_loader :: loader where
  "sample_loader = \<lparr>ltrace = [], config = sample_priv\<rparr>"

definition sample_argv :: "string list" where
  "sample_argv = [''urvirt'', ''stub'', ''kernel'', ''fs'']"

definition sample_calls :: "lcall list" where
  "sample_calls = [LOpen ''stub'' 0, LFstat 3, LMmap 0 0x2000 5 2 3 0, LClose 3,
     LOpen ''kernel'' 0, LFstat 3, LDup2 3 66, LClose 3,
     LMemfd ''config_fd'' 0, LMemfd ''ram_fd'' 0, LFtruncate 3 4096, LFtruncate 4 0x1000000, LDup2 3 64, LDup2 4 65,
     LClose 3, LClose 4, LOpen ''fs'' 2, LDup2 3 67, LClose 3,
     LMmap 0 4096 3 1 64 0, LMunmap 0x3000000000 4096, LPrint 2 (''[urvirt] Entering urvirt-stub'' @ newline)]"

lemma call_apply:
  "int_call L c s = Ok (ucast (lret L (ltrace s @ [c]))) (s\<lparr>ltrace := ltrace s @ [c]\<rparr>)"
  "libc_call L c s = Ok (lret L (ltrace s @ [c])) (s\<lparr>ltrace := ltrace s @ [c]\<rparr>)"
  "fstat L fd s = Ok (lstat L (ltrace s @ [LFstat fd])) (s\<lparr>ltrace := ltrace s @ [LFstat fd]\<rparr>)"
  by (simp_all add: int_call_def libc_call_def fstat_def Let_def)

lemma sample_results [simp]:
  "lret sample_libc t = sample_ret (last t)" "lstat sample_libc t = (if length t = 2 then 5000 else 0x4000)"
  by (simp_all add: sample_libc_def)

lemma sample_phases:
  "load_stub sample_libc p \<lparr>ltrace = [], config = c\<rparr> = Ok (0x3000000000, 0x2000)
     \<lparr>ltrace = [LOpen p 0, LFstat 3, LMmap 0 0x2000 5 2 3 0, LClose 3], config = c\<rparr>"
  "length t = 4 \<Longrightarrow> open_kernel sample_libc p \<lparr>ltrace = t, config = c\<rparr> = Ok 0x4000
     \<lparr>ltrace = t @ [LOpen p 0, LFstat 3, LDup2 3 66, LClose 3], config = c\<rparr>"
  "create_memory sample_libc \<lparr>ltrace = t, config = c\<rparr> = Ok ()
     \<lparr>ltrace = t @ [LMemfd ''config_fd'' 0, LMemfd ''ram_fd'' 0, LFtruncate 3 4096, LFtruncate 4 0x1000000,
        LDup2 3 64, LDup2 4 65, LClose 3, LClose 4], config = c\<rparr>"
  "open_block sample_libc p \<lparr>ltrace = t, config = c\<rparr> = Ok ()
     \<lparr>ltrace = t @ [LOpen p 2, LDup2 3 67, LClose 3], config = c\<rparr>"
  "write_config sample_libc a n k \<lparr>ltrace = t, config = c\<rparr> = Ok ()
     \<lparr>ltrace = t @ [LMmap 0 4096 3 1 64 0, LMunmap 0x3000000000 4096],
      config = c\<lparr>stub_start := a, stub_size := n, kernel_size := k\<rparr>\<rparr>"
  subgoal by (simp add: load_stub_def call_apply riscv_const page_up_def Let_def)
  subgoal by (simp add: open_kernel_def call_apply riscv_const)
  subgoal by (simp add: create_memory_def call_apply riscv_const)
  subgoal by (simp add: open_block_def call_apply riscv_const)
  subgoal by (simp add: write_config_def call_apply riscv_const deref_def is_err_def)
  done

lemma sample_main:
  "main sample_libc sample_argv sample_loader = Ok 0x3000000000 \<lparr>ltrace = sample_calls,
     config = sample_priv\<lparr>stub_start := 0x3000000000, stub_size := 0x2000, kernel_size := 0x4000\<rparr>\<rparr>"
  by (simp add: main_def sample_argv_def sample_loader_def sample_phases call_apply deref_def is_err_def sample_calls_def
     STDERR_FILENO_def)

lemma sample_orderly: "orderly (os_after sample_os sample_libc) sample_libc [] sample_calls"
proof -
  have "grants sample_libc sample_os [] sample_calls" by code_simp
  then show ?thesis by (simp add: orderly_replay os_after_def)
qed

theorem loader_hands_over_witness:
  "\<exists>s'. main sample_libc sample_argv sample_loader = Ok 0x3000000000 s'
     \<and> fds (os_after sample_os sample_libc (ltrace s')) 66 = Some (Named ''kernel'')
     \<and> unat (stub_size (config s')) = 8192 \<and> kernel_size (config s') = 0x4000"
proof -
  have "length sample_argv = 4" "ltrace sample_loader = []"
    "\<forall>t p n q m fd. \<not> is_err (lret sample_libc (t @ [LMmap p n q m fd 0]))"
    by (simp_all add: sample_libc_def is_err_def sample_argv_def sample_loader_def)
  from loader_hands_over [OF this, of sample_os] show ?thesis
    by (simp add: sample_main sample_orderly) (simp add: sample_argv_def sample_os_def)
qed

text \<open>
  C40: the failures of the loader.  With the wrong number of arguments it prints its usage
  and exits with status 1 before it opens anything; otherwise no result is checked, and when the
  stub cannot be mapped, whether its file is missing or the mapping is refused, the loader goes on
  to the end and faults, at the latest at its jump.
\<close>

theorem loader_fails:
  "(length argv \<noteq> 4 \<and> argv \<noteq> [] \<longrightarrow> main L argv s = Stop (Exit 1) (s\<lparr>ltrace := ltrace s @
      [LPrint 2 (''Usage: '' @ hd argv @ '' <stub-image> <kernel-image> <fs-img>'' @ newline)]\<rparr>))
   \<and> (length argv = 4 \<and> (\<forall>t n fd. is_err (lret L (t @ [LMmap 0 n 5 2 fd 0]))) \<longrightarrow>
        (\<exists>s'. main L argv s = Stop Segv s'))"
proof (intro conjI impI)
  assume "length argv \<noteq> 4 \<and> argv \<noteq> []"
  then show "main L argv s = Stop (Exit 1) (s\<lparr>ltrace := ltrace s @
      [LPrint 2 (''Usage: '' @ hd argv @ '' <stub-image> <kernel-image> <fs-img>'' @ newline)]\<rparr>)"
    by (simp add: main_def call_apply STDERR_FILENO_def hd_conv_nth)
next
  assume a: "length argv = 4 \<and> (\<forall>t n fd. is_err (lret L (t @ [LMmap 0 n 5 2 fd 0])))"
  have "ends (main L argv) (\<lambda>a. is_err a \<and> \<not> is_err a) (\<lambda>e. e = Segv)"
    by (rule main_ends) (use a in auto)
  then show "\<exists>s'. main L argv s = Stop Segv s'"
    unfolding ends_def by (cases "main L argv s") (auto dest!: spec [where x = s])
qed

theorem loader_fails_witness:
  "(\<exists>s'. main sample_libc [''urvirt''] sample_loader = Stop (Exit 1) s' \<and> length (ltrace s') = 1)
   \<and> (\<exists>s'. main \<lparr>lret = (\<lambda>_. - 1), lstat = (\<lambda>_. 0)\<rparr> sample_argv sample_loader = Stop Segv s')"
  using loader_fails [of "[''urvirt'']" sample_libc sample_loader]
    loader_fails [of sample_argv "\<lparr>lret = (\<lambda>_. - 1), lstat = (\<lambda>_. 0)\<rparr>" sample_loader]
  by (simp add: sample_argv_def sample_loader_def is_err_def)

text \<open>
  The descriptors of the loader can collide.  If the process inherited so many open
  files that the configuration file is created at the very descriptor 64 it is meant for,
  duplicating it there changes nothing and closing the original closes it: the stub finds no
  configuration.
\<close>

lemma descriptor_collision:
  assumes "lret L (ltrace s @ [LMemfd ''config_fd'' 0]) = 64"
    and "\<forall>t a. \<not> failed (lret L (t @ [LClose a]))"
  shows "\<exists>s'. create_memory L s = Ok () s' \<and> fds (os_after v L (ltrace s')) CONFIG_FD = None"
proof -
  have "\<exists>t a. ltrace s' = t @ [LClose 64, LClose a]" if "create_memory L s = Ok () s'" for s'
    using that assms(1) by (auto simp: create_memory_def call_apply CONFIG_FD_def)
  moreover have "fds (os_after v L (t @ [LClose 64, LClose a])) CONFIG_FD = None" for t a
    using files.closed [of L "t @ [LClose 64]" a v] files.closed [of L t 64 v] assms(2) [rule_format, of "t @ [LClose 64]" a]
      assms(2) [rule_format, of t 64]
    by (simp add: CONFIG_FD_def)
  moreover have "\<exists>s'. create_memory L s = Ok () s'"
    by (simp add: create_memory_def call_apply)
  ultimately show ?thesis by metis
qed

end
