(* ===== verification/Board.thy ===== *)
theory Board
  imports Sbi
begin

text \<open>
  The machine a guest is written for, as the guest's author sees it: a hart with its registers and
  supervisor CSRs (\<open>isa\<close>), byte memory, and a console behind the putchar call of the supervisor
  binary interface.  It runs the handful of instructions that the test guest of
  \<^verbatim>\<open>src/src/test-kernel\<close> is made of.  Interrupts are not part of it: that guest never enables any.
  
  What the toolchain decides is a parameter: where an instruction lies and whether it is compressed
  (\<open>code\<close>, which gives at an address the instruction and its length).  \<open>placed\<close> is what an
  assembler promises: the instructions of a block follow each other, and a system instruction or
  \<open>ecall\<close> is four bytes long.
\<close>

section \<open>Definitions\<close>

record board =
  cpu :: isa
  bytes :: "u64 \<Rightarrow> u8"
  console :: "u8 list"

definition load64 :: "(u64 \<Rightarrow> u8) \<Rightarrow> u64 \<Rightarrow> u64" where
  "load64 m a = foldr (\<lambda>k w. push_bit (8 * k) (ucast (m (a + of_nat k))) OR w) [0..<8] 0"

definition store64 :: "(u64 \<Rightarrow> u8) \<Rightarrow> u64 \<Rightarrow> u64 \<Rightarrow> u64 \<Rightarrow> u8" where
  "store64 m a v = (\<lambda>x. if unat (x - a) < 8 then ucast (drop_bit (8 * unat (x - a)) v) else m x)"

text \<open>
  The instructions.  The outcome \<open>None\<close> is a firmware call that this machine does not have, or an
  address without code.
\<close>

datatype ginstr =
    Addi "5 word" "5 word" u64
  | Li "5 word" u64
  | Mv "5 word" "5 word"
  | Ld "5 word" u64 "5 word"
  | Sd "5 word" u64 "5 word"
  | Sys sys_instr
  | Ecall_instr

abbreviation upd_reg :: "5 word \<Rightarrow> u64 \<Rightarrow> u64 \<Rightarrow> board \<Rightarrow> board" where
  "upd_reg rd v n b \<equiv> b\<lparr>cpu := (set_xreg rd v (cpu b))\<lparr>pc := pc (cpu b) + n\<rparr>\<rparr>"

fun exec :: "ginstr \<Rightarrow> u64 \<Rightarrow> board \<Rightarrow> board option" where
  "exec (Addi rd rs imm) n b = Some (upd_reg rd (xregs (cpu b) rs + imm) n b)"
| "exec (Li rd imm) n b = Some (upd_reg rd imm n b)"
| "exec (Mv rd rs) n b = Some (upd_reg rd (xregs (cpu b) rs) n b)"
| "exec (Ld rd off rs) n b = Some (upd_reg rd (load64 (bytes b) (xregs (cpu b) rs + off)) n b)"
| "exec (Sd rs2 off rs1) n b = Some (b\<lparr>cpu := (cpu b)\<lparr>pc := pc (cpu b) + n\<rparr>,
     bytes := store64 (bytes b) (xregs (cpu b) rs1 + off) (xregs (cpu b) rs2)\<rparr>)"
| "exec (Sys i) n b = Some (b\<lparr>cpu := (if mode (cpu b) = S_mode then isa_exec i (cpu b) else isa_trap 2 0 (cpu b))\<rparr>)"
| "exec Ecall_instr n b =
     (if mode (cpu b) = U_mode then Some (b\<lparr>cpu := isa_trap 8 0 (cpu b)\<rparr>)
      else if xregs (cpu b) 17 = SBI_CONSOLE_PUTCHAR then
        Some (upd_reg 10 0 4 (b\<lparr>console := console b @ [ucast (xregs (cpu b) 10)]\<rparr>))
      else None)"

type_synonym code = "u64 \<Rightarrow> (ginstr \<times> u64) option"

definition step :: "code \<Rightarrow> board \<Rightarrow> board option" where
  "step F b = (case F (pc (cpu b)) of None \<Rightarrow> None | Some (i, n) \<Rightarrow> exec i n b)"

fun steps :: "code \<Rightarrow> nat \<Rightarrow> board \<Rightarrow> board option" where
  "steps F 0 b = Some b"
| "steps F (Suc n) b = (case step F b of None \<Rightarrow> None | Some b' \<Rightarrow> steps F n b')"

fun wide :: "ginstr \<Rightarrow> bool" where
  "wide (Sys i) = True" | "wide Ecall_instr = True" | "wide _ = False"

fun placed :: "code \<Rightarrow> u64 \<Rightarrow> ginstr list \<Rightarrow> bool" where
  "placed F a [] = True"
| "placed F a (i # is) = (case F a of None \<Rightarrow> False
     | Some (j, n) \<Rightarrow> j = i \<and> (n = 4 \<or> n = 2 \<and> \<not> wide i) \<and> placed F (a + n) is)"

section \<open>Memory\<close>

lemma bit_load64: "bit (load64 m a) n \<longleftrightarrow> n < 64 \<and> bit (m (a + of_nat (n div 8))) (n mod 8)"
proof -
  have g: "bit (foldr (\<lambda>k w. push_bit (8 * k) (ucast (f k :: u8)) OR w) ks (0 :: u64)) n \<longleftrightarrow>
      n < 64 \<and> (\<exists>k\<in>set ks. 8 * k \<le> n \<and> bit (f k) (n - 8 * k))" for f ks
    by (induction ks) (auto simp: bit_simps)
  have k: "8 * k \<le> n \<and> bit (m (a + of_nat k)) (n - 8 * k) \<longleftrightarrow> k = n div 8 \<and> bit (m (a + of_nat (n div 8))) (n mod 8)" for k
  proof (cases "k = n div 8")
    case True
    have "8 * (n div 8) \<le> n" by simp
    moreover have "n - 8 * (n div 8) = n mod 8" by (simp add: minus_mult_div_eq_mod)
    ultimately show ?thesis using True by simp
  next
    case False
    have "8 \<le> n - 8 * k" if "8 * k \<le> n" using that False by linarith
    then show ?thesis using False by (auto dest: bit_imp_le_length)
  qed
  show ?thesis
    unfolding load64_def g k by (auto simp: less_mult_imp_div_less)
qed

lemma load_store [simp]: "load64 (store64 m a v) a = v"
proof (rule bit_word_eqI)
  fix n assume "n < LENGTH(64)"
  then have "n div 8 < 8" by (simp add: less_mult_imp_div_less)
  then have "unat (of_nat (n div 8) :: u64) = n div 8" by (simp add: unsigned_of_nat take_bit_nat_eq_self)
  then show "bit (load64 (store64 m a v) a) n = bit v n"
    using \<open>n div 8 < 8\<close> \<open>n < LENGTH(64)\<close> by (simp add: bit_load64 store64_def bit_simps)
qed

lemma load_store_other:
  assumes "8 \<le> unat (a - b)" and "unat (a - b) \<le> 2 ^ 64 - 8"
  shows "load64 (store64 m b v) a = load64 m a"
proof (rule bit_word_eqI)
  fix n assume n: "n < LENGTH(64)"
  then have k: "n div 8 < 8" by (simp add: less_mult_imp_div_less)
  have "unat ((a - b) + of_nat (n div 8)) = unat (a - b) + n div 8"
    using assms k by (simp add: unat_word_ariths(1) unsigned_of_nat take_bit_nat_eq_self)
  moreover have "(a - b) + of_nat (n div 8) = a + of_nat (n div 8) - b" by simp
  ultimately have "8 \<le> unat (a + of_nat (n div 8) - b)" using assms(1) by (metis trans_le_add1)
  then show "bit (load64 (store64 m b v) a) n = bit (load64 m a) n"
    by (simp add: bit_load64 store64_def)
qed

section \<open>Straight-line code\<close>

text \<open>
  \<open>eff\<close> is the effect of an instruction on everything but the \<open>pc\<close>; a straight-line block that
  is placed at the \<open>pc\<close> has the composed effect of its instructions, whatever their lengths.
\<close>

fun straight :: "ginstr \<Rightarrow> bool" where
  "straight (Sys (Csr op src c rd)) = True" | "straight (Sys i) = False" | "straight Ecall_instr = False"
| "straight i = True"

definition eff :: "ginstr \<Rightarrow> board \<Rightarrow> board" where
  "eff i b = (the (exec i 0 b))\<lparr>cpu := (cpu (the (exec i 0 b)))\<lparr>pc := pc (cpu b)\<rparr>\<rparr>"

definition at_pc :: "u64 \<Rightarrow> board \<Rightarrow> board" where
  "at_pc a b = b\<lparr>cpu := (cpu b)\<lparr>pc := a\<rparr>\<rparr>"

lemma at_pc_simps [simp]:
  "pc (cpu (at_pc a b)) = a" "xregs (cpu (at_pc a b)) = xregs (cpu b)" "csrs (cpu (at_pc a b)) = csrs (cpu b)"
  "mode (cpu (at_pc a b)) = mode (cpu b)" "bytes (at_pc a b) = bytes b" "console (at_pc a b) = console b"
  "at_pc a (at_pc a' b) = at_pc a b" "at_pc (pc (cpu b)) b = b"
  by (simp_all add: at_pc_def)

lemma src_value_at_pc [simp]: "src_value src (cpu (at_pc a b)) = src_value src (cpu b)"
  by (cases src) simp_all

lemma set_xreg_simps [simp]:
  "xregs (set_xreg r v i) = (if r = 0 then xregs i else (xregs i)(r := v))" "csrs (set_xreg r v i) = csrs i"
  "mode (set_xreg r v i) = mode i" "pc (set_xreg r v i) = pc i"
  by (simp_all add: set_xreg_def)

lemma board_eqI:
  assumes "pc (cpu a) = pc (cpu b)" "xregs (cpu a) = xregs (cpu b)" "csrs (cpu a) = csrs (cpu b)"
    "mode (cpu a) = mode (cpu b)" "bytes a = bytes b" "console a = console b"
  shows "a = (b :: board)"
  using assms by simp

lemma exec_straight:
  assumes "straight i" and "mode (cpu b) = S_mode" and "n = 4 \<or> n = 2 \<and> \<not> wide i"
  shows "exec i n (at_pc a b) = Some (at_pc (a + n) (eff i b))" "mode (cpu (eff i b)) = S_mode"
proof -
  show "exec i n (at_pc a b) = Some (at_pc (a + n) (eff i b))"
    using assms by (cases i rule: straight.cases; simp; intro board_eqI; simp add: eff_def Let_def)
  show "mode (cpu (eff i b)) = S_mode"
    using assms by (cases i rule: straight.cases; simp add: eff_def Let_def)
qed

lemma steps_add: "steps F (m + n) b = (case steps F m b of None \<Rightarrow> None | Some b' \<Rightarrow> steps F n b')"
  by (induction m arbitrary: b) (simp_all split: option.split)

lemma straight_run:
  assumes "placed F a (is @ rest)" and "\<forall>i\<in>set is. straight i" and "mode (cpu b) = S_mode"
  shows "\<exists>a'. steps F (length is) (at_pc a b) = Some (at_pc a' (foldl (\<lambda>b i. eff i b) b is))
    \<and> mode (cpu (foldl (\<lambda>b i. eff i b) b is)) = S_mode \<and> placed F a' rest"
  using assms
proof (induction "is" arbitrary: a b)
  case (Cons i "is")
  then obtain n where n: "F a = Some (i, n)" "n = 4 \<or> n = 2 \<and> \<not> wide i" "placed F (a + n) (is @ rest)"
    by (auto split: option.splits)
  note e = exec_straight [of i b n]
  show ?case
    using Cons.IH [OF n(3), of "eff i b"] Cons.prems(2,3) e n by (simp add: step_def)
qed auto

end
