(* ===== verification/Guest.thy ===== *)
theory Guest
  imports Board Address_Space
begin

text \<open>
  The test guest: \<^verbatim>\<open>src/src/test-kernel/test-kernel.c\<close> and
  \<^verbatim>\<open>src/src/test-kernel/sbi.h\<close>, with the stub they run on.
  
  The guest prints a string from user mode: \<open>kernel_main\<close> sets the trap vector and drops to \<open>umode\<close>,
  which passes each character, less 3, to an \<open>ecall\<close>; the trap handler \<open>stvec\<close> adds 3 and hands it to
  the firmware.  The theorems show that the guest is right on the machine of \<open>Board\<close>, that the signal
  handler of the stub implements the privileged steps of that machine, and that the guest
  nevertheless does not survive on the stub, which cannot serve page faults without translation.
  
  The code between the assembly statements is the compiler's: it reaches each statement with the
  operand in a register of its choice and any values in the other registers and in memory
  (\<open>asm_site\<close>).
\<close>

section \<open>Definitions\<close>

lemma next_byte: "p < e \<Longrightarrow> unat (p + 1) = unat p + 1" for p e :: u64
  using unsigned_less [of e, where ?'a = nat] by (simp add: unat_word_ariths word_less_nat_alt)

text \<open>
  \<open>clear_bss\<close>, a loop over the bytes from \<open>sbss\<close> to \<open>ebss\<close>.
\<close>

function clear_from :: "u64 \<Rightarrow> u64 \<Rightarrow> (u64 \<Rightarrow> u8) \<Rightarrow> u64 \<Rightarrow> u8" where
  "clear_from ebss p m = (if p < ebss then clear_from ebss (p + 1) (m(p := 0)) else m)"
  by pat_completeness auto

termination
  by (relation "measure (\<lambda>(e, p, m). unat e - unat p)") (simp_all add: next_byte word_less_nat_alt)

declare clear_from.simps [simp del]

definition clear_bss :: "u64 \<Rightarrow> u64 \<Rightarrow> (u64 \<Rightarrow> u8) \<Rightarrow> u64 \<Rightarrow> u8" where
  "clear_bss sbss ebss m = clear_from ebss sbss m"

text \<open>
  The naked function \<open>stvec\<close>, up to its \<open>ecall\<close> and after it.
\<close>

abbreviation (input) "sp_reg \<equiv> 2 :: 5 word"

abbreviation (input) "t0_reg \<equiv> 5 :: 5 word"

abbreviation (input) "a0_reg \<equiv> 10 :: 5 word"

abbreviation (input) "a7_reg \<equiv> 17 :: 5 word"

abbreviation csrr :: "5 word \<Rightarrow> csr_name \<Rightarrow> ginstr" where "csrr rd c \<equiv> Sys (Csr RS (Xreg 0) c rd)"

abbreviation csrw :: "csr_name \<Rightarrow> 5 word \<Rightarrow> ginstr" where "csrw c rs \<equiv> Sys (Csr RW (Xreg rs) c 0)"

definition stvec_save :: "ginstr list" where
  "stvec_save =
     [Addi sp_reg sp_reg (- 512), Sd t0_reg 0 sp_reg, csrr t0_reg Sstatus, Sd t0_reg 8 sp_reg,
      csrr t0_reg Sepc, Sd t0_reg 16 sp_reg, Sd a0_reg 24 sp_reg, Sd a7_reg 32 sp_reg,
      Addi a0_reg a0_reg 3, Li a7_reg 1]"

definition stvec_restore :: "ginstr list" where
  "stvec_restore =
     [Ld a0_reg 24 sp_reg, Ld a7_reg 32 sp_reg, Ld t0_reg 16 sp_reg, Addi t0_reg t0_reg 4,
      csrw Sepc t0_reg, Ld t0_reg 8 sp_reg, csrw Sstatus t0_reg, Ld t0_reg 0 sp_reg,
      Addi sp_reg sp_reg 512]"

definition stvec_code :: "ginstr list" where
  "stvec_code = stvec_save @ [Ecall_instr] @ stvec_restore @ [Sys Sret]"

text \<open>
  The assembly statements of \<open>kernel_main\<close>: the instruction, as a function of the register of its
  operand, and the value of the operand.
\<close>

definition kernel_main :: "u64 \<Rightarrow> u64 \<Rightarrow> ((5 word \<Rightarrow> sys_instr) \<times> u64) list" where
  "kernel_main stvec_addr umode_addr =
     [(\<lambda>r. Csr RC (Xreg r) Sstatus 0, MASK_sstatus_spp),
      (\<lambda>r. Csr RW (Xreg r) Stvec 0, stvec_addr),
      (\<lambda>r. Csr RW (Xreg r) Sepc 0, umode_addr),
      (\<lambda>_. Sret, 0)]"

definition str :: "u8 list" where
  "str = bytes_of (''I wrote this with ecall from user mode'' @ newline) @ [0]"

definition umode_asm :: "5 word \<Rightarrow> ginstr list" where
  "umode_asm data = [Mv 10 data, Ecall_instr]"

record asm_site =
  site_pc :: u64
  site_reg :: "5 word"
  site_regs :: "5 word \<Rightarrow> u64"
  site_bytes :: "u64 \<Rightarrow> u8"

definition enter_site :: "asm_site \<Rightarrow> u64 \<Rightarrow> board \<Rightarrow> board" where
  "enter_site k v b = b\<lparr>cpu := (cpu b)\<lparr>pc := site_pc k, xregs := (site_regs k)(site_reg k := v, 0 := 0)\<rparr>,
     bytes := site_bytes k\<rparr>"

fun run_stmts :: "code \<Rightarrow> asm_site list \<Rightarrow> ((5 word \<Rightarrow> sys_instr) \<times> u64) list \<Rightarrow> board \<Rightarrow> board option" where
  "run_stmts F (k # ks) ((i, v) # r) b =
     (case step F (enter_site k v b) of None \<Rightarrow> None | Some b' \<Rightarrow> run_stmts F ks r b')"
| "run_stmts F ks r b = (if ks = [] \<and> r = [] then Some b else None)"

text \<open>
  One iteration of the inner loop of \<open>umode\<close> runs its two instructions and the trap handler they
  lead to.  The operand is an \<open>int\<close>, so its register holds it sign-extended.  The outer loop never
  ends: \<open>umode\<close> is its first \<open>n\<close> rounds.
\<close>

definition umode_char :: "code \<Rightarrow> asm_site \<Rightarrow> u8 \<Rightarrow> board \<Rightarrow> board option" where
  "umode_char F k c b = steps F (length (umode_asm (site_reg k)) + length stvec_code)
     (enter_site k (scast (ucast c - 3 :: u32)) b)"

fun umode_pass :: "code \<Rightarrow> (nat \<Rightarrow> asm_site) \<Rightarrow> u8 list \<Rightarrow> nat \<Rightarrow> board \<Rightarrow> board option" where
  "umode_pass F K [] i b = None"
| "umode_pass F K (c # p) i b =
     (if c = 0 then Some b
      else case umode_char F (K i) c b of None \<Rightarrow> None | Some b' \<Rightarrow> umode_pass F K p (i + 1) b')"

fun umode :: "code \<Rightarrow> (nat \<Rightarrow> nat \<Rightarrow> asm_site) \<Rightarrow> nat \<Rightarrow> board \<Rightarrow> board option" where
  "umode F K 0 b = Some b"
| "umode F K (Suc n) b = (case umode_pass F (K n) str 0 b of None \<Rightarrow> None | Some b' \<Rightarrow> umode F K n b')"

text \<open>
  An instruction of the guest that is not native, on the stub: Linux raises \<open>SIGILL\<close> for a system
  instruction, and \<open>SIGSYS\<close> for an \<open>ecall\<close> with the \<open>pc\<close> behind it and the number from \<open>a7\<close>.
\<close>

fun trap_to_stub :: "env \<Rightarrow> ginstr \<Rightarrow> machine \<Rightarrow> (machine, unit) outcome" where
  "trap_to_stub E (Sys i) s = handler E SIGILL no_info s"
| "trap_to_stub E Ecall_instr s = handler E SIGSYS (no_info\<lparr>si_syscall := gregs s 17\<rparr>)
     (s\<lparr>gregs := (gregs s)(0 := gregs s 0 + 4)\<rparr>)"
| "trap_to_stub E _ s = Ok () s"

text \<open>
  The wrappers of \<^verbatim>\<open>sbi.h\<close>.  \<open>sbi_console_getchar\<close> has no \<open>return\<close> statement, so the
  character is lost; the end of \<open>sbi_shutdown\<close> is an endless loop, which its result \<open>Ok\<close> stands for.
\<close>

definition sbi_call :: "env \<Rightarrow> u64 \<Rightarrow> u64 \<Rightarrow> u64 \<Rightarrow> u64 \<Rightarrow> (machine, u64) prog" where
  "sbi_call E which arg0 arg1 arg2 =
     andthen (modify (\<lambda>s. s\<lparr>gregs := (gregs s)(10 := arg0, 11 := arg1, 12 := arg2, 17 := which)\<rparr>)) (\<lambda>_.
     andthen (trap_to_stub E Ecall_instr) (\<lambda>_.
     gets (\<lambda>s. gregs s 10)))"

definition sbi_console_putchar :: "env \<Rightarrow> u64 \<Rightarrow> (machine, unit) prog" where
  "sbi_console_putchar E c = andthen (sbi_call E SBI_CONSOLE_PUTCHAR c 0 0) (\<lambda>_. skip)"

definition sbi_console_getchar :: "env \<Rightarrow> (machine, unit) prog" where
  "sbi_console_getchar E = andthen (sbi_call E SBI_CONSOLE_GETCHAR 0 0 0) (\<lambda>_. skip)"

definition sbi_shutdown :: "env \<Rightarrow> (machine, unit) prog" where
  "sbi_shutdown E = andthen (sbi_call E SBI_SHUTDOWN 0 0 0) (\<lambda>_. skip)"

text \<open>
  The guest on the stub.
\<close>

definition enter_site_vm :: "asm_site \<Rightarrow> u64 \<Rightarrow> machine \<Rightarrow> machine" where
  "enter_site_vm k v s = s\<lparr>gregs := (\<lambda>n. if n = 0 then site_pc k else if n = unat (site_reg k) then v
     else site_regs k (of_nat n))\<rparr>"

fun run_vm :: "env \<Rightarrow> asm_site list \<Rightarrow> ((5 word \<Rightarrow> sys_instr) \<times> u64) list \<Rightarrow> (machine, unit) prog" where
  "run_vm E (k # ks) ((i, v) # r) =
     andthen (modify (enter_site_vm k v)) (\<lambda>_.
     andthen (trap_to_stub E (Sys (i (site_reg k)))) (\<lambda>_. run_vm E ks r))"
| "run_vm E _ _ = skip"

section \<open>The trap handler of the guest\<close>

lemma clear_from_range: "clear_from e p m x = (if p \<le> x \<and> x < e then 0 else m x)"
proof (induction e p m rule: clear_from.induct)
  case (1 e p m)
  show ?case
  proof (cases "p < e")
    case True
    then have "p + 1 \<le> x \<longleftrightarrow> p \<le> x \<and> x \<noteq> p" 
      by (auto simp: word_le_nat_alt next_byte word_unat_eq_iff)
    moreover have "clear_from e (p + 1) (m(p := 0)) x = (if p + 1 \<le> x \<and> x < e then 0 else (m(p := 0)) x)"
      using 1 True by blast
    ultimately show ?thesis unfolding clear_from.simps [of e p] using True by auto
  next
    case False
    then show ?thesis by (auto simp: clear_from.simps [of e p])
  qed
qed

definition frame :: "board \<Rightarrow> u64 \<Rightarrow> u8" where
  "frame b = (let p = xregs (cpu b) 2 - 512; x = xregs (cpu b)
     in store64 (store64 (store64 (store64 (store64 (bytes b) p (x 5)) (p + 8) (csrs (cpu b) Sstatus))
        (p + 16) (csrs (cpu b) Sepc)) (p + 24) (x 10)) (p + 32) (x 17))"

lemma save_effect:
  assumes "mode (cpu b) = S_mode"
  shows "foldl (\<lambda>b i. eff i b) b stvec_save = b\<lparr>
    cpu := (cpu b)\<lparr>xregs := (xregs (cpu b))(2 := xregs (cpu b) 2 - 512, 5 := csrs (cpu b) Sepc,
      10 := xregs (cpu b) 10 + 3, 17 := 1)\<rparr>, bytes := frame b\<rparr>"
  using assms by (intro board_eqI) (simp_all add: stvec_save_def eff_def Let_def frame_def fun_eq_iff)

lemma merge_bits_same: "merge_bits ns w w = w"
proof -
  have "put_bit n (bit w n) w = w" for n
    by (rule bit_word_eqI) (auto simp: bit_put_bit)
  then show ?thesis unfolding merge_bits_def by (induction ns) simp_all
qed

lemma legalize_same: "legalize Sstatus w w = w"
  by (simp add: merge_bits_same)

lemma restore_effect:
  assumes "mode (cpu b) = S_mode" and "bytes b = frame b0" and "xregs (cpu b) 2 = xregs (cpu b0) 2 - 512"
    and "csrs (cpu b) Sstatus = csrs (cpu b0) Sstatus"
  shows "foldl (\<lambda>b i. eff i b) b stvec_restore = b\<lparr>cpu := (cpu b)\<lparr>
    xregs := (xregs (cpu b))(10 := xregs (cpu b0) 10, 17 := xregs (cpu b0) 17, 5 := xregs (cpu b0) 5,
      2 := xregs (cpu b0) 2), csrs := (csrs (cpu b))(Sepc := csrs (cpu b0) Sepc + 4)\<rparr>\<rparr>"
proof -
  have l: "load64 (bytes b) (xregs (cpu b0) 2 - 512) = xregs (cpu b0) 5"
    "load64 (bytes b) (xregs (cpu b0) 2 - 504) = csrs (cpu b0) Sstatus"
    "load64 (bytes b) (xregs (cpu b0) 2 - 496) = csrs (cpu b0) Sepc"
    "load64 (bytes b) (xregs (cpu b0) 2 - 488) = xregs (cpu b0) 10"
    "load64 (bytes b) (xregs (cpu b0) 2 - 480) = xregs (cpu b0) 17"
    unfolding assms(2) frame_def Let_def by (simp_all add: load_store_other)
  show ?thesis
    using assms(1,3,4) by (intro board_eqI) (simp_all add: stvec_restore_def eff_def Let_def l legalize_same fun_eq_iff
        del: legalize.simps(1))
qed

lemma stvec_run:
  assumes "placed F a stvec_code" and "mode (cpu b) = S_mode"
  shows "steps F 21 (at_pc a b) = Some (b\<lparr>cpu := isa_exec Sret ((cpu b)\<lparr>csrs := (csrs (cpu b))(Sepc := csrs (cpu b) Sepc + 4)\<rparr>),
    bytes := frame b, console := console b @ [ucast (xregs (cpu b) 10 + 3)]\<rparr>)"
proof -
  let ?s = "foldl (\<lambda>b i. eff i b) b stvec_save"
  have str: "\<forall>i\<in>set stvec_save. straight i" "\<forall>i\<in>set stvec_restore. straight i"
    by (simp_all add: stvec_save_def stvec_restore_def)
  have len: "length stvec_save = 10" "length stvec_restore = 9"
    by (simp_all add: stvec_save_def stvec_restore_def)
  obtain a1 where a1: "steps F 10 (at_pc a b) = Some (at_pc a1 ?s)" "placed F a1 ([Ecall_instr] @ stvec_restore @ [Sys Sret])"
    using straight_run [OF assms(1) [unfolded stvec_code_def] str(1) assms(2)] unfolding len by blast
  define c where "c = ?s\<lparr>cpu := set_xreg 10 0 (cpu ?s), console := console b @ [ucast (xregs (cpu b) 10 + 3)]\<rparr>"
  have e: "step F (at_pc a1 ?s) = Some (at_pc (a1 + 4) c)" "placed F (a1 + 4) (stvec_restore @ [Sys Sret])"
    using a1(2) assms(2) unfolding c_def save_effect [OF assms(2)]
    by (auto simp: step_def riscv_const at_pc_def set_xreg_def split: option.splits)
  have m: "mode (cpu c) = S_mode" using assms(2) by (simp add: c_def save_effect [OF assms(2)])
  obtain a2 where a2: "steps F 9 (at_pc (a1 + 4) c) = Some (at_pc a2 (foldl (\<lambda>b i. eff i b) c stvec_restore))"
    "placed F a2 [Sys Sret]" 
    using straight_run [OF e(2) str(2) m] unfolding len by blast
  have "foldl (\<lambda>b i. eff i b) c stvec_restore = c\<lparr>cpu := (cpu c)\<lparr>
      xregs := (xregs (cpu c))(10 := xregs (cpu b) 10, 17 := xregs (cpu b) 17, 5 := xregs (cpu b) 5,
        2 := xregs (cpu b) 2), csrs := (csrs (cpu c))(Sepc := csrs (cpu b) Sepc + 4)\<rparr>\<rparr>"
    by (rule restore_effect) (simp_all add: m, simp_all add: c_def save_effect [OF assms(2)])
  also have "\<dots> = b\<lparr>cpu := (cpu b)\<lparr>csrs := (csrs (cpu b))(Sepc := csrs (cpu b) Sepc + 4)\<rparr>,
    bytes := frame b, console := console b @ [ucast (xregs (cpu b) 10 + 3)]\<rparr>"
    by (intro board_eqI) (simp_all add: c_def save_effect [OF assms(2)] fun_eq_iff)
  finally have r: "foldl (\<lambda>b i. eff i b) c stvec_restore = b\<lparr>cpu := (cpu b)\<lparr>csrs := (csrs (cpu b))(Sepc := csrs (cpu b) Sepc + 4)\<rparr>,
    bytes := frame b, console := console b @ [ucast (xregs (cpu b) 10 + 3)]\<rparr>" .
  have "step F (at_pc a2 (foldl (\<lambda>b i. eff i b) c stvec_restore)) =
      Some (b\<lparr>cpu := isa_exec Sret ((cpu b)\<lparr>csrs := (csrs (cpu b))(Sepc := csrs (cpu b) Sepc + 4)\<rparr>),
        bytes := frame b, console := console b @ [ucast (xregs (cpu b) 10 + 3)]\<rparr>)"
    using a2(2) assms(2) unfolding r by (auto simp: step_def at_pc_def Let_def split: option.splits)
  then have "steps F (10 + (1 + (9 + 1))) (at_pc a b) = Some (b\<lparr>cpu := isa_exec Sret ((cpu b)\<lparr>csrs := (csrs (cpu b))(Sepc := csrs (cpu b) Sepc + 4)\<rparr>),
    bytes := frame b, console := console b @ [ucast (xregs (cpu b) 10 + 3)]\<rparr>)"
    unfolding steps_add using a1(1) e(1) a2(1) by simp
  then show ?thesis by simp
qed

definition served :: "board \<Rightarrow> board" where
  "served b = b\<lparr>cpu := (cpu b)\<lparr>pc := pc (cpu b) + 4, csrs := (csrs (cpu b))(Sepc := pc (cpu b) + 4, Scause := 8,
       Stval := 0, Sstatus := put_bit 8 False (put_bit 5 True (csrs (cpu b) Sstatus)))\<rparr>,
     bytes := frame (b\<lparr>cpu := isa_trap 8 0 (cpu b)\<rparr>), console := console b @ [ucast (xregs (cpu b) 10 + 3)]\<rparr>"

lemma ecall_served:
  assumes "placed F (csrs (cpu b) Stvec) stvec_code" and "csrs (cpu b) Stvec mod 4 = 0" and "mode (cpu b) = U_mode"
    and "placed F (pc (cpu b)) [Ecall_instr]"
  shows "steps F 22 b = Some (served b)"
proof -
  let ?t = "b\<lparr>cpu := isa_trap 8 0 (cpu b)\<rparr>"
  have "pc (isa_trap 8 0 (cpu b)) = csrs (cpu b) Stvec"
    unfolding isa_trap_def Let_def assms(2) by simp
  then have "at_pc (csrs (cpu b) Stvec) ?t = ?t" by (simp add: at_pc_def)
  then have "step F b = Some (at_pc (csrs (cpu b) Stvec) ?t)"
    using assms(3,4) by (auto simp: step_def split: option.splits)
  then have "steps F 22 b = steps F 21 (at_pc (csrs (cpu b) Stvec) ?t)"
    using steps_add [of F 1 21] by simp
  also have "\<dots> = Some (?t\<lparr>cpu := isa_exec Sret ((cpu ?t)\<lparr>csrs := (csrs (cpu ?t))(Sepc := csrs (cpu ?t) Sepc + 4)\<rparr>),
    bytes := frame ?t, console := console ?t @ [ucast (xregs (cpu ?t) 10 + 3)]\<rparr>)"
    by (rule stvec_run [OF assms(1)]) (simp add: isa_trap_def Let_def)
  also have "\<dots> = Some (served b)"
  proof -
    have "put_bit 8 False (put_bit 5 True (put_bit 1 (bit st 1) (put_bit 1 False (put_bit 5 (bit st 1) (put_bit 8 False st))))) =
        put_bit 8 False (put_bit 5 True st)" for st :: u64
      by (rule bit_word_eqI) (auto simp: bit_put_bit)
    then show ?thesis
      using assms(3) unfolding option.inject
      by (intro board_eqI) (simp_all add: served_def isa_trap_def Let_def bit_put_bit fun_eq_iff)
  qed
  finally show ?thesis .
qed

section \<open>The user program\<close>

lemma low_byte: "ucast (scast (ucast (c :: u8) - 3 :: u32) + 3 :: u64) = c"
proof -
  note n = word_unat_eq_iff unsigned_ucast_eq take_bit_nat_def unat_word_ariths mod_mod_cancel mod_simps
  have a: "(ucast (x + y :: u64) :: u8) = ucast x + ucast y" "(ucast (u + w :: u32) :: u8) = ucast u + ucast w" for x y u w
    by (simp_all add: n)
  then have d: "(ucast (u - w :: u32) :: u8) = ucast u - ucast w" for u w
    using a(2) [of "u - w" w] by simp
  have "(ucast (scast w :: u64) :: u8) = ucast w" for w :: u32
    by (rule bit_word_eqI) (auto simp: bit_simps)
  moreover have "(ucast (ucast c :: u32) :: u8) = c"
    by (rule bit_word_eqI) (auto simp: bit_simps)
  ultimately show ?thesis by (simp add: a(1) d)
qed

lemma block_length: "length (umode_asm data) + length stvec_code = 23"
  by (simp add: umode_asm_def stvec_code_def stvec_save_def stvec_restore_def)

lemma umode_char_prints:
  assumes "mode (cpu b) = U_mode" and "csrs (cpu b) Stvec mod 4 = 0" and "placed F (csrs (cpu b) Stvec) stvec_code"
    and "site_reg k \<noteq> 0" and "placed F (site_pc k) (umode_asm (site_reg k))"
  shows "\<exists>b'. umode_char F k c b = Some b' \<and> mode (cpu b') = U_mode \<and> csrs (cpu b') Stvec = csrs (cpu b) Stvec
    \<and> console b' = console b @ [c]"
proof -
  let ?v = "scast (ucast c - 3 :: u32) :: u64"
  obtain n where n: "F (site_pc k) = Some (Mv 10 (site_reg k), n)" "placed F (site_pc k + n) [Ecall_instr]"
    using assms(5) by (auto simp: umode_asm_def split: option.splits)
  let ?b = "upd_reg 10 ?v n (enter_site k ?v b)"
  have e: "step F (enter_site k ?v b) = Some ?b"
    using n(1) assms(4) by (simp add: step_def enter_site_def)
  have "steps F 22 ?b = Some (served ?b)"
    by (rule ecall_served) (use assms(1-3) n(2) in \<open>simp_all add: enter_site_def\<close>)
  then have "steps F (1 + 22) (enter_site k ?v b) = Some (served ?b)"
    unfolding steps_add by (simp add: e)
  then have "umode_char F k c b = Some (served ?b)"
    by (simp add: umode_char_def block_length)
  moreover have "ucast (?v + 3) = c" by (rule low_byte)
  ultimately show ?thesis using assms(1)
    by (simp add: served_def enter_site_def)
qed

lemma umode_pass_prints:
  assumes "mode (cpu b) = U_mode" and "csrs (cpu b) Stvec = tv" and "tv mod 4 = 0" and "placed F tv stvec_code"
    and "\<forall>i. site_reg (K i) \<noteq> 0 \<and> placed F (site_pc (K i)) (umode_asm (site_reg (K i)))"
    and "\<forall>c\<in>set cs. c \<noteq> 0"
  shows "\<exists>b'. umode_pass F K (cs @ [0]) i b = Some b' \<and> mode (cpu b') = U_mode \<and> csrs (cpu b') Stvec = tv
    \<and> console b' = console b @ cs"
  using assms(1,2,6)
proof (induction cs arbitrary: i b)
  case (Cons c cs)
  obtain b1 where b1: "umode_char F (K i) c b = Some b1" "mode (cpu b1) = U_mode" "csrs (cpu b1) Stvec = tv"
    "console b1 = console b @ [c]"
    using umode_char_prints [of b F "K i" c] Cons.prems assms(3-5) by auto
  then show ?case using Cons.IH [of b1 "i + 1"] Cons.prems(3) by auto
qed simp

lemma umode_prints:
  assumes "mode (cpu b) = U_mode" and "csrs (cpu b) Stvec = tv" and "tv mod 4 = 0" and "placed F tv stvec_code"
    and "\<forall>n i. site_reg (K n i) \<noteq> 0 \<and> placed F (site_pc (K n i)) (umode_asm (site_reg (K n i)))"
  shows "\<exists>b'. umode F K n b = Some b' \<and> console b' = console b @ concat (replicate n (butlast str))"
  using assms(1,2)
proof (induction n arbitrary: b)
  case (Suc n)
  have s: "str = butlast str @ [0]" "\<forall>c\<in>set (butlast str). c \<noteq> 0"
    by (simp_all add: str_def bytes_of_def newline_def)
  obtain b1 where "umode_pass F (K n) str 0 b = Some b1" "mode (cpu b1) = U_mode" "csrs (cpu b1) Stvec = tv"
    "console b1 = console b @ butlast str"
    using umode_pass_prints [OF Suc.prems assms(3,4) _ s(2), of "K n" 0] assms(5) s(1) by auto
  then show ?case using Suc.IH [of b1] by auto
qed simp

definition sited :: "code \<Rightarrow> asm_site list \<Rightarrow> ((5 word \<Rightarrow> sys_instr) \<times> u64) list \<Rightarrow> bool" where
  "sited F ks r = list_all2 (\<lambda>k (i, v). site_reg k \<noteq> 0 \<and> placed F (site_pc k) [Sys (i (site_reg k))]) ks r"

lemma kernel_main_enters:
  assumes "mode (cpu b) = S_mode" and "sited F ks (kernel_main tv um)" and "tv mod 4 = 0"
  shows "\<exists>b'. run_stmts F ks (kernel_main tv um) b = Some b' \<and> mode (cpu b') = U_mode \<and> pc (cpu b') = um
    \<and> csrs (cpu b') Stvec = tv \<and> console b' = console b"
proof -
  obtain k1 k2 k3 k4 where ks: "ks = [k1, k2, k3, k4]"
    using assms(2) by (auto simp: sited_def kernel_main_def list_all2_Cons2)
  have n: "\<not> bit (legalize Sstatus st (st AND NOT MASK_sstatus_spp)) 8" for st
    by (simp add: merge_bits_def bit_put_bit field_defs bit_bf_mask bit_simps)
  have l: "legalize Stvec old tv = tv" for old
    using assms(3) by simp
  have "site_reg k1 \<noteq> 0" "site_reg k2 \<noteq> 0" "site_reg k3 \<noteq> 0"
    "F (site_pc k1) = Some (Sys (Csr RC (Xreg (site_reg k1)) Sstatus 0), 4)"
    "F (site_pc k2) = Some (Sys (Csr RW (Xreg (site_reg k2)) Stvec 0), 4)"
    "F (site_pc k3) = Some (Sys (Csr RW (Xreg (site_reg k3)) Sepc 0), 4)" "F (site_pc k4) = Some (Sys Sret, 4)"
    using assms(2) unfolding ks kernel_main_def sited_def by (auto split: option.splits)
  then show ?thesis
    using assms(1) unfolding ks kernel_main_def
    by (simp add: step_def enter_site_def n l Let_def del: legalize.simps(1,4))
qed

section \<open>The stub as that machine\<close>

text \<open>
  The output of the guest is what the stub writes to standard output; its log goes to standard error.
\<close>

definition console_of :: "ecall list \<Rightarrow> u8 list" where
  "console_of t = concat (map (\<lambda>c. case c of Ecall SYS_write [Reg fd, Bytes bs, n] \<Rightarrow> if fd = 1 then bs else [] | _ \<Rightarrow> []) t)"

definition abs_board :: "machine \<Rightarrow> (u64 \<Rightarrow> u8) \<Rightarrow> board" where
  "abs_board s m = \<lparr>cpu = abs_isa s, bytes = m, console = console_of (trace s)\<rparr>"

lemma console_of_simps:
  "console_of (t @ u) = console_of t @ console_of u" "console_of [] = []" "console_of [conf_call] = []"
  "console_of [Ecall SYS_munmap args] = []" "console_of (flush_calls p) = []"
  by (simp_all add: console_of_def conf_call_def flush_calls_def)

lemma console_finish: "console_of (trace (finish conf s)) = console_of (trace s)"
  by (simp add: finish_def console_of_simps)

lemma abs_board_finish: "abs_board (finish conf s) m = abs_board s m"
  by (simp add: abs_board_def console_finish)

lemma user_illegal_run:
  assumes "priv_inv (priv s)" and "priv_mode (priv s) = PRIV_U" and "conf_mapped E s"
  shows "\<exists>s2. handle_signal E (sysret E (trace s @ [conf_call])) SIGILL info (s\<lparr>trace := trace s @ [conf_call]\<rparr>) = Ok () s2
    \<and> abs_isa s2 = isa_trap 2 0 (abs_isa s) \<and> guest_inv (config_of (priv s)) (priv s2) \<and> trace s2 = trace s @ [conf_call]"
proof -
  let ?s = "s\<lparr>trace := trace s @ [conf_call], priv := (priv s)\<lparr>counter_ill := counter_ill (priv s) + 1\<rparr>\<rparr>"
  have "handle_signal E (sysret E (trace s @ [conf_call])) SIGILL info (s\<lparr>trace := trace s @ [conf_call]\<rparr>) =
      enter_trap SCAUSE_ILLEGAL 0 ?s"
    using assms(2,3) by (simp add: handle_signal_def handle_sigill_def conf_mapped_def deref_apply SIGILL_def SIGSYS_def
        PRIV_U_def PRIV_S_def)
  moreover obtain s2 where s2: "enter_trap SCAUSE_ILLEGAL 0 ?s = Ok () s2" "abs_isa s2 = isa_trap SCAUSE_ILLEGAL 0 (abs_isa ?s)"
      "trace s2 = trace ?s"
    using enter_trap_isa [of ?s SCAUSE_ILLEGAL 0] assms(1) by auto
  moreover have "guest_inv (config_of (priv s)) (priv s2)"
    using keepsD [OF guest.keeps_enter_trap _ s2(1), of "config_of (priv s)"] assms(1) by (simp add: guest_inv_def)
  ultimately show ?thesis by (simp add: abs_isa_counter SCAUSE_ILLEGAL_def)
qed

lemma kernel_putchar_run:
  assumes "priv_inv (priv s)" and "priv_mode (priv s) = PRIV_S" and "conf_mapped E s"
    and "gregs s 10 \<noteq> 0xdeadbeefdeadbeef" and "si_syscall info = SBI_CONSOLE_PUTCHAR"
  shows "\<exists>s2. handle_signal E (sysret E (trace s @ [conf_call])) SIGSYS info (s\<lparr>trace := trace s @ [conf_call]\<rparr>) = Ok () s2
    \<and> abs_isa s2 = abs_isa s\<lparr>xregs := (xregs (abs_isa s))(17 := 1, 10 := 0)\<rparr> \<and> guest_inv (config_of (priv s)) (priv s2)
    \<and> trace s2 = trace s @ [conf_call, Ecall SYS_write [Reg 1, Bytes [ucast (gregs s 10)], Reg 1]]"
proof -
  let ?t = "trace s @ [conf_call]"
  let ?s = "s\<lparr>trace := ?t @ [Ecall SYS_write [Reg 1, Bytes [ucast (gregs s 10)], Reg 1]],
    gregs := (gregs s)(17 := 1, 10 := 0), priv := (priv s)\<lparr>counter_secall := counter_secall (priv s) + 1\<rparr>\<rparr>"
  have "handle_signal E (sysret E ?t) SIGSYS info (s\<lparr>trace := ?t\<rparr>) = Ok () ?s"
    using assms(2-5) by (simp add: kernel_ecall_run conf_mapped_def handle_legacy_sbi_call_def SBI_CONSOLE_PUTCHAR_def Let_def)
  moreover have "guest_inv (config_of (priv s)) (priv ?s)"
    using assms(1) guest.counters [of "config_of (priv s)" "priv s"] by (simp add: guest_inv_def)
  moreover have "abs_isa ?s = abs_isa s\<lparr>xregs := (xregs (abs_isa s))(17 := 1, 10 := 0)\<rparr>"
    by (auto simp: abs_isa_def fun_eq_iff word_unat_eq_iff csr_get_counters)
  ultimately show ?thesis by simp
qed

lemma handler_board:
  assumes "handle_signal E (sysret E (trace s @ [conf_call])) sig info (s\<lparr>trace := trace s @ [conf_call]\<rparr>) = Ok () s2"
    and "guest_inv cfg (priv s2)" and "abs_board s2 m = b'" and "\<not> bit (csrs (cpu b') Sie) 5"
  shows "\<exists>s'. handler E sig info s = Ok () s' \<and> abs_board s' m = b'"
proof -
  have "\<not> bit (csrs (abs_isa s2) Sie) 5" using assms(3,4) by (auto simp: abs_board_def)
  then show ?thesis
    using handler_quiet [OF assms(1)] assms(2,3) by (auto simp: guest_inv_def abs_board_finish)
qed

lemma mode_cases:
  assumes "priv_inv (priv s)"
  obtains "mode (abs_isa s) = S_mode" "priv_mode (priv s) = PRIV_S" | "mode (abs_isa s) = U_mode" "priv_mode (priv s) = PRIV_U"
  using assms by (auto simp: abs_isa_def priv_inv_def riscv_const)

lemma sys_board:
  assumes "priv_inv (priv s)" and "conf_mapped E s"
    and "exec (Sys j) 4 (abs_board s m) = Some b'" and "\<not> bit (csrs (cpu b') Sie) 5"
    and "read32 (gmem E (trace s @ [conf_call])) (gregs s 0) = Some (encode j)"
  shows "\<exists>s'. trap_to_stub E (Sys j) s = Ok () s' \<and> abs_board s' m = b'"
proof -
  have b': "b' = (abs_board s m)\<lparr>cpu := (if mode (abs_isa s) = S_mode then isa_exec j (abs_isa s) else isa_trap 2 0 (abs_isa s))\<rparr>"
    using assms(3) by (auto simp: abs_board_def)
  obtain s2 where "handle_signal E (sysret E (trace s @ [conf_call])) SIGILL no_info (s\<lparr>trace := trace s @ [conf_call]\<rparr>) = Ok () s2"
    "abs_isa s2 = (if mode (abs_isa s) = S_mode then isa_exec j (abs_isa s) else isa_trap 2 0 (abs_isa s))"
    "guest_inv (config_of (priv s)) (priv s2)" "trace s2 = trace s @ [conf_call]"
    using mode_cases [OF assms(1)] sigill_run [OF assms(1) _ assms(2)] user_illegal_run [OF assms(1) _ assms(2)] assms(5)
    by (metis mode.distinct(1))
  then show ?thesis using handler_board [of E s SIGILL no_info s2 _ m b'] assms(4)
    by (simp add: b' abs_board_def console_of_simps)
qed

lemma ecall_board:
  assumes "priv_inv (priv s)" and "conf_mapped E s"
    and "exec Ecall_instr 4 (abs_board s m) = Some b'" and "\<not> bit (csrs (cpu b') Sie) 5"
    and "gregs s 10 \<noteq> 0xdeadbeefdeadbeef"
  shows "\<exists>s'. trap_to_stub E Ecall_instr s = Ok () s' \<and> abs_board s' m = b'"
proof -
  let ?s = "s\<lparr>gregs := (gregs s)(0 := gregs s 0 + 4)\<rparr>" and ?i = "no_info\<lparr>si_syscall := gregs s 17\<rparr>"
  have a: "abs_isa ?s = abs_isa s\<lparr>pc := gregs s 0 + 4\<rparr>"
    by (auto simp: abs_isa_def fun_eq_iff unat_eq_0)
  have x: "(xregs (abs_isa s))(17 := gregs s 17) = xregs (abs_isa s)"
    by (auto simp: abs_isa_def fun_eq_iff)
  have c: "priv_inv (priv ?s)" "conf_mapped E ?s" "gregs ?s 10 \<noteq> 0xdeadbeefdeadbeef"
    using assms(1,2,5) by (simp_all add: conf_mapped_def)
  show ?thesis
  proof (cases rule: mode_cases [OF assms(1)])
    case 1
    then have "mode (abs_isa s) \<noteq> U_mode" by (metis mode.distinct(1))
    then have p: "gregs s 17 = 1"
      and b': "b' = upd_reg 10 0 4 (abs_board s m\<lparr>console := console_of (trace s) @ [ucast (gregs s 10)]\<rparr>)"
      using assms(3) by (auto simp: abs_board_def SBI_CONSOLE_PUTCHAR_def split: if_splits)
    obtain s2 where "handle_signal E (sysret E (trace ?s @ [conf_call])) SIGSYS ?i (?s\<lparr>trace := trace ?s @ [conf_call]\<rparr>) = Ok () s2"
      "abs_isa s2 = abs_isa ?s\<lparr>xregs := (xregs (abs_isa ?s))(17 := 1, 10 := 0)\<rparr>" "guest_inv (config_of (priv ?s)) (priv s2)"
      "trace s2 = trace ?s @ [conf_call, Ecall SYS_write [Reg 1, Bytes [ucast (gregs ?s 10)], Reg 1]]"
      using kernel_putchar_run [OF c(1) _ c(2,3), of ?i] 1(2) p by (auto simp: riscv_const)
    moreover from this(2,4) have "abs_board s2 m = b'"
      using p x by (simp add: abs_board_def b' a console_of_simps console_of_def conf_call_def set_xreg_def) 
    ultimately show ?thesis using handler_board [of E ?s SIGSYS ?i s2 _ m b'] assms(4) by simp
  next
    case 2
    then have b': "b' = (abs_board s m)\<lparr>cpu := isa_trap 8 0 (abs_isa s)\<rparr>"
      using assms(3) by (simp add: abs_board_def)
    obtain s2 where "handle_signal E (sysret E (trace ?s @ [conf_call])) SIGSYS ?i (?s\<lparr>trace := trace ?s @ [conf_call]\<rparr>) = Ok () s2"
      "abs_isa s2 = isa_trap 8 0 (abs_isa ?s\<lparr>pc := gregs ?s 0 - 4, xregs := (xregs (abs_isa ?s))(17 := si_syscall ?i)\<rparr>)"
      "guest_inv (config_of (priv ?s)) (priv s2)" "trace s2 = trace ?s @ [conf_call]"
      using user_ecall_enters [OF c(1) _ c(3,2), of ?i] 2(2) by auto
    moreover have "abs_isa s\<lparr>pc := gregs s 0\<rparr> = abs_isa s" by (simp add: abs_isa_def)
    with calculation(2,4) have "abs_board s2 m = b'"
      using x by (simp add: abs_board_def b' a console_of_simps)
    ultimately show ?thesis using handler_board [of E ?s SIGSYS ?i s2 _ m b'] assms(4) by simp
  qed
qed

section \<open>The guest without translation\<close>

text \<open>
  What Linux shows of the RAM: the configuration page is mapped elsewhere, \<open>munmap\<close> succeeds, and an
  address of RAM is readable exactly while it is mapped and then shows its byte of \<open>code\<close>, the code of the
  guest, from the trace \<open>t0\<close> on.
\<close>

abbreviation in_ram :: "nat \<Rightarrow> bool" where
  "in_ram x \<equiv> 0x80000000 \<le> x \<and> x < 0x81000000"

definition ram_view :: "(nat \<Rightarrow> bool) \<Rightarrow> env \<Rightarrow> ecall list \<Rightarrow> mem \<Rightarrow> bool" where
  "ram_view m0 E t0 code \<longleftrightarrow>
     (\<forall>t. \<not> is_err (sysret E (t @ [conf_call]))
        \<and> (\<forall>x. in_ram x \<longrightarrow> \<not> in_range (sysret E (t @ [conf_call])) CONF_SIZE x))
     \<and> (\<forall>t a l. sysret E (t @ [Ecall SYS_munmap [Reg a, Reg l]]) = 0)
     \<and> (\<forall>u a. in_ram (unat a) \<longrightarrow> (if mapped_at m0 E (t0 @ u) (unat a) then code a = None \<or> gmem E (t0 @ u) a = code a
        else gmem E (t0 @ u) a = None))"

lemma sigill_handled:
  assumes "priv_inv (priv s)" and "priv_mode (priv s) = PRIV_S" and "conf_mapped E s"
    and "read32 (gmem E (trace s @ [conf_call])) (gregs s 0) = Some (encode i)"
    and "\<not> should_clear_vm (priv s)" and "\<not> bit (csrs (isa_exec i (abs_isa s)) Sie) 5"
  shows "\<exists>s'. handler E SIGILL info s = Ok () s' \<and> abs_isa s' = isa_exec i (abs_isa s)
    \<and> guest_inv (config_of (priv s)) (priv s') \<and> \<not> should_clear_vm (priv s')
    \<and> trace s' = trace s @ [conf_call] @ (if flushes i (abs_isa s) then flush_calls (priv s) else [])
        @ [Ecall SYS_munmap [Reg (sysret E (trace s @ [conf_call])), Reg CONF_SIZE]]"
proof -
  obtain s2 where s2: "handle_signal E (sysret E (trace s @ [conf_call])) SIGILL info (s\<lparr>trace := trace s @ [conf_call]\<rparr>) = Ok () s2"
    "abs_isa s2 = isa_exec i (abs_isa s)" "guest_inv (config_of (priv s)) (priv s2)"
    "should_clear_vm (priv s2) = (should_clear_vm (priv s) \<or> flushes i (abs_isa s))" "trace s2 = trace s @ [conf_call]"
    using sigill_run [OF assms(1-4)] by blast
  have "flush_calls (priv s2) = flush_calls (priv s)"
    using s2(3) by (simp add: guest_inv_def config_of_def flush_calls_def)
  then have "guest_inv (config_of (priv s)) (priv (finish c s2))" "\<not> should_clear_vm (priv (finish c s2))"
    "trace (finish c s2) = trace s @ [conf_call] @ (if flushes i (abs_isa s) then flush_calls (priv s) else [])
        @ [Ecall SYS_munmap [Reg c, Reg CONF_SIZE]]" for c
    using s2(3-5) assms(5) by (simp_all add: finish_def guest_inv_def)
  moreover have "handler E SIGILL info s = Ok () (finish (sysret E (trace s @ [conf_call])) s2)"
    using handler_quiet [OF s2(1)] s2(2,3) assms(6) by (simp add: guest_inv_def)
  ultimately show ?thesis using s2(2) abs_isa_finish by metis
qed

lemma mapped_conf:
  assumes "ram_view m0 E t0 code" and "in_ram x"
  shows "mapped_at m0 E (t @ [conf_call]) x \<longleftrightarrow> mapped_at m0 E t x"
    "mapped_at m0 E (u @ [Ecall SYS_munmap [Reg (sysret E (t @ [conf_call])), Reg CONF_SIZE]]) x \<longleftrightarrow> mapped_at m0 E u x"
proof -
  have r: "\<not> in_range (sysret E (t @ [conf_call])) CONF_SIZE x" "sysret E (u @ [Ecall SYS_munmap [Reg a, Reg l]]) = 0" for a l
    using assms unfolding ram_view_def by blast+
  show "mapped_at m0 E (t @ [conf_call]) x \<longleftrightarrow> mapped_at m0 E t x"
    using r(1) by (auto simp: mapped_at_def conf_call_def)
  show "mapped_at m0 E (u @ [Ecall SYS_munmap [Reg (sysret E (t @ [conf_call])), Reg CONF_SIZE]]) x \<longleftrightarrow> mapped_at m0 E u x"
    using r(1) mm.unmapped [OF r(2)] by blast
qed

lemma ram_read32:
  assumes "ram_view m0 E t0 code" and "\<forall>x. in_ram x \<longrightarrow> mapped_at m0 E (t0 @ u) x" and "in_ram (unat a)" and "in_ram (unat a + 3)"
    and "read32 code a = Some w"
  shows "read32 (gmem E (t0 @ u)) a = Some w"
proof -
  have "code (a + of_nat k) = Some b \<longrightarrow> gmem E (t0 @ u) (a + of_nat k) = Some b" if "k < 4" for k b
  proof -
    have "unat (a + of_nat k) = unat a + k"
      using that assms(4) by (simp add: unat_word_ariths unsigned_of_nat take_bit_nat_eq_self)
    then have "in_ram (unat (a + of_nat k))" using that assms(3,4) by simp
    then show ?thesis using assms(1,2) unfolding ram_view_def by (metis option.distinct(1))
  qed
  from this [of 0] this [of 1] this [of 2] this [of 3] assms(5) show ?thesis
    by (auto simp: read32_def read16_def add.assoc split: option.splits)
qed

text \<open>
  The kernel of the guest as the stub starts it: in supervisor mode, without translation, with the
  whole of RAM mapped.
\<close>

definition bare_kernel :: "(nat \<Rightarrow> bool) \<Rightarrow> env \<Rightarrow> ecall list \<Rightarrow> u64 \<times> u64 \<times> u64 \<times> u64 \<Rightarrow> machine \<Rightarrow> bool" where
  "bare_kernel m0 E t0 cfg s \<longleftrightarrow> guest_inv cfg (priv s) \<and> priv_mode (priv s) = PRIV_S \<and> satp (priv s) = 0
     \<and> \<not> bit (sie (priv s)) 5 \<and> \<not> should_clear_vm (priv s) \<and> (\<forall>x. in_ram x \<longrightarrow> mapped_at m0 E (trace s) x) \<and> (\<exists>u. trace s = t0 @ u)"

definition sited_vm :: "mem \<Rightarrow> asm_site list \<Rightarrow> ((5 word \<Rightarrow> sys_instr) \<times> u64) list \<Rightarrow> bool" where
  "sited_vm code ks r = list_all2 (\<lambda>k (i, v). site_reg k \<noteq> 0 \<and> in_ram (unat (site_pc k)) \<and> in_ram (unat (site_pc k) + 3)
     \<and> read32 code (site_pc k) = Some (encode (i (site_reg k)))) ks r"

lemma site_isa:
  assumes "site_reg k \<noteq> 0"
  shows "xregs (abs_isa (enter_site_vm k v s)) (site_reg k) = v" "csrs (abs_isa (enter_site_vm k v s)) = csrs (abs_isa s)"
    "mode (abs_isa (enter_site_vm k v s)) = mode (abs_isa s)" "pc (abs_isa (enter_site_vm k v s)) = site_pc k"
  using assms by (auto simp: enter_site_vm_def abs_isa_def unat_eq_0)

lemma stmt_handled:
  assumes "ram_view m0 E t0 code" and "bare_kernel m0 E t0 cfg s" and "sited_vm code [k] [(i, v)]"
    and "\<not> bit (csrs (isa_exec (i (site_reg k)) (abs_isa (enter_site_vm k v s))) Sie) 5"
  shows "\<exists>s'. handler E SIGILL no_info (enter_site_vm k v s) = Ok () s'
    \<and> abs_isa s' = isa_exec (i (site_reg k)) (abs_isa (enter_site_vm k v s))
    \<and> guest_inv cfg (priv s') \<and> \<not> should_clear_vm (priv s')
    \<and> trace s' = trace s @ [conf_call] @ (if flushes (i (site_reg k)) (abs_isa (enter_site_vm k v s)) then flush_calls (priv s) else [])
        @ [Ecall SYS_munmap [Reg (sysret E (trace s @ [conf_call])), Reg CONF_SIZE]]"
proof -
  let ?s = "enter_site_vm k v s"
  have p: "priv ?s = priv s" "trace ?s = trace s" "gregs ?s 0 = site_pc k" by (simp_all add: enter_site_vm_def)
  have m: "\<forall>x. in_ram x \<longrightarrow> mapped_at m0 E (trace s @ [conf_call]) x"
    using assms(2) mapped_conf(1) [OF assms(1)] by (simp add: bare_kernel_def)
  obtain u where u: "trace s @ [conf_call] = t0 @ u" using assms(2) by (auto simp: bare_kernel_def)
  have r: "read32 (gmem E (trace ?s @ [conf_call])) (gregs ?s 0) = Some (encode (i (site_reg k)))"
    using ram_read32 [OF assms(1) m [unfolded u], of "site_pc k"] assms(3) p u by (simp add: sited_vm_def)
  have c: "conf_mapped E ?s" using assms(1) unfolding ram_view_def conf_mapped_def by blast
  have b: "priv_inv (priv ?s)" "priv_mode (priv ?s) = PRIV_S" "\<not> should_clear_vm (priv ?s)" "config_of (priv s) = cfg"
    using assms(2) p(1) by (simp_all add: bare_kernel_def guest_inv_def)
  show ?thesis
    using sigill_handled [OF b(1,2) c r b(3) assms(4)] unfolding p b(4) .
qed

lemma csr_stmt:
  assumes "ram_view m0 E t0 code" and "bare_kernel m0 E t0 cfg s" and "c \<noteq> Satp" "c \<noteq> Sie"
    and "sited_vm code [k] [(\<lambda>r. Csr op (Xreg r) c 0, v)]"
  shows "\<exists>s'. handler E SIGILL no_info (enter_site_vm k v s) = Ok () s' \<and> bare_kernel m0 E t0 cfg s'
    \<and> csrs (abs_isa s') = (csrs (abs_isa s))(c := legalize c (csrs (abs_isa s) c) (csr_new op (csrs (abs_isa s) c) v))"
proof -
  let ?s = "enter_site_vm k v s" and ?i = "Csr op (Xreg (site_reg k)) c 0"
  have r: "site_reg k \<noteq> 0" using assms(5) by (simp add: sited_vm_def)
  have x: "csrs (isa_exec ?i (abs_isa ?s)) = (csrs (abs_isa s))(c := legalize c (csrs (abs_isa s) c) (csr_new op (csrs (abs_isa s) c) v))"
    "mode (isa_exec ?i (abs_isa ?s)) = mode (abs_isa s)"
    using r site_isa [OF r] by (simp_all add: Let_def del: abs_isa_simps)
  have "\<not> bit (csrs (isa_exec ?i (abs_isa ?s)) Sie) 5"
    using assms(2,4) unfolding x by (simp add: bare_kernel_def)
  then obtain s' where s': "handler E SIGILL no_info ?s = Ok () s'" "abs_isa s' = isa_exec ?i (abs_isa ?s)"
      "guest_inv cfg (priv s')" "\<not> should_clear_vm (priv s')"
      "trace s' = (trace s @ [conf_call]) @ [Ecall SYS_munmap [Reg (sysret E (trace s @ [conf_call])), Reg CONF_SIZE]]"
    using stmt_handled [OF assms(1,2,5)] assms(3) by auto
  have "mapped_at m0 E (trace s') x" if "in_ram x" for x
    using that assms(2) unfolding s'(5) mapped_conf [OF assms(1) that] by (simp add: bare_kernel_def)
  moreover have "csrs (abs_isa s') Satp = csrs (abs_isa s) Satp" "csrs (abs_isa s') Sie = csrs (abs_isa s) Sie"
    using assms(3,4) s'(2) x(1) by simp_all
  moreover have "mode (abs_isa s') = S_mode"
    using s'(2) x(2) assms(2) abs_isa_simps(4) [of s] unfolding bare_kernel_def by metis
  moreover have "\<exists>u. trace s' = t0 @ u" using s'(5) assms(2) by (auto simp: bare_kernel_def)
  ultimately have "bare_kernel m0 E t0 cfg s'"
    using s'(3,4) assms(2) by (simp add: bare_kernel_def)
  then show ?thesis using s'(1,2) x(1) by auto
qed

lemma bare_fault:
  assumes "get_satp_mode (satp (priv s)) = SATP_MODE_BARE"
  shows "\<exists>s'. handle_page_fault E cause va s = Stop Ebreak s' \<and> last (trace s') = log_call ''someone turned off translation''"
  using assms by (simp add: handle_page_fault_def lookup_pa_def lookup_pa_in_ram_def Let_def)

definition fetch_fault :: "u64 \<Rightarrow> siginfo" where
  "fetch_fault a = no_info\<lparr>si_addr := a\<rparr>"

lemma bare_fetch_fatal:
  assumes "satp (priv s) = 0" and "conf_mapped E s"
  shows "\<exists>s'. handler E SIGSEGV (fetch_fault (gregs s 0)) s = Stop Ebreak s'
    \<and> last (trace s') = log_call ''someone turned off translation''"
proof -
  let ?s = "s\<lparr>trace := trace s @ [conf_call], priv := (priv s)\<lparr>counter_segv := counter_segv (priv s) + 1\<rparr>\<rparr>"
  have "get_satp_mode (satp (priv ?s)) = SATP_MODE_BARE"
    using assms(1) by (simp add: field_defs bf_get_def SATP_MODE_BARE_def)
  from bare_fault [OF this, of E SCAUSE_INSTR_PF "gregs s 0"] show ?thesis
    using assms(2) by (auto simp: handler_apply Let_def handle_signal_def handle_sigsegv_def deref_apply conf_mapped_def
        fault_cause_def fetch_fault_def SIGSEGV_def SIGSYS_def SIGILL_def SIGALRM_def)
qed

lemma sret_unmaps:
  assumes "ram_view m0 E t0 code" and "bare_kernel m0 E t0 cfg s" and "sited_vm code [k] [(\<lambda>_. Sret, v)]"
    and "\<not> bit (csrs (abs_isa s) Sstatus) 8" and "in_ram x"
    and "0x81000000 \<le> unat (stub_start (priv s))" and "unat (stub_start (priv s)) + unat (stub_size (priv s)) \<le> 2 ^ 38"
  shows "\<exists>s'. handler E SIGILL no_info (enter_site_vm k v s) = Ok () s' \<and> priv_mode (priv s') = PRIV_U
    \<and> gregs s' 0 = csrs (abs_isa s) Sepc \<and> satp (priv s') = 0 \<and> \<not> mapped_at m0 E (trace s') x
    \<and> (\<exists>u. trace s' = t0 @ u)"
proof -
  let ?s = "enter_site_vm k v s" and ?c = "sysret E (trace s @ [conf_call])"
  have r: "site_reg k \<noteq> 0" using assms(3) by (simp add: sited_vm_def)
  note i = site_isa [OF r, of v s]
  have "\<not> bit (csrs (isa_exec Sret (abs_isa ?s)) Sie) 5"
    using assms(2) i(2) by (simp add: Let_def bare_kernel_def del: abs_isa_simps) (simp add: bare_kernel_def)
  moreover have "flushes Sret (abs_isa ?s)" using i(2) assms(4) by (simp del: abs_isa_simps)
  ultimately obtain s' where s': "handler E SIGILL no_info ?s = Ok () s'" "abs_isa s' = isa_exec Sret (abs_isa ?s)"
      "guest_inv cfg (priv s')"
      "trace s' = ((trace s @ [conf_call]) @ flush_calls (priv s)) @ [Ecall SYS_munmap [Reg ?c, Reg CONF_SIZE]]"
    using stmt_handled [OF assms(1-3)] by auto
  have "csrs (abs_isa s') Satp = csrs (abs_isa s) Satp" "pc (abs_isa s') = csrs (abs_isa s) Sepc" "mode (abs_isa s') = U_mode"
    unfolding s'(2) using i assms(4) by (simp_all add: Let_def del: abs_isa_simps)
  moreover have "priv_mode (priv s') = PRIV_U"
    using mode_cases [of s'] s'(3) calculation(3) unfolding guest_inv_def by (metis mode.distinct(1))
  moreover have "\<not> mapped_at m0 E (trace s') x"
  proof -
    have u: "sysret E (t @ [Ecall SYS_munmap [Reg a, Reg l]]) = 0" for t a l
      using assms(1) unfolding ram_view_def by blast
    have "\<not> mapped_at m0 E (t @ flush_calls (priv s)) x" for t
      using mm.flush [OF assms(7) _ u, of x] assms(5,6) by auto
    then show ?thesis
      unfolding s'(4) mapped_conf(2) [OF assms(1,5)] by blast
  qed
  moreover have "\<exists>u. trace s' = t0 @ u" using s'(4) assms(2) by (auto simp: bare_kernel_def)
  ultimately show ?thesis using s'(1) assms(2) by (simp add: bare_kernel_def)
qed

section \<open>Properties\<close>


text \<open>An assembler that compresses nothing, and a layout of the guest.\<close>

fun assemble :: "u64 \<Rightarrow> ginstr list \<Rightarrow> code" where
  "assemble a [] = (\<lambda>_. None)"
| "assemble a (i # is) = (assemble (a + 4) is)(a \<mapsto> (i, 4))"

definition sample_code :: code where
  "sample_code = assemble 0x80200100 stvec_code ++ assemble 0x80200200 (umode_asm 15) ++
     assemble 0x80200000 [Sys (Csr RC (Xreg 10) Sstatus 0), Sys (Csr RW (Xreg 10) Stvec 0),
       Sys (Csr RW (Xreg 10) Sepc 0), Sys Sret]"

definition sample_site :: "u64 \<Rightarrow> 5 word \<Rightarrow> asm_site" where
  "sample_site a r = \<lparr>site_pc = a, site_reg = r, site_regs = (\<lambda>_. 0x80300000), site_bytes = (\<lambda>_. 0)\<rparr>"

definition main_sites :: "asm_site list" where
  "main_sites = [sample_site 0x80200000 10, sample_site 0x80200004 10, sample_site 0x80200008 10, sample_site 0x8020000c 10]"

lemma sample_layout:
  "sited sample_code main_sites (kernel_main 0x80200100 0x80200200)"
  "placed sample_code 0x80200100 stvec_code" "placed sample_code 0x80200200 (umode_asm 15)"
  by (simp_all add: sited_def main_sites_def sample_site_def kernel_main_def sample_code_def stvec_code_def
      stvec_save_def stvec_restore_def umode_asm_def map_add_def)




text \<open>
  C25: the firmware calls of \<^verbatim>\<open>sbi.h\<close> through the stub.  \<open>sbi_console_putchar\<close> writes the low byte of
  its argument to standard output and comes back behind the \<open>ecall\<close> with nothing changed but the
  registers of the call; \<open>sbi_shutdown\<close> ends the process with status 0 and never reaches its loop.
\<close>

theorem sbi_client:
  assumes "priv_inv (priv s)" and "priv_mode (priv s) = PRIV_S" and "conf_mapped E s"
    and "\<not> bit (sie (priv s)) 5" and "c \<noteq> 0xdeadbeefdeadbeef"
  shows "(\<exists>s'. sbi_console_putchar E c s = Ok () s' \<and> console_of (trace s') = console_of (trace s) @ [ucast c]
      \<and> abs_isa s' = abs_isa s\<lparr>pc := gregs s 0 + 4, xregs := (xregs (abs_isa s))(10 := 0, 11 := 0, 12 := 0, 17 := 1)\<rparr>)
    \<and> (\<exists>s'. sbi_shutdown E s = Stop (Exit 0) s')"
proof
  let ?s = "s\<lparr>gregs := (gregs s)(10 := c, 11 := 0, 12 := 0, 17 := 1, 0 := gregs s 0 + 4)\<rparr>"
  let ?i = "no_info\<lparr>si_syscall := 1\<rparr>"
  have c: "conf_mapped E ?s" using assms(3) by (simp add: conf_mapped_def)
  obtain s2 where s2: "handle_signal E (sysret E (trace ?s @ [conf_call])) SIGSYS ?i (?s\<lparr>trace := trace ?s @ [conf_call]\<rparr>) = Ok () s2"
      "abs_isa s2 = abs_isa ?s\<lparr>xregs := (xregs (abs_isa ?s))(17 := 1, 10 := 0)\<rparr>" "priv_inv (priv s2)"
      "trace s2 = trace ?s @ [conf_call, Ecall SYS_write [Reg 1, Bytes [ucast (gregs ?s 10)], Reg 1]]"
    using kernel_putchar_run [OF _ _ c, of ?i] assms(1,2,5) by (auto simp: guest_inv_def SBI_CONSOLE_PUTCHAR_def)
  have "\<not> bit (csrs (abs_isa s2) Sie) 5" using assms(4) unfolding s2(2) by simp
  then have "handler E SIGSYS ?i ?s = Ok () (finish (sysret E (trace ?s @ [conf_call])) s2)"
    using handler_quiet [OF s2(1,3)] by blast
  then have "sbi_console_putchar E c s = Ok () (finish (sysret E (trace ?s @ [conf_call])) s2)"
    by (simp add: sbi_console_putchar_def sbi_call_def andthen_apply SBI_CONSOLE_PUTCHAR_def fun_upd_twist)
  moreover have "abs_isa s2 = abs_isa s\<lparr>pc := gregs s 0 + 4, xregs := (xregs (abs_isa s))(10 := 0, 11 := 0, 12 := 0, 17 := 1)\<rparr>"
    unfolding s2(2) by (auto simp: abs_isa_def fun_eq_iff word_unat_eq_iff)
  moreover have "console_of (trace s2) = console_of (trace s) @ [ucast c]"
    unfolding s2(4) by (simp add: console_of_def conf_call_def)
  ultimately show "\<exists>s'. sbi_console_putchar E c s = Ok () s' \<and> console_of (trace s') = console_of (trace s) @ [ucast c]
      \<and> abs_isa s' = abs_isa s\<lparr>pc := gregs s 0 + 4, xregs := (xregs (abs_isa s))(10 := 0, 11 := 0, 12 := 0, 17 := 1)\<rparr>"
    by (simp add: console_finish)
  show "\<exists>s'. sbi_shutdown E s = Stop (Exit 0) s'"
    using assms(2,3) by (simp add: sbi_shutdown_def sbi_call_def handler_apply kernel_ecall_run conf_mapped_def Let_def
      andthen_apply handle_legacy_sbi_call_def SBI_SHUTDOWN_def SBI_CONSOLE_PUTCHAR_def SBI_CONSOLE_GETCHAR_def)
qed

theorem sbi_client_witness:
  "(\<exists>s'. sbi_console_putchar csrw_env 0x41 sample_machine = Ok () s' \<and> console_of (trace s') = [0x41])
   \<and> (\<exists>s'. sbi_shutdown csrw_env sample_machine = Stop (Exit 0) s')"
proof -
  have "\<not> bit (sie (priv sample_machine)) 5" "console_of (trace sample_machine) = []"
    by (simp_all add: sample_machine_def sample_priv_def initialize_priv_def Let_def console_of_def)
  then show ?thesis
    using sbi_client [OF sample_inv sample_machine_facts, of "0x41"] by auto
qed

text \<open>
  From the state in which the stub starts it, the \<open>kernel_main\<close> of the test guest runs through to \<open>umode\<close>
  in user mode; but the return to user mode has unmapped the RAM, and the page fault of the first
  fetch, without translation, ends the process.
\<close>

lemma test_kernel_dies:
  assumes "ram_view m0 E t0 code" and "bare_kernel m0 E t0 cfg s" and "sited_vm code ks (kernel_main tv um)" and "in_ram (unat um)"
    and "0x81000000 \<le> unat (stub_start (priv s))" and "unat (stub_start (priv s)) + unat (stub_size (priv s)) \<le> 2 ^ 38"
  shows "\<exists>s' s''. run_vm E ks (kernel_main tv um) s = Ok () s' \<and> priv_mode (priv s') = PRIV_U \<and> gregs s' 0 = um
    \<and> gmem E (trace s') um = None \<and> handler E SIGSEGV (fetch_fault um) s' = Stop Ebreak s''
    \<and> last (trace s'') = log_call ''someone turned off translation''"
proof -
  obtain k1 k2 k3 k4 where ks: "ks = [k1, k2, k3, k4]"
    using assms(3) by (auto simp: sited_vm_def kernel_main_def list_all2_Cons2)
  have sites: "sited_vm code [k1] [(\<lambda>r. Csr RC (Xreg r) Sstatus 0, MASK_sstatus_spp)]"
    "sited_vm code [k2] [(\<lambda>r. Csr RW (Xreg r) Stvec 0, tv)]" "sited_vm code [k3] [(\<lambda>r. Csr RW (Xreg r) Sepc 0, um)]"
    "sited_vm code [k4] [(\<lambda>_. Sret, 0)]"
    using assms(3) by (simp_all add: ks sited_vm_def kernel_main_def)
  obtain s1 where s1: "handler E SIGILL no_info (enter_site_vm k1 MASK_sstatus_spp s) = Ok () s1" "bare_kernel m0 E t0 cfg s1"
      "csrs (abs_isa s1) = (csrs (abs_isa s))(Sstatus := legalize Sstatus (csrs (abs_isa s) Sstatus)
        (csrs (abs_isa s) Sstatus AND NOT MASK_sstatus_spp))"
    using csr_stmt [OF assms(1,2) _ _ sites(1)] by auto
  obtain s2 where s2: "handler E SIGILL no_info (enter_site_vm k2 tv s1) = Ok () s2" "bare_kernel m0 E t0 cfg s2"
      "csrs (abs_isa s2) = (csrs (abs_isa s1))(Stvec := legalize Stvec (csrs (abs_isa s1) Stvec) tv)"
    using csr_stmt [OF assms(1) s1(2) _ _ sites(2)] by auto
  obtain s3 where s3: "handler E SIGILL no_info (enter_site_vm k3 um s2) = Ok () s3" "bare_kernel m0 E t0 cfg s3"
      "csrs (abs_isa s3) = (csrs (abs_isa s2))(Sepc := um)"
    using csr_stmt [OF assms(1) s2(2) _ _ sites(3)] by auto
  have n: "\<not> bit (csrs (abs_isa s3) Sstatus) 8" "csrs (abs_isa s3) Sepc = um"
    unfolding s3(3) s2(3) s1(3)
    by (simp_all add: merge_bits_def bit_put_bit field_defs bit_bf_mask bit_simps)
  have "stub_start (priv s3) = stub_start (priv s)" "stub_size (priv s3) = stub_size (priv s)"
    using assms(2) s3(2) by (auto simp: bare_kernel_def guest_inv_def config_of_def)
  then obtain s4 where s4: "handler E SIGILL no_info (enter_site_vm k4 0 s3) = Ok () s4" "priv_mode (priv s4) = PRIV_U"
      "gregs s4 0 = um" "satp (priv s4) = 0" "\<not> mapped_at m0 E (trace s4) (unat um)" "\<exists>u. trace s4 = t0 @ u"
    using sret_unmaps [OF assms(1) s3(2) sites(4) n(1), of "unat um"] n(2) assms(4-6) by auto
  have "gmem E (trace s4) um = None" "conf_mapped E s4"
    using assms(1,4) s4(5,6) unfolding ram_view_def conf_mapped_def by auto
  moreover have "run_vm E ks (kernel_main tv um) s = Ok () s4"
    using s1(1) s2(1) s3(1) s4(1) by (simp add: ks kernel_main_def)
  ultimately show ?thesis using bare_fetch_fatal [OF s4(4), of E] s4(2,3) by auto
qed

text \<open>
  \<open>clear_bss\<close> ends for all bounds, and clears exactly the bytes from the first to before the second;
  it does nothing when they are in the wrong order.
\<close>

lemma clear_bss_clears: "clear_bss sbss ebss m x = (if sbss \<le> x \<and> x < ebss then 0 else m x)"
  by (simp add: clear_bss_def clear_from_range)

end
