(* ===== verification/Shadow.thy ===== *)
theory Shadow
  imports Address_Space
begin

text \<open>
  The mappings of the process as a shadow of the guest's page tables: which mapping calls the signal handler
  makes, and the invariant that relates every mapped page to a Sv39 walk under the current translation.
\<close>

section \<open>Code that maps nothing\<close>

text \<open>\<open>quiet t t'\<close>: from \<open>t\<close> on the trace grew to \<open>t'\<close> without a call of \<open>mmap\<close>.\<close>

fun is_mmap :: "ecall \<Rightarrow> bool" where
  "is_mmap (Ecall n args) = (n = SYS_mmap)"

definition quiet :: "ecall list \<Rightarrow> ecall list \<Rightarrow> bool" where
  "quiet t t' \<longleftrightarrow> (\<exists>u. t' = t @ u \<and> list_all (\<lambda>e. \<not> is_mmap e) u)"

lemma quiet_refl [simp]: "quiet t t" by (simp add: quiet_def)

lemma quiet_call: "quiet t t' \<Longrightarrow> \<not> is_mmap e \<Longrightarrow> quiet t (t' @ [e])"
  by (auto simp: quiet_def)

lemma quiet_append: "list_all (\<lambda>e. \<not> is_mmap e) u \<Longrightarrow> quiet t (t @ u)"
  by (auto simp: quiet_def)

lemma quiet_trans: "quiet t t' \<Longrightarrow> quiet t' t'' \<Longrightarrow> quiet t t''"
  by (auto simp: quiet_def)

lemma quiet_printed: "quiet t (t @ printed cs)"
  by (rule quiet_append) (auto simp: printed_def putchar_call_def list_all_iff)

lemma mapped_rev_quiet: "\<not> is_mmap e \<Longrightarrow> mapped_rev m0 E (e # r) x \<longrightarrow> mapped_rev m0 E r x"
proof (cases e)
  case (Ecall n args)
  assume "\<not> is_mmap e"
  show ?thesis
  proof (cases "n = SYS_munmap")
    case True
    consider "args = []" | a where "args = [a]" | a b cs where "args = a # b # cs" by (metis list.exhaust)
    then show ?thesis
    proof cases
      case (2 a)
      then show ?thesis using Ecall True by (cases a) simp_all
    next
      case (3 a b cs)
      then show ?thesis using Ecall True by (cases a; cases b; cases cs) simp_all
    qed (simp add: Ecall True)
  next
    case False
    then show ?thesis using Ecall \<open>\<not> is_mmap e\<close> by (cases n) simp_all
  qed
qed

lemma quiet_mapped:
  assumes "quiet t t'" and "mapped_at m0 E t' x" shows "mapped_at m0 E t x"
proof -
  obtain u where t': "t' = t @ u" and u: "list_all (\<lambda>e. \<not> is_mmap e) u"
    using assms(1) by (auto simp: quiet_def)
  from u have "mapped_at m0 E (t @ u) x \<longrightarrow> mapped_at m0 E t x"
  proof (induction u rule: rev_induct)
    case (snoc e u)
    then show ?case
      using mapped_rev_quiet [of e m0 E "rev (t @ u)" x] by (simp add: mapped_at_def del: mapped_rev.simps)
  qed simp
  then show ?thesis using assms(2) t' by blast
qed

interpretation quiet: call_inv "\<lambda>s :: machine. quiet t (trace s)" "\<lambda>e. \<not> is_mmap e" for t
  by unfold_locales (simp add: quiet_call)

lemma quiet_upd_priv [keeps_rules]: "keeps (\<lambda>s. quiet t (trace s)) (upd_priv f)"
  "keeps (\<lambda>s. quiet t (trace s)) (set_greg i v)" "keeps (\<lambda>s. quiet t (trace s)) (advance_pc n)"
  by (simp_all add: keeps_def upd_priv_def set_greg_def advance_pc_def)

lemma not_mmap_log: "\<not> is_mmap (log_call m)" by (simp add: log_call_def Let_def)

lemmas quiet_calls = quiet.keeps_write_log [OF not_mmap_log] quiet.keeps_pread64 quiet.keeps_pwrite64
  quiet.keeps_read quiet.keeps_write quiet.keeps_timer_settime quiet.keeps_exit_group

lemma quiet_log_ebreak [keeps_rules]: "keeps (\<lambda>s. quiet t (trace s)) (log_ebreak E msg)"
  unfolding log_ebreak_def by (intro keeps_rules quiet_calls)

lemma quiet_print [keeps_rules]: "keeps (\<lambda>s :: machine. quiet t (trace s)) (print E fmt va)"
  by (auto simp: keeps_def print_apply intro: quiet_trans [OF _ quiet_printed] split: option.split)

lemma quiet_enter_trap [keeps_rules]: "keeps (\<lambda>s. quiet t (trace s)) (enter_trap cause va)"
  unfolding enter_trap_def by (intro keeps_rules)

lemma quiet_instr [keeps_rules]: "keeps (\<lambda>s. quiet t (trace s)) (handle_priv_instr E instr)"
  unfolding handle_priv_instr_def handle_not_csr_def handle_csr_def read_csr_def write_csr_def
  by (intro keeps_rules quiet_calls)

lemma quiet_sbi [keeps_rules]: "keeps (\<lambda>s. quiet t (trace s)) (handle_legacy_sbi_call E which a b c)"
  unfolding handle_legacy_sbi_call_def by (intro keeps_rules quiet_calls) simp_all

lemma quiet_mmio_fault [keeps_rules]: "keeps (\<lambda>s. quiet t (trace s)) (mmio_fault E cause va pa)"
  unfolding mmio_fault_def get_store_data_def decode_sd_def skip_store_def
  by (intro keeps_rules quiet_calls) simp_all

lemma quiet_sigsys [keeps_rules]: "keeps (\<lambda>s. quiet t (trace s)) (handle_sigsys E conf info)"
  unfolding handle_sigsys_def print_counters_def by (intro keeps_rules)

lemma quiet_sigill [keeps_rules]: "keeps (\<lambda>s. quiet t (trace s)) (handle_sigill E conf)"
  unfolding handle_sigill_def by (intro keeps_rules)

lemma quiet_sigalrm [keeps_rules]: "keeps (\<lambda>s. quiet t (trace s)) (handle_sigalrm E conf)"
  unfolding handle_sigalrm_def by (intro keeps_rules quiet_calls)


section \<open>What the handler maps\<close>

text \<open>
  \<open>x\<close> lies on a page that was installed, during the trace \<open>t\<close>, for a fault at \<open>va\<close>: the Sv39 walk that just came
  before, from the root of the translation \<open>a\<close> over the contents of the RAM file, ended at a leaf in RAM.
\<close>

definition shadowed :: "env \<Rightarrow> u64 \<Rightarrow> ecall list \<Rightarrow> nat \<Rightarrow> bool" where
  "shadowed E a t x \<longleftrightarrow> (\<exists>r va pte w. t = r @ [ram_map_call,
       Ecall SYS_munmap [Reg (sysret E (r @ [ram_map_call])), Reg RAM_SIZE], page_call va pte] @ w
     \<and> get_satp_mode a \<noteq> SATP_MODE_BARE \<and> va_sign_ok va
     \<and> sv39 (ram_words (ramf E (r @ [ram_map_call]))) (unat va) 2 (satp_root a) = Leaf 0 pte
     \<and> 0x80000000 \<le> pte_target pte \<and> pte_target pte < 0x81000000
     \<and> unat (va - va mod 4096) \<le> x \<and> x < unat (va - va mod 4096) + 4096)"

lemma shadowed_append: "shadowed E a t x \<Longrightarrow> shadowed E a (t @ u) x"
  unfolding shadowed_def by (metis append.assoc)

lemma lookup_pa_cases:
  assumes "lookup_pa E va s = Ok res s'"
  shows "s' = s\<lparr>trace := walk_trace E s\<rparr> \<and> (\<forall>pa pte. res = Some (pa, pte) \<and> pte \<noteq> 0 \<longrightarrow>
      translating E va s \<and> (\<exists>p. (guest_walk E va s = Leaf 0 p \<or> guest_walk E va s = No_leaf p) \<and> pte = of_nat p
        \<and> pa = of_nat (pte_target p + unat va mod 4096)))"
proof (cases "translating E va s")
  case True
  then show ?thesis
    using assms lookup_pa_walk [of s va "trace s @ [ram_map_call]" E]
    by (auto simp: translating_def guest_walk_def walk_result_def walk_trace_def Let_def andthen_apply
        split: translation.splits if_splits)
next
  case False
  have "walk E ram va vpn 0 pt u \<noteq> Ok r u'" if "is_err ram" for ram vpn pt u r u'
    using that by (subst walk.simps) (simp add: read_ram64_def deref_apply log_ebreak_def andthen_apply)
  then show ?thesis
    using assms False
    by (auto simp: translating_def lookup_pa_def lookup_pa_in_ram_def walk_trace_def ram_map_call_def andthen_apply Let_def
        split: outcome.splits if_splits)
qed


lemma sv39_ends:
  assumes "sv39 mem va i table = Leaf j pte \<or> sv39 mem va i table = No_leaf pte"
  shows "\<exists>a. pte = mem a"
  using assms
proof (induction i arbitrary: table rule: less_induct)
  case (less i)
  show ?case
    using less.prems less.IH [of "i - 1" "pte_target (mem (table + 8 * va_index va i))"]
    by (subst (asm) (1 2) sv39.simps) (auto simp: Let_def split: if_splits)
qed

lemma sv39_no_leaf:
  "sv39 mem va i table = No_leaf pte \<Longrightarrow> \<not> pte_bit pte 1 \<and> \<not> pte_bit pte 2 \<and> \<not> pte_bit pte 3"
proof (induction i arbitrary: table rule: less_induct)
  case (less i)
  show ?case
    using less.prems less.IH [of "i - 1" "pte_target (mem (table + 8 * va_index va i))"]
    by (subst (asm) sv39.simps) (auto simp: Let_def split: if_splits)
qed

lemma walk_pte:
  assumes "guest_walk E va s = Leaf 0 p \<or> guest_walk E va s = No_leaf p"
  shows "p < 2 ^ 64" "unat (of_nat p :: u64) = p"
proof -
  obtain a where "p = ram_words (ramf E (trace s @ [ram_map_call])) a"
    using assms sv39_ends unfolding guest_walk_def by blast
  then show "p < 2 ^ 64"
    using unsigned_less [where ?'a = nat, of "ram64 (ramf E (trace s @ [ram_map_call])) (of_nat a - RAM_START)"]
    by (simp add: ram_words_def)
  then show "unat (of_nat p :: u64) = p" by (simp add: unsigned_of_nat take_bit_nat_eq_self)
qed

lemma quiet_keeps: "keeps (\<lambda>s. quiet t (trace s)) m \<Longrightarrow> m (s\<lparr>trace := t\<rparr>) = Ok r s' \<Longrightarrow> quiet t (trace s')"
  by (drule keepsD) simp_all

definition fault_causes :: "u64 set" where
  "fault_causes = {SCAUSE_INSTR_PF, SCAUSE_LOAD_PF, SCAUSE_STORE_PF}"

lemma ram_fault_maps:
  assumes "ram_fault E cause va (of_nat p) s = Ok () s'" and "cause \<in> fault_causes"
    and "guest_walk E va s0 = Leaf 0 p \<or> guest_walk E va s0 = No_leaf p" and "0x80000000 \<le> pte_target p"
  shows "quiet (trace s) (trace s') \<or> (guest_walk E va s0 = Leaf 0 p \<and> s' = s\<lparr>trace := trace s @ [page_call va p]\<rparr>)"
proof (cases "denied cause (of_nat p)")
  case True
  have "keeps (\<lambda>s. quiet (trace t) (trace s)) (ram_fault E cause va (of_nat p))" for t :: machine
    unfolding ram_fault_def using True by (simp, intro keeps_rules quiet_calls)
  from keepsD [OF this _ assms(1), of s] show ?thesis by simp
next
  case False
  note w = walk_pte [OF assms(3)]
  have "allows cause p" using False w(2) by (simp add: denied_allows)
  then have "guest_walk E va s0 = Leaf 0 p"
    using assms(2,3) sv39_no_leaf [of _ "unat va" 2 _ p] by (auto simp: guest_walk_def allows_def fault_causes_def riscv_const)
  moreover have "pte_prot (of_nat p) = of_bool (pte_bit p 1) + 2 * of_bool (pte_bit p 2) + 4 * of_bool (pte_bit p 3)"
    using w(2) by (simp only: pte_prot_bits)
  ultimately show ?thesis
    using assms(1) False unfolding ram_fault_def page_base page_call_def pte_offset [OF w(1) assms(4)]
    by (auto simp: andthen_apply whenM_def print_apply Let_def split: if_splits option.splits)
qed


lemma fault_maps:
  assumes "handle_page_fault E cause va s = Ok () s'" and "cause \<in> fault_causes"
  shows "quiet (walk_trace E s) (trace s') \<or> (\<exists>p. translating E va s \<and> guest_walk E va s = Leaf 0 p \<and> 0x80000000 \<le> pte_target p
    \<and> pte_target p < 0x81000000 \<and> trace s' = walk_trace E s @ [page_call va p])"
proof -
  let ?s = "s\<lparr>trace := walk_trace E s\<rparr>"
  obtain res where l: "lookup_pa E va s = Ok res ?s"
    using assms(1) lookup_pa_cases [of E va s]
    by (auto simp: handle_page_fault_def andthen_apply split: outcome.splits)
  show ?thesis
  proof (cases res)
    case None
    then have "enter_trap cause va ?s = Ok () s'" using assms(1) l by (simp add: handle_page_fault_def)
    then show ?thesis using quiet_keeps [OF quiet_enter_trap] by blast
  next
    case (Some q)
    obtain pa pte where q: "q = (pa, pte)" by (cases q)
    have nz: "pte \<noteq> 0" using assms(1) l Some q by (auto simp: handle_page_fault_def log_ebreak_def andthen_apply)
    obtain p where p: "guest_walk E va s = Leaf 0 p \<or> guest_walk E va s = No_leaf p" "pte = of_nat p"
        "pa = of_nat (pte_target p + unat va mod 4096)" and "translating E va s"
      using lookup_pa_cases [OF l] Some q nz by auto
    show ?thesis
    proof (cases "RAM_START \<le> pa \<and> pa < RAM_START + RAM_SIZE")
      case True
      then have r: "0x80000000 \<le> pte_target p" "pte_target p < 0x81000000"
        using target_in_ram [of p va] unfolding p(3) by blast+
      have "ram_fault E cause va (of_nat p) ?s = Ok () s'"
        using assms(1) l Some q nz True p(2) by (simp add: handle_page_fault_def)
      from ram_fault_maps [OF this assms(2) p(1) r(1)] r \<open>translating E va s\<close> show ?thesis by auto
    next
      case False
      then have "mmio_fault E cause va pa ?s = Ok () s'"
        using assms(1) l Some q nz by (auto simp: handle_page_fault_def)
      then show ?thesis using quiet_keeps [OF quiet_mmio_fault] by blast
    qed
  qed
qed

lemma fault_cause_result:
  assumes "fault_cause E info s = Ok c s'"
  shows "c \<in> fault_causes" "priv s' = priv s" "quiet (trace s) (trace s')"
proof -
  show "c \<in> fault_causes" "priv s' = priv s"
    using assms by (auto simp: fault_cause_def fault_causes_def andthen_apply load_apply Let_def
        split: if_splits option.splits)
  have "keeps (\<lambda>u. quiet (trace s) (trace u)) (fault_cause E info)"
    unfolding fault_cause_def by (intro keeps_rules quiet_calls)
  from keepsD [OF this _ assms] show "quiet (trace s) (trace s')" by simp
qed


text \<open>
  What the stub relies on: \<open>munmap\<close> succeeds, and a mapping with \<open>MAP_FIXED_NOREPLACE\<close> that succeeds lies where it was
  asked for.
\<close>

definition fixed_maps :: "env \<Rightarrow> bool" where
  "fixed_maps E \<longleftrightarrow> (\<forall>t a l. sysret E (t @ [Ecall SYS_munmap [Reg a, Reg l]]) = 0)
     \<and> (\<forall>t va pte. let r = sysret E (t @ [page_call va pte]) in is_err r \<or> r = va - va mod 4096)"

lemma mapped_page:
  assumes "fixed_maps E" and "mapped_at m0 E (t @ [page_call va pte]) x"
  shows "mapped_at m0 E t x \<or> unat (va - va mod 4096) \<le> x \<and> x < unat (va - va mod 4096) + 4096"
proof -
  let ?r = "sysret E (t @ [page_call va pte])"
  have "is_err ?r \<or> ?r = va - va mod 4096" using assms(1) by (auto simp: fixed_maps_def Let_def)
  then show ?thesis
    using assms(2) unfolding page_call_def mapped_mmap by (auto simp: Let_def)
qed

lemma mapped_walk:
  assumes "fixed_maps E" and "mapped_at m0 E (walk_trace E s) x"
  shows "mapped_at m0 E (trace s) x"
proof -
  let ?t = "trace s @ [ram_map_call]"
  have u: "sysret E (t @ [Ecall SYS_munmap [Reg a, Reg l]]) = 0" for t a l using assms(1) by (simp add: fixed_maps_def)
  have "walk_trace E s = ?t @ [Ecall SYS_munmap [Reg (sysret E ?t), Reg RAM_SIZE]]" by (simp add: walk_trace_def)
  then have "mapped_at m0 E ?t x \<and> \<not> in_range (sysret E ?t) RAM_SIZE x"
    using assms(2) mm.unmapped [OF u] by metis
  then show ?thesis
    unfolding ram_map_call_def mapped_mmap by (auto simp: Let_def)
qed

lemma signal_cases:
  assumes "handle_signal E conf sig info s = Ok () s'"
  shows "quiet (trace s) (trace s') \<or> (\<exists>s1. quiet (trace s) (trace s1) \<and> satp (priv s1) = satp (priv s)
    \<and> (quiet (walk_trace E s1) (trace s') \<or> (\<exists>va p. translating E va s1 \<and> guest_walk E va s1 = Leaf 0 p \<and> 0x80000000 \<le> pte_target p
      \<and> pte_target p < 0x81000000 \<and> trace s' = walk_trace E s1 @ [page_call va p])))"
proof (cases "sig = SIGSEGV")
  case False
  have "keeps (\<lambda>u. quiet (trace s) (trace u)) (handle_signal E conf sig info)"
    unfolding handle_signal_def using False by (intro keeps_rules) simp_all
  from keepsD [OF this _ assms(1)] show ?thesis by simp
next
  case True
  define s0 where "s0 = s\<lparr>priv := (priv s)\<lparr>counter_segv := counter_segv (priv s) + 1\<rparr>\<rparr>"
  obtain c s1 where c: "fault_cause E info s0 = Ok c s1" "handle_page_fault E c (si_addr info) s1 = Ok () s'"
    using assms(1) True
    by (auto simp: handle_signal_def handle_sigsegv_def s0_def deref_apply andthen_apply riscv_const
        split: outcome.splits if_splits)
  note f = fault_cause_result [OF c(1)]
  have "satp (priv s1) = satp (priv s)" "quiet (trace s) (trace s1)" using f(2,3) by (simp_all add: s0_def)
  with fault_maps [OF c(2) f(1)] show ?thesis by blast
qed

lemma quiet_extends: "quiet t t' \<Longrightarrow> \<exists>u. t' = t @ u"
  by (auto simp: quiet_def)

lemma handler_extends:
  assumes "handler E sig info s = Ok () s'" shows "\<exists>u. trace s' = trace s @ u"
proof -
  let ?t = "trace s @ [conf_call]"
  obtain u s2 where s2: "handle_signal E (sysret E ?t) sig info (s\<lparr>trace := ?t\<rparr>) = Ok u s2"
    and s': "s' = finish (sysret E ?t) (interrupted s2)"
    using assms by (auto simp: handler_apply Let_def split: outcome.splits)
  have "\<exists>u. trace s2 = ?t @ u"
    using signal_cases [of E _ sig info "s\<lparr>trace := ?t\<rparr>"] s2
    by (fastforce simp: walk_trace_def dest!: quiet_extends)
  moreover have "\<exists>u. trace (interrupted s2) = trace s2 @ u"
    by (auto simp: interrupted_def enter_trap_apply)
  ultimately show ?thesis by (auto simp: s' finish_def)
qed

lemma signal_maps:
  assumes "handle_signal E conf sig info s = Ok () s'" and "fixed_maps E" and "mapped_at m0 E (trace s') x"
  shows "mapped_at m0 E (trace s) x \<or> shadowed E (satp (priv s)) (trace s') x"
  using signal_cases [OF assms(1)]
proof (elim disjE exE conjE)
  assume "quiet (trace s) (trace s')"
  then show ?thesis using quiet_mapped assms(3) by blast
next
  fix s1 assume "quiet (trace s) (trace s1)" "quiet (walk_trace E s1) (trace s')"
  then show ?thesis using quiet_mapped [OF _ assms(3)] mapped_walk [OF assms(2)] quiet_mapped by blast
next
  fix s1 va p
  assume q: "quiet (trace s) (trace s1)" "satp (priv s1) = satp (priv s)"
    and p: "translating E va s1" "guest_walk E va s1 = Leaf 0 p" "0x80000000 \<le> pte_target p" "pte_target p < 0x81000000"
    and t: "trace s' = walk_trace E s1 @ [page_call va p]"
  have "shadowed E (satp (priv s)) (trace s') x"
    if "unat (va - va mod 4096) \<le> x" "x < unat (va - va mod 4096) + 4096"
    unfolding shadowed_def using p t that
    by (intro exI [of _ "trace s1"] exI [of _ va] exI [of _ p] exI [of _ "[]"]) (simp add: walk_trace_def guest_walk_def translating_def q(2))
  then show ?thesis
    using mapped_page [OF assms(2) assms(3) [unfolded t]] mapped_walk [OF assms(2)] quiet_mapped [OF q(1)] by blast
qed

lemma handler_maps:
  assumes "handler E sig info s = Ok () s'" and "fixed_maps E" and "mapped_at m0 E (trace s') x"
  shows "(\<exists>t c. trace s' = t @ flush_calls (priv s') @ [Ecall SYS_munmap [Reg c, Reg CONF_SIZE]])
    \<or> priv_mode (priv s') = priv_mode (priv s) \<and> satp (priv s') = satp (priv s)
      \<and> (mapped_at m0 E (trace s) x \<or> shadowed E (satp (priv s)) (trace s') x)"
proof -
  let ?t = "trace s @ [conf_call]" and ?c = "sysret E (trace s @ [conf_call])"
  obtain u s2 where s2: "handle_signal E ?c sig info (s\<lparr>trace := ?t\<rparr>) = Ok u s2"
    and s': "s' = finish ?c (interrupted s2)"
    using assms(1) by (auto simp: handler_apply Let_def split: outcome.splits)
  show ?thesis
  proof (cases "should_clear_vm (priv (interrupted s2))")
    case True
    then show ?thesis by (auto simp: s' finish_def flush_calls_def)
  next
    case False
    then have i: "interrupted s2 = s2" by (auto simp: interrupted_def enter_trap_apply split: if_splits)
    have f: "trace s' = trace s2 @ [Ecall SYS_munmap [Reg ?c, Reg CONF_SIZE]]"
        "priv_mode (priv s') = priv_mode (priv s2)" "satp (priv s') = satp (priv s2)"
      using False by (simp_all add: s' i finish_def)
    have "sysret E (trace s2 @ [Ecall SYS_munmap [Reg ?c, Reg CONF_SIZE]]) = 0"
      using assms(2) by (simp add: fixed_maps_def)
    then have m: "mapped_at m0 E (trace s2) x" "\<not> in_range ?c CONF_SIZE x"
      using assms(3) mm.unmapped [of E "trace s2" ?c CONF_SIZE m0 x] unfolding f(1) by blast+
    have "vm_inv (priv_mode (priv s)) (satp (priv s)) (priv s2)"
      using keepsD [OF vm.keeps_handle_signal _ s2] by (simp add: vm_inv_def)
    then have v: "priv_mode (priv s2) = priv_mode (priv s)" "satp (priv s2) = satp (priv s)"
      using False by (auto simp: vm_inv_def i)
    have "mapped_at m0 E ?t x \<or> shadowed E (satp (priv s)) (trace s2) x"
      using signal_maps [where s = "s\<lparr>trace := ?t\<rparr>", OF _ assms(2) m(1)] s2 by simp
    moreover have "mapped_at m0 E ?t x \<longrightarrow> mapped_at m0 E (trace s) x"
      using m(2) unfolding conf_call_def mapped_mmap by (auto simp: Let_def)
    ultimately show ?thesis
      using f v shadowed_append by metis
  qed
qed


section \<open>Properties\<close>

text \<open>
  C3: the process maps what the guest's tables translate.  In every state that the virtual machine reaches, every
  mapped address of the user half outside the stub lies on a page that was installed for the
  translation in force, the current \<open>satp\<close> with Sv39 on: the walk of the guest's tables that came just before the mapping
  ended at a leaf, and the mapping has its permissions and its page of RAM.  (The tables may have changed since, as
  with a TLB, and what was mapped at the start remains until the mode or \<open>satp\<close> first changes.)
\<close>

theorem shadow_coherent:
  assumes "reachable E s0 s" and "priv_inv (priv s0)" and "\<not> should_clear_vm (priv s0)"
    and "unat (stub_start (priv s0)) + unat (stub_size (priv s0)) \<le> 2 ^ 38" and "fixed_maps E"
    and "mapped_at m0 E (trace s) x" and "x < 2 ^ 38" and "\<not> in_range (stub_start (priv s0)) (stub_size (priv s0)) x"
  shows "shadowed E (satp (priv s)) (trace s) x
    \<or> mapped_at m0 E (trace s0) x \<and> priv_mode (priv s) = priv_mode (priv s0) \<and> satp (priv s) = satp (priv s0)"
  using assms(1,6)
proof (induction rule: reachable.induct)
  case (signal s sig info s')
  obtain s1 where h: "handler E sig info s = Ok () s1" and s': "s' = s1\<lparr>trace := trace s1 @ [Ecall SYS_rt_sigreturn []]\<rparr>"
    using signal.hyps(2) by (auto simp: handler_wrapper_apply split: outcome.splits)
  have x: "mapped_at m0 E (trace s1) x"
    using signal.prems by (simp add: s' mapped_at_def)
  have "config_of (priv s1) = config_of (priv s0)"
    using handler_guest [OF _ h] reachable_inv [OF signal.hyps(1) assms(2,3)] by simp
  then have c: "stub_start (priv s1) = stub_start (priv s0)" "stub_size (priv s1) = stub_size (priv s0)"
    by (simp_all add: config_of_def)
  have u: "sysret E (t @ [Ecall SYS_munmap [Reg a, Reg l]]) = 0" for t a l using assms(5) by (simp add: fixed_maps_def)
  have "\<not> (\<exists>t d. trace s1 = t @ flush_calls (priv s1) @ [Ecall SYS_munmap [Reg d, Reg CONF_SIZE]])"
  proof safe
    fix t d assume "trace s1 = t @ flush_calls (priv s1) @ [Ecall SYS_munmap [Reg d, Reg CONF_SIZE]]"
    then have "mapped_at m0 E (t @ flush_calls (priv s1)) x"
      using x mm.unmap_only [of m0 E "t @ flush_calls (priv s1)"] by simp
    then show False using mm.flush [of "priv s1" x E m0 t] assms(4,7,8) u by (simp add: c)
  qed
  with handler_maps [OF h assms(5) x] have m: "priv_mode (priv s1) = priv_mode (priv s)" "satp (priv s1) = satp (priv s)"
      "mapped_at m0 E (trace s) x \<or> shadowed E (satp (priv s)) (trace s1) x" by blast+
  obtain w where "trace s1 = trace s @ w" using handler_extends [OF h] by blast
  then have "shadowed E a (trace s) x \<or> shadowed E a (trace s1) x \<Longrightarrow> shadowed E a (trace s') x" for a
    using shadowed_append [of E a _ x] by (fastforce simp: s')
  then show ?case using m signal.IH unfolding s' by auto
qed simp_all


text \<open>A kernel that puts pages where they are asked for, and a load at the program counter.\<close>

definition shadow_env :: env where
  "shadow_env = sample_env\<lparr>gmem := (\<lambda>_ _. Some 0x03), sysret := (\<lambda>t. case last t of Ecall n args \<Rightarrow>
     if n = SYS_munmap then 0
     else if n = SYS_mmap \<and> args ! 3 = int_arg (MAP_SHARED OR MAP_FIXED_NOREPLACE)
       then (case hd args of Reg a \<Rightarrow> a | _ \<Rightarrow> 0) else 0x2000000000)\<rparr>"

lemma shadow_env_maps: "fixed_maps shadow_env"
  by (simp add: fixed_maps_def shadow_env_def page_call_def Let_def)

definition shadow_info :: siginfo where
  "shadow_info = no_info\<lparr>si_addr := 0x1234\<rparr>"

lemma shadow_step:
  "\<exists>s. handler shadow_env SIGSEGV shadow_info paged_machine = Ok () s \<and> mapped_at (\<lambda>_. False) shadow_env (trace s) 0x1ABC"
proof -
  define s1 where "s1 = paged_machine\<lparr>trace := [conf_call], priv := (priv paged_machine)\<lparr>counter_segv := counter_segv (priv paged_machine) + 1\<rparr>\<rparr>"
  have c: "sysret shadow_env (t @ [conf_call]) = 0x2000000000" "sysret shadow_env (t @ [ram_map_call]) = 0x2000000000"
      "sysret shadow_env (t @ [page_call 0x1234 p]) = 0x1000" for t p
    by (simp_all add: shadow_env_def conf_call_def ram_map_call_def page_call_def MAP_SHARED_def MAP_FIXED_NOREPLACE_def)
  have v: "va_sign_ok 0x1234" by (simp add: va_sign_sint)
  have t: "translating shadow_env 0x1234 s1"
    using c(2) [of "[conf_call]"] v by (simp add: translating_def s1_def paged_machine_def is_err_def field_defs bf_get_def riscv_const)
  have w: "guest_walk shadow_env 0x1234 s1 = Leaf 0 0x2000140f"
    by (simp add: guest_walk_def s1_def paged_machine_def satp_root_def shadow_env_def sample_env_def sample_walk)
  have a: "allows SCAUSE_LOAD_PF 0x2000140f" by (simp add: allows_def pte_bit_def riscv_const)
  let ?s2 = "s1\<lparr>trace := walk_trace shadow_env s1 @ [page_call 0x1234 0x2000140f]\<rparr>"
  have "handle_page_fault shadow_env SCAUSE_LOAD_PF 0x1234 s1 = Ok () ?s2"
    using page_installed [OF t w _ _ a] c(3) by (simp add: pte_target_def word_sless_alt)
  moreover have "fault_cause shadow_env shadow_info s1 = Ok SCAUSE_LOAD_PF s1"
    by (simp add: fault_cause_def shadow_info_def s1_def paged_machine_def sample_machine_def load_apply shadow_env_def read8_def
        read32_def read16_def riscv_const)
  ultimately have h: "handle_signal shadow_env 0x2000000000 SIGSEGV shadow_info (paged_machine\<lparr>trace := [conf_call]\<rparr>) = Ok () ?s2"
    by (simp add: handle_signal_def handle_sigsegv_def deref_apply is_err_def s1_def shadow_info_def riscv_const)
  have q: "\<not> interrupt_ready (priv ?s2)" "\<not> should_clear_vm (priv ?s2)"
    by (simp_all add: s1_def paged_machine_def sample_priv_def initialize_priv_def Let_def interrupt_ready_def field_defs bf_get_def)
  have p: "trace paged_machine = []" by (simp add: paged_machine_def sample_machine_def)
  have e: "handler shadow_env SIGSEGV shadow_info paged_machine = Ok () (finish 0x2000000000 ?s2)"
    using h c(1) [of "[]"] q by (simp add: handler_apply p interrupted_def)
  have "mapped_at (\<lambda>_. False) shadow_env (walk_trace shadow_env s1 @ [page_call 0x1234 0x2000140f]) 0x1ABC"
    using c(3) unfolding page_call_def mapped_mmap by (simp add: is_err_def)
  then have "mapped_at (\<lambda>_. False) shadow_env (trace (finish 0x2000000000 ?s2)) 0x1ABC"
    using q(2) by (simp add: finish_def mapped_at_def CONF_SIZE_def)
  then show ?thesis using e by blast
qed

theorem shadow_coherent_witness:
  "\<exists>s. reachable shadow_env paged_machine s \<and> mapped_at (\<lambda>_. False) shadow_env (trace s) 0x1ABC
     \<and> shadowed shadow_env (satp (priv s)) (trace s) 0x1ABC"
proof -
  obtain s where s: "handler shadow_env SIGSEGV shadow_info paged_machine = Ok () s" 
      "mapped_at (\<lambda>_. False) shadow_env (trace s) 0x1ABC"
    using shadow_step by blast
  let ?s = "s\<lparr>trace := trace s @ [Ecall SYS_rt_sigreturn []]\<rparr>"
  have r: "reachable shadow_env paged_machine ?s"
    by (rule signal [where sig = SIGSEGV and info = shadow_info, OF start]) (simp add: handler_wrapper_apply s(1))
  have m: "mapped_at (\<lambda>_. False) shadow_env (trace ?s) 0x1ABC" using s(2) by (simp add: mapped_at_def)
  have p: "\<not> should_clear_vm (priv paged_machine)" "stub_start (priv paged_machine) = 0x3000000000"
      "stub_size (priv paged_machine) = 0x9000" "trace paged_machine = []"
    by (simp_all add: paged_machine_def sample_machine_def sample_priv_def initialize_priv_def Let_def)
  show ?thesis
    using shadow_coherent [OF r paged_inv(1) p(1) _ shadow_env_maps m] r m by (auto simp: p mapped_at_def)
qed

end
