(* ===== verification/Printf_Exp.thy ===== *)
theory Printf_Exp
  imports Printf_Float
begin

text \<open>
  Error analysis of the exponential notation of \<^verbatim>\<open>src/src/urvirt-stub/printf.c\<close> (\<open>_etoa\<close>, lines 467 to
  571).  Every operation on numbers of moderate size is off by at most \<open>2\<^sup>-\<^sup>4\<^sup>2\<close>; from that follow the
  range of the estimated decimal exponent, of the power of ten computed for it, and of the scaled value,
  and so that the recursion between \<open>_etoa\<close> and \<open>_ftoa\<close> ends.
\<close>

section \<open>Rounding of any sign\<close>

lemma round_mag_range:
  assumes "0 \<le> r"
  shows "0 \<le> round_mag r" "round_mag r \<le> 2047 * 2 ^ 52"
proof -
  have "0 \<le> round_mag r \<and> round_mag r \<le> 2047 * 2 ^ 52"
  proof (cases "r = 0")
    case False
    then have "0 < r" using assms by simp
    from half_even_range(1) [OF this] have "0 \<le> half_even (r / 2 powi (max (- 1022) (log2_floor r) - 52))"
      by (simp add: quantum_def)
    then show ?thesis using False by (simp add: round_mag_def Let_def)
  qed (simp add: round_mag_def)
  then show "0 \<le> round_mag r" "round_mag r \<le> 2047 * 2 ^ 52" by blast+
qed

lemma f_round_neg:
  assumes "0 < r"
  shows "f_val (f_round z (- r)) = - f_val (f_round z r)" "f_nan (f_round z (- r)) = f_nan (f_round z r)"
    "f_inf (f_round z (- r)) = f_inf (f_round z r)"
proof -
  have a: "\<bar>- r\<bar> = \<bar>r\<bar>" by simp
  note m = round_mag_range [of "\<bar>r\<bar>", OF abs_ge_zero]
  note p = f_round_fields [OF m, of z] and n = f_round_fields [of "- r" z, unfolded a, OF m]
  have s: "\<not> f_sign (f_round z r)" "f_sign (f_round z (- r))" using p(3) n(3) assms by simp_all
  show "f_val (f_round z (- r)) = - f_val (f_round z r)" "f_nan (f_round z (- r)) = f_nan (f_round z r)"
    "f_inf (f_round z (- r)) = f_inf (f_round z r)"
    using s by (simp_all add: f_val_def f_nan_def f_inf_def Let_def p(1,2) n(1,2))
qed

lemma not_nan_round: "\<not> f_nan (f_round z r)"
proof
  assume "f_nan (f_round z r)"
  then have "round_mag \<bar>r\<bar> div 2 ^ 52 = 2047" "round_mag \<bar>r\<bar> mod 2 ^ 52 \<noteq> 0"
    unfolding f_nan_def f_round_fields [OF round_mag_range [OF abs_ge_zero]] by simp_all
  moreover have "round_mag \<bar>r\<bar> = 2 ^ 52 * (round_mag \<bar>r\<bar> div 2 ^ 52) + round_mag \<bar>r\<bar> mod 2 ^ 52"
    by (rule mult_div_mod_eq [symmetric])
  moreover have "0 \<le> round_mag \<bar>r\<bar> mod 2 ^ 52" by (rule pos_mod_sign) simp
  ultimately have "2047 * 2 ^ 52 < round_mag \<bar>r\<bar>" by (metis add_less_cancel_left add_0_right mult.commute order_le_neq_trans)
  then show False using round_mag_range(2) [OF abs_ge_zero [of r]] by simp
qed

text \<open>The largest values, which may round to an infinity; its fields read as \<open>2\<^sup>1\<^sup>0\<^sup>2\<^sup>4\<close>.\<close>

lemma f_val_round_big:
  assumes "0 < r" "log2_floor r \<le> 1023"
  shows "f_val (f_round z r) = of_int (half_even (r / quantum r)) * quantum r"
proof -
  define e where "e = max (- 1022) (log2_floor r)"
  define m where "m = half_even (r / quantum r)"
  have m: "0 \<le> m" "m \<le> 2 ^ 53" "e = - 1022 \<or> 2 ^ 52 \<le> m"
    using half_even_range [OF assms(1)] unfolding e_def m_def by auto
  have e: "- 1022 \<le> e" "e \<le> 1023" using assms(2) by (auto simp: e_def)
  let ?c = "(e + 1022) * 2 ^ 52 + m"
  have c: "0 \<le> ?c" "?c \<le> 2047 * 2 ^ 52" using m(1,2) e by auto
  have "round_mag r = min ?c (2047 * 2 ^ 52)"
    using assms(1) unfolding round_mag_def Let_def e_def [symmetric] m_def quantum_def by simp
  then have rm: "round_mag \<bar>r\<bar> = ?c" using assms(1) c by simp
  note f = f_round_fields [of r z, unfolded rm, OF c]
  have "f_val (f_round z r) = mag_val (?c div 2 ^ 52) (?c mod 2 ^ 52)"
    unfolding f_val_def f(1,2) Let_def using f(3) assms(1) by simp
  also have "\<dots> = of_int m * 2 powi (e + 1022 - 1074)" using m e by (intro mag_decode) auto
  finally show ?thesis unfolding m_def quantum_def e_def by simp
qed

lemma f_round_error_big:
  assumes "0 < r" "log2_floor r \<le> 1023"
  shows "\<bar>f_val (f_round z r) - r\<bar> \<le> quantum r / 2"
proof -
  have q: "0 < quantum r" by (simp add: quantum_def)
  have "f_val (f_round z r) - r = (of_int (half_even (r / quantum r)) - r / quantum r) * quantum r"
    unfolding f_val_round_big [OF assms] using q by (simp add: field_simps)
  then have "\<bar>f_val (f_round z r) - r\<bar> = \<bar>of_int (half_even (r / quantum r)) - r / quantum r\<bar> * quantum r"
    using q by (simp add: abs_mult)
  also have "\<dots> \<le> 1 / 2 * quantum r" using half_even_error q by (intro mult_right_mono) auto
  finally show ?thesis by simp
qed

text \<open>A number that is not tiny is rounded by a small part of itself.\<close>

lemma f_round_lower:
  assumes "2 powi - 1030 \<le> r" "r < 2 powi 1024"
  shows "r / 2 \<le> f_val (f_round z r)"
proof -
  have p: "(0 :: rat) < 2 powi - 1030" by simp
  then have r: "0 < r" using assms(1) by linarith
  have "(2 :: rat) powi log2_floor r < 2 powi 1024" using log2_floor_bounds(1) [OF r] assms(2) by linarith
  then have l: "log2_floor r \<le> 1023" using powi_less_cancel by fastforce
  have "quantum r \<le> r"
  proof (cases "log2_floor r \<le> - 1022")
    case True
    then have "quantum r = 2 powi - 1074" by (simp add: quantum_def)
    also have "\<dots> \<le> (2 :: rat) powi - 1030" by (rule power_int_increasing) auto
    finally show ?thesis using assms(1) by linarith
  next
    case False
    then have "quantum r = 2 powi (log2_floor r - 52)" by (simp add: quantum_def)
    also have "\<dots> \<le> (2 :: rat) powi log2_floor r" by (rule power_int_increasing) auto
    finally show ?thesis using log2_floor_bounds(1) [OF r] by linarith
  qed
  then show ?thesis using f_round_error_big [OF r l, of z] by linarith
qed

section \<open>Numbers of moderate size\<close>

definition fin :: "u64 \<Rightarrow> bool" where "fin a \<longleftrightarrow> \<not> f_nan a \<and> \<not> f_inf a"

definition ulp :: rat where "ulp = 1 / 2 ^ 42"

lemma round_close:
  assumes "\<bar>r\<bar> \<le> 2 ^ 11"
  shows "fin (f_round z r)" "\<bar>f_val (f_round z r) - r\<bar> \<le> ulp"
proof -
  have pos: "fin (f_round z r) \<and> \<bar>f_val (f_round z r) - r\<bar> \<le> ulp" if "0 < r" "r \<le> 2 ^ 11" for r
  proof -
    have "(2 :: rat) powi log2_floor r \<le> 2 powi 11" using log2_floor_bounds(1) [OF that(1)] that(2) by simp
    then have "(2 :: rat) powi log2_floor r < 2 powi 12" by simp
    then have l: "log2_floor r < 12" by (rule powi_less_cancel)
    then have l': "log2_floor r < 1023" by simp
    have "quantum r \<le> 2 powi - 41" unfolding quantum_def using l by (intro power_int_increasing) auto
    then have "quantum r / 2 \<le> ulp" by (simp add: ulp_def power_int_def power_one_over field_simps)
    then show ?thesis using f_round_error [OF that(1) l', of z] f_val_round [OF that(1) l', of z] by (simp add: fin_def)
  qed
  have "fin (f_round z r) \<and> \<bar>f_val (f_round z r) - r\<bar> \<le> ulp"
  proof (cases "r = 0")
    case True
    then show ?thesis using f_val_round_int [of 0 z] by (simp add: fin_def ulp_def)
  next
    case False
    show ?thesis
    proof (cases "0 < r")
      case True
      then show ?thesis using pos [of r] assms by simp
    next
      case neg: False
      then show ?thesis using pos [of "- r"] f_round_neg [of "- r" z] False assms by (auto simp: fin_def abs_le_iff)
    qed
  qed
  then show "fin (f_round z r)" "\<bar>f_val (f_round z r) - r\<bar> \<le> ulp" by blast+
qed

text \<open>The operations on numbers of moderate size are off by at most one \<open>ulp\<close>.\<close>

lemma near_add:
  assumes "fin a" "fin b" "\<bar>f_val a + f_val b\<bar> \<le> 2048"
  shows "fin (f_add a b)" "\<bar>f_val (f_add a b) - (f_val a + f_val b)\<bar> \<le> ulp"
  using assms round_close by (simp_all add: f_add_def fin_def)

lemma near_sub:
  assumes "fin a" "fin b" "\<bar>f_val a - f_val b\<bar> \<le> 2048"
  shows "fin (f_sub a b)" "\<bar>f_val (f_sub a b) - (f_val a - f_val b)\<bar> \<le> ulp"
  using assms round_close by (simp_all add: f_sub_def fin_def)

lemma near_mul:
  assumes "fin a" "fin b" "\<bar>f_val a * f_val b\<bar> \<le> 2048"
  shows "fin (f_mul a b)" "\<bar>f_val (f_mul a b) - f_val a * f_val b\<bar> \<le> ulp"
  using assms round_close by (simp_all add: f_mul_def fin_def Let_def)

lemma near_div:
  assumes "fin a" "fin b" "f_val b \<noteq> 0" "\<bar>f_val a / f_val b\<bar> \<le> 2048"
  shows "fin (f_div a b)" "\<bar>f_val (f_div a b) - f_val a / f_val b\<bar> \<le> ulp"
  using assms round_close by (simp_all add: f_div_def fin_def Let_def)

lemma near_lit:
  assumes "\<bar>r\<bar> \<le> 2048"
  shows "fin (f_lit r)" "\<bar>f_val (f_lit r) - r\<bar> \<le> ulp"
  using assms round_close by (simp_all add: f_lit_def)

lemma int_fin: "\<bar>n\<bar> < 2 ^ 53 \<Longrightarrow> fin (f_of_int n)" "\<bar>n\<bar> < 2 ^ 53 \<Longrightarrow> f_val (f_of_int n) = of_int n"
  using f_of_int_val [of n] by (simp_all add: fin_def)


section \<open>The decimal exponent\<close>

lemma mantissa_value:
  fixes v :: u64
  defines "c \<equiv> (v AND (push_bit 52 1 - 1)) OR push_bit 52 1023"
  shows "fin c" "1 \<le> f_val c" "f_val c < 2"
proof -
  have m: "push_bit 52 1 - 1 = (mask 52 :: u64)" by (simp add: mask_eq_decr_exp)
  have b: "bit c n \<longleftrightarrow> n < 52 \<and> bit v n \<or> 52 \<le> n \<and> n < 62" if "n < 64" for n
  proof -
    have k: "push_bit 52 (1023 :: u64) = push_bit 52 (mask 10)" by (simp add: mask_eq_decr_exp)
    show ?thesis using that unfolding c_def m k by (auto simp: bit_simps)
  qed
  have "take_bit 11 (drop_bit 52 c) = 1023"
  proof -
    have "(1023 :: u64) = mask 10" by (simp add: mask_eq_decr_exp)
    moreover have "take_bit 11 (drop_bit 52 c) = mask 10"
      by (rule bit_word_eqI) (auto simp: bit_simps b)
    ultimately show ?thesis by simp
  qed
  then have e: "f_expo_field c = 1023" by (simp add: f_fields_bits)
  moreover have "\<not> f_sign c" using b [of 63] by (simp add: f_fields_bits)
  moreover have "0 \<le> f_man_field c" "f_man_field c < 2 ^ 52" by (simp_all add: f_man_field_def)
  moreover have "(2 :: rat) powi - 52 = 1 / 2 ^ 52" by (simp add: power_int_def power_one_over)
  ultimately show "fin c" "1 \<le> f_val c" "f_val c < 2"
    by (simp_all add: fin_def f_nan_def f_inf_def f_val_def mag_val_def Let_def)
qed

lemma expo_bits: "uint (drop_bit 52 v AND 0x07FF) = f_expo_field v"
proof -
  have "(0x07FF :: u64) = mask 11" by (simp add: mask_eq_decr_exp)
  then show ?thesis by (simp add: f_fields_bits take_bit_eq_mask)
qed

lemma finite_below:
  assumes "fin v"
  shows "0 \<le> f_expo_field v" "f_expo_field v \<le> 2046" "\<bar>f_val v\<bar> < 2 powi (f_expo_field v - 1022)"
proof -
  define e f where "e = f_expo_field v" and "f = f_man_field v"
  have f: "0 \<le> f" "f < 2 ^ 52" by (simp_all add: f_def f_man_field_def)
  have "0 \<le> e" "e < 2 ^ 11" by (simp_all add: e_def f_expo_field_def)
  moreover have "e \<noteq> 2047" using assms by (auto simp: fin_def f_nan_def f_inf_def e_def)
  ultimately show e: "0 \<le> f_expo_field v" "f_expo_field v \<le> 2046" by (auto simp: e_def)
  have "\<bar>f_val v\<bar> = mag_val e f" using f by (auto simp: f_val_def e_def f_def mag_val_def Let_def)
  also have "\<dots> < 2 powi (e - 1022)"
  proof (cases "e = 0")
    case True
    have "(2 :: rat) powi - 1022 = of_int (2 ^ 52) * 2 powi - 1074"
      using power_int_add [of "2 :: rat" 52 "- 1074"] by simp
    then show ?thesis unfolding mag_val_def using True f
      by (simp only: simp_thms if_True mult_less_cancel_right_pos of_int_less_iff zero_less_power_int zero_less_numeral diff_0)
  next
    case False
    have p: "(2 :: rat) powi (e - 1022) = of_int (2 ^ 53) * 2 powi (e - 1075)"
      using power_int_add [of "2 :: rat" 53 "e - 1075"] by simp
    show ?thesis unfolding mag_val_def p using False f
      by (simp only: if_False mult_less_cancel_right_pos of_int_less_iff zero_less_power_int zero_less_numeral) simp
  qed
  finally show "\<bar>f_val v\<bar> < 2 powi (f_expo_field v - 1022)" by (simp add: e_def)
qed


lemma trunc_bounds:
  "\<bar>f_val a - of_int (f_trunc a)\<bar> < 1" "0 \<le> f_val a \<Longrightarrow> 0 \<le> f_trunc a" "f_val a \<le> 0 \<Longrightarrow> f_trunc a \<le> 0"
  "0 \<le> f_val a \<Longrightarrow> of_int (f_trunc a) \<le> f_val a" "f_val a \<le> 0 \<Longrightarrow> f_val a \<le> of_int (f_trunc a)"
proof -
  have s: "f_sign a \<Longrightarrow> 0 \<le> - f_val a" "\<not> f_sign a \<Longrightarrow> 0 \<le> f_val a" using f_sign_val [of a] by auto
  have "of_int \<lfloor>- f_val a\<rfloor> \<le> - f_val a" by simp
  then have fl: "f_val a \<le> - of_int \<lfloor>- f_val a\<rfloor>" by linarith
  show "\<bar>f_val a - of_int (f_trunc a)\<bar> < 1"
  proof (cases "f_sign a")
    case True
    then show ?thesis using floor_correct [of "- f_val a"] unfolding f_trunc_def by (simp add: abs_less_iff del: of_int_floor_le)
  next
    case False
    then show ?thesis using floor_correct [of "f_val a"] unfolding f_trunc_def by (simp add: abs_less_iff del: of_int_floor_le)
  qed
  show "0 \<le> f_val a \<Longrightarrow> 0 \<le> f_trunc a" "f_val a \<le> 0 \<Longrightarrow> f_trunc a \<le> 0"
    using s by (auto simp: f_trunc_def)
  show "0 \<le> f_val a \<Longrightarrow> of_int (f_trunc a) \<le> f_val a" "f_val a \<le> 0 \<Longrightarrow> f_val a \<le> of_int (f_trunc a)"
    using s fl by (auto simp: f_trunc_def)
qed

lemma to_i32_near:
  assumes "fin a" "\<bar>f_val a\<bar> \<le> 2048"
  shows "f_to_i32 a = Some (f_trunc a)"
proof -
  have "\<bar>of_int (f_trunc a) :: rat\<bar> < of_int (2 ^ 12)" using trunc_bounds(1) [of a] assms(2) by (simp add: abs_less_iff abs_le_iff)
  then have "\<bar>f_trunc a\<bar> < 2 ^ 12" by (simp only: of_int_abs [symmetric] of_int_less_iff)
  then have "- (2 ^ 12) < f_trunc a" "f_trunc a < 2 ^ 12" by linarith+
  then show ?thesis using assms(1) by (simp add: f_to_i32_def f_to_int_def fin_def)
qed

lemma ulp_small: "0 < ulp" "ulp \<le> 1 / 1000000000000" by (simp_all add: ulp_def)

lemma prod_error:
  fixes e x y :: rat
  assumes "\<bar>e\<bar> \<le> n" "\<bar>x - y\<bar> \<le> d"
  shows "\<bar>e * x - e * y\<bar> \<le> n * d"
proof -
  have "\<bar>e * (x - y)\<bar> \<le> n * d" unfolding abs_mult using assms by (intro mult_mono) auto
  then show ?thesis by (simp add: algebra_simps)
qed

definition LOG2 :: rat where "LOG2 = 301029995663981 / 1000000000000000"

lemma estimate_value:
  assumes "fin F" "1 \<le> f_val F" "f_val F < 2" "- 1023 \<le> n" "n \<le> 1023"
  defines "e \<equiv> of_int n :: rat"
    and "x \<equiv> f_add (f_add (f_lit (1760912590558 / 10 ^ 13)) (f_mul (f_of_int n) (f_lit (301029995663981 / 10 ^ 15))))
           (f_mul (f_sub F (f_lit (3 / 2))) (f_lit (289529654602168 / 10 ^ 15)))"
  shows "fin x" "e * LOG2 + 3 / 100 \<le> f_val x" "f_val x \<le> e * LOG2 + 33 / 100"
proof -
  let ?A = "f_lit (1760912590558 / 10 ^ 13)" and ?B = "f_lit (301029995663981 / 10 ^ 15)"
    and ?C = "f_lit (289529654602168 / 10 ^ 15)" and ?H = "f_lit (3 / 2)"
  have e: "\<bar>e\<bar> \<le> 1023" "\<bar>n\<bar> < 2 ^ 53" using assms(4,5) unfolding e_def by (simp_all add: abs_le_iff)
  note F = assms(1-3)
  have L: "LOG2 \<le> 31 / 100" "30 / 100 \<le> LOG2" by (simp_all add: LOG2_def)
  note u = ulp_small
  have A: "fin ?A" "\<bar>f_val ?A - 1760912590558 / 10000000000000\<bar> \<le> ulp" and B: "fin ?B" "\<bar>f_val ?B - LOG2\<bar> \<le> ulp"
    and C: "fin ?C" "\<bar>f_val ?C - 289529654602168 / 1000000000000000\<bar> \<le> ulp" and H: "fin ?H" "\<bar>f_val ?H - 3 / 2\<bar> \<le> ulp"
    using near_lit [of "1760912590558 / 10 ^ 13"] near_lit [of LOG2] near_lit [of "289529654602168 / 10 ^ 15"]
      near_lit [of "3 / 2"] by (simp_all add: LOG2_def)
  have eB: "\<bar>e * f_val ?B - e * LOG2\<bar> \<le> 1023 * ulp" by (rule prod_error [OF e(1) B(2)])
  have eL: "\<bar>e * LOG2\<bar> \<le> 1023 * LOG2" unfolding abs_mult using e(1) L by (intro mult_mono) auto
  have i: "fin (f_of_int n)" "f_val (f_of_int n) = e" using int_fin [OF e(2)] by (simp_all add: e_def)
  have "\<bar>e * f_val ?B\<bar> \<le> 2048" using eB eL L u by linarith
  note m = near_mul [OF i(1) B(1), unfolded i(2), OF this]
  have "\<bar>f_val ?A + f_val (f_mul (f_of_int n) ?B)\<bar> \<le> 2048" using A(2) m(2) eB eL L u by linarith
  note s = near_add [OF A(1) m(1) this]
  have "\<bar>f_val F - f_val ?H\<bar> \<le> 2048" using F H u by linarith
  note d = near_sub [OF F(1) H(1) this]
  have "\<bar>f_val (f_sub F ?H)\<bar> \<le> 1 / 2 + 2 * ulp" using d(2) F(2,3) H(2) by linarith
  moreover have "\<bar>f_val ?C\<bar> \<le> 289529654602168 / 1000000000000000 + ulp" using C(2) by linarith
  ultimately have "\<bar>f_val (f_sub F ?H)\<bar> * \<bar>f_val ?C\<bar> \<le> (1 / 2 + 2 / 1000000000000) * (289529654602168 / 1000000000000000 + 1 / 1000000000000)"
    using u by (intro mult_mono) auto
  also have "\<dots> \<le> 1448 / 10000" by simp
  finally have dc: "\<bar>f_val (f_sub F ?H) * f_val ?C\<bar> \<le> 1448 / 10000" unfolding abs_mult .
  then have "\<bar>f_val (f_sub F ?H) * f_val ?C\<bar> \<le> 2048" by linarith
  note p = near_mul [OF d(1) C(1) this]
  have "\<bar>f_val (f_add ?A (f_mul (f_of_int n) ?B)) + f_val (f_mul (f_sub F ?H) ?C)\<bar> \<le> 2048"
    using s(2) p(2) dc A(2) m(2) eB eL L u by linarith
  note x = near_add [OF s(1) p(1) this]
  show "fin x" using x(1) unfolding x_def .
  show "e * LOG2 + 3 / 100 \<le> f_val x" "f_val x \<le> e * LOG2 + 33 / 100"
    using x(2) s(2) p(2) dc A(2) m(2) eB u unfolding abs_le_iff x_def by linarith+
qed

lemma exp_estimate_near:
  assumes "fin v"
  defines "e \<equiv> of_int (f_expo_field v - 1023) :: rat"
  shows "\<exists>k. exp_estimate v = Some k \<and> e * LOG2 - 97 / 100 \<le> of_int k \<and> of_int k \<le> e * LOG2 + 133 / 100
    \<and> - 307 \<le> k \<and> k \<le> 308"
proof -
  let ?E = "f_expo_field v - 1023"
  define F where "F = (v AND (push_bit 52 1 - 1)) OR push_bit 52 1023"
  let ?x = "f_add (f_add (f_lit (1760912590558 / 10 ^ 13)) (f_mul (f_of_int ?E) (f_lit (301029995663981 / 10 ^ 15))))
           (f_mul (f_sub F (f_lit (3 / 2))) (f_lit (289529654602168 / 10 ^ 15)))"
  have E: "- 1023 \<le> ?E" "?E \<le> 1023" using finite_below(1,2) [OF assms(1)] by simp_all
  note x = estimate_value [OF mantissa_value [of v, folded F_def] E, folded e_def]
  note xb = x(2,3)
  have "- 1023 \<le> e" "e \<le> 1023" using E unfolding e_def by simp_all
  then have r: "- 30796 / 100 \<le> e * LOG2" "e * LOG2 \<le> 30796 / 100" unfolding LOG2_def by linarith+
  then have "f_to_i32 ?x = Some (f_trunc ?x)" using xb by (intro to_i32_near [OF x(1)]) linarith
  then have "exp_estimate v = Some (f_trunc ?x)"
    unfolding exp_estimate_def Let_def expo_bits F_def [symmetric] .
  moreover have "\<bar>f_val ?x - of_int (f_trunc ?x)\<bar> < 1" by (rule trunc_bounds(1))
  then have k: "e * LOG2 - 97 / 100 \<le> of_int (f_trunc ?x)" "of_int (f_trunc ?x) \<le> e * LOG2 + 133 / 100"
    using xb by linarith+
  moreover have "- 307 \<le> f_trunc ?x \<and> f_trunc ?x \<le> 308"
  proof -
    have "of_int (f_trunc ?x) < (309 :: rat)"
      using trunc_bounds(3,4) [of ?x] xb(2) r by (cases "0 \<le> f_val ?x") auto
    moreover have "(- 308 :: rat) < of_int (f_trunc ?x)"
      using trunc_bounds(2,5) [of ?x] xb(1) r by (cases "0 \<le> f_val ?x") auto
    ultimately show ?thesis by auto
  qed
  ultimately show ?thesis by blast
qed


section \<open>The power of ten\<close>

lemma pow2_value:
  assumes "1 \<le> n" "n \<le> 2046"
  shows "fin (push_bit 52 (of_int n))" "f_val (push_bit 52 (of_int n)) = 2 powi (n - 1023)"
proof -
  have "0 \<le> n * 2 ^ 52" "n * 2 ^ 52 < 2 ^ 63" using assms by simp_all
  moreover have "push_bit 52 (of_int n :: u64) = of_int (n * 2 ^ 52)" by (simp add: push_bit_eq_mult)
  ultimately have u: "uint (push_bit 52 (of_int n :: u64)) = n * 2 ^ 52"
    by (simp only: unsigned_of_int take_bit_int_eq_self_iff uint_word_of_int) (simp add: take_bit_int_eq_self)
  have "f_expo_field (push_bit 52 (of_int n)) = n" "f_man_field (push_bit 52 (of_int n)) = 0" "\<not> f_sign (push_bit 52 (of_int n))"
    using assms \<open>n * 2 ^ 52 < 2 ^ 63\<close> unfolding f_expo_field_def f_man_field_def f_sign_def u by simp_all
  moreover have "(2 :: rat) powi (n - 1023) = 2 ^ 52 * 2 powi (n - 1075)"
    using power_int_add [of "2 :: rat" 52 "n - 1075"] by simp
  ultimately show "fin (push_bit 52 (of_int n))" "f_val (push_bit 52 (of_int n)) = 2 powi (n - 1023)"
    using assms by (simp_all add: fin_def f_nan_def f_inf_def f_val_def mag_val_def Let_def)
qed

text \<open>The binary exponent and the remainder \<open>z\<close>.\<close>

lemma binary_exponent:
  assumes "- 307 \<le> k" "k \<le> 308"
  defines "y \<equiv> f_add (f_mul (f_of_int k) (f_lit (3321928094887362 / 10 ^ 15))) (f_lit (1 / 2))"
  shows "f_to_i32 y = Some (f_trunc y)" "- 1020 \<le> f_trunc y" "f_trunc y \<le> 1023"
    "of_int k * (3321928094887362 / 1000000000000000) - 6 / 10 \<le> (of_int (f_trunc y) :: rat)"
    "(of_int (f_trunc y) :: rat) \<le> of_int k * (3321928094887362 / 1000000000000000) + 16 / 10"
proof -
  let ?L = "f_lit (3321928094887362 / 10 ^ 15)" and ?k = "of_int k :: rat"
  have k: "\<bar>?k\<bar> \<le> 308" "\<bar>k\<bar> < 2 ^ 53" "- 307 \<le> ?k" "?k \<le> 308" using assms(1,2) by (simp_all add: abs_le_iff)
  note u = ulp_small
  have L: "fin ?L" "\<bar>f_val ?L - 3321928094887362 / 1000000000000000\<bar> \<le> ulp"
    and H: "fin (f_lit (1 / 2))" "f_val (f_lit (1 / 2)) = 1 / 2"
    using near_lit [of "3321928094887362 / 10 ^ 15"] near_lit [of "1 / 2"] limits(5) by simp_all
  note i = int_fin [OF k(2)]
  have kL: "\<bar>?k * f_val ?L - ?k * (3321928094887362 / 1000000000000000)\<bar> \<le> 308 * ulp" by (rule prod_error [OF k(1) L(2)])
  then have "\<bar>?k * f_val ?L\<bar> \<le> 2048" using k u by linarith
  note m = near_mul [OF i(1) L(1), unfolded i(2), OF this]
  have "\<bar>f_val (f_mul (f_of_int k) ?L) + f_val (f_lit (1 / 2))\<bar> \<le> 2048" using m(2) kL k u H(2) by linarith
  note s = near_add [OF m(1) H(1) this, folded y_def]
  have y: "?k * (3321928094887362 / 1000000000000000) + 49 / 100 \<le> f_val y"
     "f_val y \<le> ?k * (3321928094887362 / 1000000000000000) + 51 / 100"
    using s(2) m(2) kL u H(2) unfolding abs_le_iff by linarith+
  then have b: "\<bar>f_val y\<bar> \<le> 2048" using k by linarith
  show "f_to_i32 y = Some (f_trunc y)" by (rule to_i32_near [OF s(1) b])
  show "of_int k * (3321928094887362 / 1000000000000000) - 6 / 10 \<le> (of_int (f_trunc y) :: rat)"
    "(of_int (f_trunc y) :: rat) \<le> of_int k * (3321928094887362 / 1000000000000000) + 16 / 10"
    using trunc_bounds(1) [of y] y by linarith+
  have "of_int (f_trunc y) < (1024 :: rat)"
    using trunc_bounds(3,4) [of y] y(2) k(4) by (cases "0 \<le> f_val y") auto
  moreover have "(- 1021 :: rat) < of_int (f_trunc y)"
    using trunc_bounds(2,5) [of y] y(1) k(3) by (cases "0 \<le> f_val y") auto
  ultimately show "- 1020 \<le> f_trunc y" "f_trunc y \<le> 1023" by auto
qed

lemma remainder_small:
  assumes "- 307 \<le> k" "k \<le> 308" "- 1020 \<le> e" "e \<le> 1023"
    and "of_int k * (3321928094887362 / 1000000000000000) - 6 / 10 \<le> (of_int e :: rat)"
    and "(of_int e :: rat) \<le> of_int k * (3321928094887362 / 1000000000000000) + 16 / 10"
  defines "z \<equiv> f_sub (f_mul (f_of_int k) (f_lit (2302585092994046 / 10 ^ 15))) (f_mul (f_of_int e) (f_lit (6931471805599453 / 10 ^ 16)))"
  shows "fin z" "- 12 / 10 \<le> f_val z" "f_val z \<le> 1 / 2"
proof -
  let ?K = "f_lit (2302585092994046 / 10 ^ 15)" and ?T = "f_lit (6931471805599453 / 10 ^ 16)"
  let ?k = "of_int k :: rat" and ?e = "of_int e :: rat"
  have k: "\<bar>?k\<bar> \<le> 308" "\<bar>k\<bar> < 2 ^ 53" and e: "\<bar>?e\<bar> \<le> 1023" "\<bar>e\<bar> < 2 ^ 53"
    using assms(1-4) by (simp_all add: abs_le_iff)
  note u = ulp_small
  have K: "fin ?K" "\<bar>f_val ?K - 2302585092994046 / 1000000000000000\<bar> \<le> ulp"
    and T: "fin ?T" "\<bar>f_val ?T - 6931471805599453 / 10000000000000000\<bar> \<le> ulp"
    using near_lit [of "2302585092994046 / 10 ^ 15"] near_lit [of "6931471805599453 / 10 ^ 16"] by simp_all
  note i = int_fin [OF k(2)] and j = int_fin [OF e(2)]
  have kK: "\<bar>?k * f_val ?K - ?k * (2302585092994046 / 1000000000000000)\<bar> \<le> 308 * ulp" by (rule prod_error [OF k(1) K(2)])
  then have "\<bar>?k * f_val ?K\<bar> \<le> 2048" using k(1) u by linarith
  note a = near_mul [OF i(1) K(1), unfolded i(2), OF this]
  have eT: "\<bar>?e * f_val ?T - ?e * (6931471805599453 / 10000000000000000)\<bar> \<le> 1023 * ulp" by (rule prod_error [OF e(1) T(2)])
  then have "\<bar>?e * f_val ?T\<bar> \<le> 2048" using e(1) u by linarith
  note b = near_mul [OF j(1) T(1), unfolded j(2), OF this]
  have "\<bar>f_val (f_mul (f_of_int k) ?K) - f_val (f_mul (f_of_int e) ?T)\<bar> \<le> 2048"
    using a(2) b(2) kK eT k(1) e(1) u by linarith
  note s = near_sub [OF a(1) b(1) this, folded z_def]
  have "- 119 / 100 \<le> ?k * (2302585092994046 / 1000000000000000) - ?e * (6931471805599453 / 10000000000000000)"
    "?k * (2302585092994046 / 1000000000000000) - ?e * (6931471805599453 / 10000000000000000) \<le> 49 / 100"
    using assms(5,6) k(1) by linarith+
  then show "- 12 / 10 \<le> f_val z" "f_val z \<le> 1 / 2"
    using s(2) a(2) b(2) kK eT u by linarith+
  show "fin z" by (rule s(1))
qed


lemma div_bounds:
  fixes a b :: rat
  assumes "1 \<le> b"
  shows "\<bar>a\<bar> \<le> n \<Longrightarrow> \<bar>a / b\<bar> \<le> n" "0 \<le> d \<Longrightarrow> - d \<le> a \<Longrightarrow> - d \<le> a / b"
proof -
  have b: "0 < b" "0 < 1 / b" "1 / b \<le> 1" using assms by (simp_all add: field_simps)
  assume a: "\<bar>a\<bar> \<le> n"
  have "\<bar>a\<bar> * \<bar>1 / b\<bar> \<le> n * 1" using a b by (intro mult_mono) auto
  then show "\<bar>a / b\<bar> \<le> n" using b by (simp add: abs_mult)
next
  assume d: "0 \<le> d" "- d \<le> a"
  have "0 < b" using assms by simp
  moreover have "- d * b \<le> - d" using mult_left_mono [OF assms d(1)] by simp
  ultimately show "- d \<le> a / b" using d(2) by (simp add: le_divide_eq)
qed

lemma small_ints:
  "n \<in> {1, 2, 6, 10, 14} \<Longrightarrow> fin (f_of_int n)" "f_val (f_of_int 1) = 1" "f_val (f_of_int 2) = 2"
  "f_val (f_of_int 6) = 6" "f_val (f_of_int 10) = 10" "f_val (f_of_int 14) = 14"
  using int_fin(2) [of 1] int_fin(2) [of 2] int_fin(2) [of 6] int_fin(2) [of 10] int_fin(2) [of 14]
  by (auto intro: int_fin(1))

lemma square_range:
  assumes "fin z" "- 12 / 10 \<le> f_val z" "f_val z \<le> 1 / 2"
  shows "fin (f_mul z z)" "- ulp \<le> f_val (f_mul z z)" "\<bar>f_val (f_mul z z)\<bar> \<le> 145 / 100"
proof -
  have "\<bar>f_val z\<bar> * \<bar>f_val z\<bar> \<le> 12 / 10 * (12 / 10)" using assms(2,3) by (intro mult_mono) auto
  then have q: "\<bar>f_val z * f_val z\<bar> \<le> 144 / 100" by (simp add: abs_mult)
  moreover have "0 \<le> f_val z * f_val z" by simp
  moreover have "\<bar>f_val z * f_val z\<bar> \<le> 2048" using q by linarith
  note z2 = near_mul [OF assms(1,1) this]
  ultimately show "fin (f_mul z z)" "- ulp \<le> f_val (f_mul z z)" "\<bar>f_val (f_mul z z)\<bar> \<le> 145 / 100"
    using z2 ulp_small by linarith+
qed

text \<open>One level \<open>n + z2 / b\<close> of the continued fraction.\<close>

lemma level_range:
  assumes "fin z2" "- ulp \<le> f_val z2" "\<bar>f_val z2\<bar> \<le> 145 / 100" "fin b" "1 \<le> f_val b"
  shows "fin (f_div z2 b)" "- 2 * ulp \<le> f_val (f_div z2 b)" "\<bar>f_val (f_div z2 b)\<bar> \<le> 146 / 100"
    "fin a \<Longrightarrow> \<bar>f_val a\<bar> \<le> 1024 \<Longrightarrow> fin (f_add a (f_div z2 b))"
    "fin a \<Longrightarrow> \<bar>f_val a\<bar> \<le> 1024 \<Longrightarrow> f_val a - 3 * ulp \<le> f_val (f_add a (f_div z2 b))"
proof -
  have q: "\<bar>f_val z2 / f_val b\<bar> \<le> 145 / 100" "- ulp \<le> f_val z2 / f_val b"
    using div_bounds(1) [OF assms(5,3)] div_bounds(2) [OF assms(5) less_imp_le [OF ulp_small(1)] assms(2)] by simp_all
  have "f_val b \<noteq> 0" "\<bar>f_val z2 / f_val b\<bar> \<le> 2048" using assms(5) q by linarith+
  note d = near_div [OF assms(1,4) this]
  show f: "fin (f_div z2 b)" "- 2 * ulp \<le> f_val (f_div z2 b)" "\<bar>f_val (f_div z2 b)\<bar> \<le> 146 / 100"
    using d q ulp_small by linarith+
  assume a: "fin a" "\<bar>f_val a\<bar> \<le> 1024"
  then have "\<bar>f_val a + f_val (f_div z2 b)\<bar> \<le> 2048" using f(3) by linarith
  note s = near_add [OF a(1) f(1) this]
  show "fin (f_add a (f_div z2 b))" "f_val a - 3 * ulp \<le> f_val (f_add a (f_div z2 b))" using s f(2) by linarith+
qed

lemma factor_range:
  assumes "fin z" "- 12 / 10 \<le> f_val z" "f_val z \<le> 1 / 2"
  defines "z2 \<equiv> f_mul z z"
  defines "w \<equiv> f_add (f_of_int 1) (f_div (f_mul (f_of_int 2) z)
            (f_add (f_sub (f_of_int 2) z)
              (f_div z2 (f_add (f_of_int 6) (f_div z2 (f_add (f_of_int 10) (f_div z2 (f_of_int 14))))))))"
  shows "fin w" "1 / 8 \<le> f_val w" "f_val w \<le> 19 / 10"
proof -
  note u = ulp_small and i = small_ints
  note sq = square_range [OF assms(1-3), folded z2_def]
  define b1 where "b1 = f_add (f_of_int 10) (f_div z2 (f_of_int 14))"
  define b2 where "b2 = f_add (f_of_int 6) (f_div z2 b1)"
  define t where "t = f_sub (f_of_int 2) z"
  define D where "D = f_add t (f_div z2 b2)"
  have "fin b1" "1 \<le> f_val b1"
    using level_range(4,5) [OF sq, of "f_of_int 14" "f_of_int 10"] i u unfolding b1_def by auto
  note l1 = level_range [OF sq this]
  have "fin b2" "1 \<le> f_val b2" using l1(4,5) [of "f_of_int 6"] i u unfolding b2_def by auto
  note l2 = level_range [OF sq this]
  have "\<bar>f_val (f_of_int 2) - f_val z\<bar> \<le> 2048" using assms(2,3) i by linarith
  note t = near_sub [OF i(1) [of 2, simplified] assms(1) this, folded t_def]
  have "\<bar>f_val t\<bar> \<le> 1024" using t(2) assms(2,3) i(3) u by linarith
  note D = l2(4,5) [OF t(1) this, folded D_def]
  have Db: "2 - f_val z - 5 * ulp \<le> f_val D" using D(2) t(2) i(3) u by linarith
  define m where "m = f_mul (f_of_int 2) z"
  have "\<bar>f_val (f_of_int 2) * f_val z\<bar> \<le> 2048" using assms(2,3) i(2,3) by simp
  note m = near_mul [OF i(1) [of 2, simplified] assms(1) this, folded m_def]
  have m2: "\<bar>f_val m - 2 * f_val z\<bar> \<le> ulp" using m(2) i(2,3) by simp
  have D0: "14 / 10 \<le> f_val D" using Db assms(3) u by linarith
  have q: "- (85 / 100) \<le> f_val m / f_val D" "f_val m / f_val D \<le> 8 / 10"
  proof -
    have "- (85 / 100) * f_val D \<le> f_val m" using Db m2 assms(2) u by linarith
    then show "- (85 / 100) \<le> f_val m / f_val D" using D0 by (subst le_divide_eq) simp
    have "f_val m \<le> 8 / 10 * f_val D" using D0 m2 assms(3) u by linarith
    then show "f_val m / f_val D \<le> 8 / 10" using D0 by (subst divide_le_eq) simp
  qed
  have "f_val D \<noteq> 0" "\<bar>f_val m / f_val D\<bar> \<le> 2048" using D0 q by linarith+
  note a4 = near_div [OF m(1) D(1) this]
  have "\<bar>f_val (f_of_int 1) + f_val (f_div m D)\<bar> \<le> 2048" using a4(2) q i(2) u by linarith
  note w = near_add [OF i(1) [of 1, simplified] a4(1) this]
  have "w = f_add (f_of_int 1) (f_div m D)"
    by (simp add: w_def m_def D_def t_def b2_def b1_def)
  then show "fin w" "1 / 8 \<le> f_val w" "f_val w \<le> 19 / 10" using w a4(2) q i(2) u by simp_all
qed


lemma pow_estimate_near:
  assumes "- 307 \<le> k" "k \<le> 308"
  shows "\<exists>c e. pow_estimate k = Some c \<and> \<not> f_nan c \<and> 2 powi (e - 4) \<le> f_val c \<and> - 1020 \<le> e
    \<and> of_int k * (3321928094887362 / 1000000000000000) - 6 / 10 \<le> (of_int e :: rat)"
proof -
  define y where "y = f_add (f_mul (f_of_int k) (f_lit (3321928094887362 / 10 ^ 15))) (f_lit (1 / 2))"
  define e where "e = f_trunc y"
  note y = binary_exponent [OF assms, folded y_def, folded e_def]
  define z where "z = f_sub (f_mul (f_of_int k) (f_lit (2302585092994046 / 10 ^ 15))) (f_mul (f_of_int e) (f_lit (6931471805599453 / 10 ^ 16)))"
  define z2 where "z2 = f_mul z z"
  define w where "w = f_add (f_of_int 1) (f_div (f_mul (f_of_int 2) z)
            (f_add (f_sub (f_of_int 2) z)
              (f_div z2 (f_add (f_of_int 6) (f_div z2 (f_add (f_of_int 10) (f_div z2 (f_of_int 14))))))))"
  note w = factor_range [OF remainder_small [OF assms y(2-5), folded z_def], folded z2_def, folded w_def]
  have "1 \<le> e + 1023" "e + 1023 \<le> 2046" using y(2,3) by simp_all
  note p = pow2_value [OF this]
  let ?p = "push_bit 52 (of_int (e + 1023)) :: u64" and ?r = "2 powi e * f_val w"
  have pe: "f_val ?p = 2 powi e" using p(2) by simp
  have c: "pow_estimate k = Some (f_mul ?p w)"
    unfolding pow_estimate_def y_def [symmetric] y(1) option.map Let_def z_def [symmetric] z2_def [symmetric] w_def [symmetric] ..
  have m: "f_mul ?p w = f_round (f_sign ?p \<noteq> f_sign w) ?r"
    using p(1) w pe by (simp add: f_mul_def fin_def Let_def)
  have e3: "(2 :: rat) powi (e - 3) = 2 powi e * (1 / 8)" "(2 :: rat) powi (e - 4) = 2 powi (e - 3) / 2"
    by (simp_all add: power_int_diff)
  have lo: "2 powi (e - 3) \<le> ?r" unfolding e3 using w(2) by (intro mult_left_mono) auto
  moreover have "(2 :: rat) powi - 1030 \<le> 2 powi (e - 3)" using y(2) by (intro power_int_increasing) auto
  ultimately have lo': "2 powi - 1030 \<le> ?r" by linarith
  have "?r < 2 powi e * 2" using w(3) by (intro mult_strict_left_mono) auto
  also have "\<dots> = 2 powi (e + 1)" by (simp add: power_int_add)
  also have "\<dots> \<le> 2 powi 1024" using y(3) by (intro power_int_increasing) auto
  finally have "?r / 2 \<le> f_val (f_mul ?p w)" unfolding m using lo' by (intro f_round_lower) auto
  then have "2 powi (e - 4) \<le> f_val (f_mul ?p w)" using lo e3(2) by linarith
  then show ?thesis using c y(2,4) not_nan_round m by metis
qed

section \<open>The scaled value\<close>

lemma quotient_small:
  assumes "fin v" "0 \<le> f_val v" "\<not> f_nan c" "0 < f_val c" "f_val v \<le> 1024 * f_val c"
  shows "small (f_div v c)"
proof (cases "f_inf c")
  case True
  then obtain s where "f_div v c = f_round s (of_int 0)" using assms by (auto simp: f_div_def fin_def Let_def)
  then show ?thesis using f_val_round_int [of 0 s] by (simp add: small_def)
next
  case False
  have q: "0 \<le> f_val v / f_val c" "f_val v / f_val c \<le> 1024" using assms(2,4,5) by (simp_all add: divide_le_eq)
  then have "\<bar>f_val v / f_val c\<bar> \<le> 2048" by linarith
  from near_div [OF assms(1) _ _ this] have "fin (f_div v c)" "\<bar>f_val (f_div v c) - f_val v / f_val c\<bar> \<le> ulp"
    using assms(3,4) False by (auto simp: fin_def)
  moreover have "\<bar>f_val (f_div v c)\<bar> \<le> 1000000000" using calculation(2) q ulp_small by linarith
  ultimately show ?thesis by (simp add: small_def fin_def)
qed

lemma tenth:
  assumes "\<not> f_nan c" "2 powi - 1024 \<le> f_val c" "fin v" "f_val v < f_val c"
  defines "d \<equiv> f_div c (f_of_int 10)"
  shows "\<not> f_nan d" "0 < f_val d" "f_val v \<le> 1024 * f_val d"
proof -
  have ten: "fin (f_of_int 10)" "f_val (f_of_int 10) = 10" "\<not> f_sign (f_of_int 10)" using int_fin [of 10] f_of_int_val [of 10] by simp_all
  have p: "(0 :: rat) < 2 powi - 1024" by simp
  then have c: "0 < f_val c" "\<not> f_sign c" using assms(2) f_sign_val(1) [of c] by linarith+
  have vb: "f_val v < 2 powi 1024"
  proof -
    have "\<bar>f_val v\<bar> < 2 powi (f_expo_field v - 1022)" "f_expo_field v - 1022 \<le> 1024" using finite_below [OF assms(3)] by simp_all
    then show ?thesis using power_int_increasing [of "f_expo_field v - 1022" 1024 "2 :: rat"] by simp
  qed
  have "\<not> f_nan d \<and> 0 < f_val d \<and> f_val v \<le> 1024 * f_val d"
  proof (cases "f_inf c")
    case True
    then have "d = 0x7FF0000000000000" using assms(1) ten c by (simp add: d_def f_div_def fin_def Let_def infinity_def)
    moreover have "\<not> f_nan 0x7FF0000000000000" "f_val 0x7FF0000000000000 = 2 ^ 52 * 2 powi 972"
      by (simp_all add: f_nan_def f_val_def f_sign_def f_expo_field_def f_man_field_def mag_val_def del: power_int_numeral)
    moreover have "(2 :: rat) powi 1024 = 2 ^ 52 * 2 powi 972"
    proof -
      have "(2 :: rat) powi (52 + 972) = 2 powi 52 * 2 powi 972" by (rule power_int_add) simp
      also have "\<dots> = 2 ^ 52 * 2 powi 972" by (subst power_int_numeral) (rule refl)
      finally show ?thesis by (simp del: power_int_numeral)
    qed
    ultimately have "\<not> f_nan d" "f_val d = 2 powi 1024" by simp_all
    moreover have "0 < q \<Longrightarrow> r < q \<Longrightarrow> r \<le> 1024 * q" for r q :: rat by simp
    moreover have "(0 :: rat) < 2 powi 1024" by (rule zero_less_power_int) simp
    ultimately show ?thesis using vb by metis
  next
    case False
    then obtain s where d: "d = f_round s (f_val c / 10)" using assms(1) ten c by (auto simp: d_def f_div_def fin_def Let_def)
    have "(2 :: rat) powi - 1030 \<le> 2 powi - 1024 / 10"
      using power_int_add [of "2 :: rat" 6 "- 1030"] by simp
    then have lo: "2 powi - 1030 \<le> f_val c / 10" using assms(2) by linarith
    have "\<bar>f_val c\<bar> < 2 powi (f_expo_field c - 1022)" "f_expo_field c - 1022 \<le> 1024"
      using finite_below [of c] assms(1) False by (simp_all add: fin_def)
    then have "f_val c < 2 powi 1024" using power_int_increasing [of "f_expo_field c - 1022" 1024 "2 :: rat"] by simp
    then have "f_val c / 10 < 2 powi 1024" using c by linarith
    then have "f_val c / 10 / 2 \<le> f_val d" unfolding d by (rule f_round_lower [OF lo])
    then show ?thesis using c assms(4) not_nan_round d by auto
  qed
  then show "\<not> f_nan d" "0 < f_val d" "f_val v \<le> 1024 * f_val d" by blast+
qed

lemma exponent_scale:
  assumes "fin v" "0 \<le> f_val v" "exp_estimate v = Some k"
  shows "k \<le> 1 \<Longrightarrow> small v" "9 / 100000 \<le> f_val v \<Longrightarrow> - 5 \<le> k"
proof -
  define E where "E = f_expo_field v - 1023"
  let ?e = "of_int E :: rat"
  have vb: "f_val v < 2 powi (E + 1)" using finite_below(3) [OF assms(1)] assms(2) by (simp add: E_def)
  have k: "?e * LOG2 - 97 / 100 \<le> of_int k" using exp_estimate_near [OF assms(1)] assms(3) unfolding E_def [symmetric] by auto
  show "small v" if "k \<le> 1"
  proof -
    have "(of_int k :: rat) \<le> 1" using that by simp
    then have "?e < 7" using k unfolding LOG2_def by linarith
    then have "E + 1 \<le> 8" by simp
    then have "(2 :: rat) powi (E + 1) \<le> 2 powi 8" by (intro power_int_increasing) auto
    then show ?thesis using vb assms(1,2) by (simp add: small_def fin_def)
  qed
  show "- 5 \<le> k" if "9 / 100000 \<le> f_val v"
  proof -
    have "(2 :: rat) powi - 14 \<le> 9 / 100000" by (simp add: power_int_def power_one_over)
    then have "(2 :: rat) powi - 14 < 2 powi (E + 1)" using that vb by linarith
    then have "- 14 < E + 1" by (rule powi_less_cancel)
    then have "(- 14 :: rat) \<le> ?e" by simp
    then have "(- 6 :: rat) < of_int k" using k unfolding LOG2_def by linarith
    then show ?thesis by simp
  qed
qed

lemma exponent_of_near:
  assumes "fin v" "0 \<le> f_val v"
  shows "\<exists>x c. exponent_of v = Some (x, c) \<and> small (f_div v c) \<and> (x = 0 \<longrightarrow> small v)
    \<and> (9 / 100000 \<le> f_val v \<longrightarrow> - 6 \<le> x)"
proof -
  define E where "E = f_expo_field v - 1023"
  let ?e = "of_int E :: rat"
  have vb: "f_val v < 2 powi (E + 1)" using finite_below(3) [OF assms(1)] assms(2) by (simp add: E_def)
  obtain k where k: "exp_estimate v = Some k" "?e * LOG2 - 97 / 100 \<le> of_int k" "of_int k \<le> ?e * LOG2 + 133 / 100"
    "- 307 \<le> k" "k \<le> 308"
    using exp_estimate_near [OF assms(1)] unfolding E_def [symmetric] by blast
  obtain c e where c: "pow_estimate k = Some c" "\<not> f_nan c" "2 powi (e - 4) \<le> f_val c" "- 1020 \<le> e"
    "of_int k * (3321928094887362 / 1000000000000000) - 6 / 10 \<le> (of_int e :: rat)"
    using pow_estimate_near [OF k(4,5)] by blast
  have "- 1023 \<le> E" "E \<le> 1023" using finite_below(1,2) [OF assms(1)] by (simp_all add: E_def)
  then have "- 1023 \<le> ?e" "?e \<le> 1023" by simp_all
  then have "?e - 4 \<le> of_int e" using k(2) c(5) unfolding LOG2_def by linarith
  then have "of_int (E - 4) \<le> (of_int e :: rat)" by simp
  then have e: "E - 4 \<le> e" by (simp only: of_int_le_iff)
  have c0: "0 < f_val c" using c(3) zero_less_power_int [of "2 :: rat" "e - 4"] by linarith
  have near: "f_val v \<le> 1024 * f_val c"
  proof -
    have "(2 :: rat) powi (E + 1) \<le> 2 powi (10 + (e - 4))" using e by (intro power_int_increasing) auto
    also have "\<dots> = 2 powi 10 * 2 powi (e - 4)" by (rule power_int_add) simp
    also have "\<dots> = 1024 * 2 powi (e - 4)" by simp
    finally show ?thesis using vb c(3) by linarith
  qed
  note one = exponent_scale(1) [OF assms k(1)] and low = exponent_scale(2) [OF assms k(1)]
  show ?thesis
  proof (cases "f_lt v c")
    case True
    have "(2 :: rat) powi - 1024 \<le> 2 powi (e - 4)" using c(4) by (intro power_int_increasing) auto
    then have "2 powi - 1024 \<le> f_val c" using c(3) by linarith
    from tenth [OF c(2) this assms(1)] have "small (f_div v (f_div c (f_of_int 10)))"
      using True by (intro quotient_small [OF assms]) (simp_all add: f_lt_def)
    then show ?thesis using True k(1) c(1) one low by (auto simp: exponent_of_def)
  next
    case False
    then show ?thesis using k(1) c(1) one low quotient_small [OF assms c(2) c0 near] by (auto simp: exponent_of_def)
  qed
qed


section \<open>The conversions return\<close>

lemma has_not_adapt: "has (flags AND NOT FLAGS_ADAPT_EXP) FLAGS_PRECISION = has flags FLAGS_PRECISION"
proof -
  have "(flags AND NOT FLAGS_ADAPT_EXP) AND FLAGS_PRECISION = flags AND (FLAGS_PRECISION AND NOT FLAGS_ADAPT_EXP)"
    by (rule bit_word_eqI) (auto simp: bit_simps)
  then show ?thesis by (simp add: riscv_const)
qed

lemma mode_small:
  assumes "fin v" "0 \<le> f_val v" "prec \<le> 36" "exponent_of v = Some (x, c)" "etoa_mode v x prec flags = (p, f, y, w)"
  shows "p \<le> 41" "small (if y \<noteq> 0 then f_div v c else v)"
proof -
  have e: "small (f_div v c)" "x = 0 \<longrightarrow> small v" "9 / 100000 \<le> f_val v \<longrightarrow> - 6 \<le> x"
    using exponent_of_near [OF assms(1,2)] assms(4) by auto
  have pr: "unat prec \<le> 36" using assms(3) by (simp add: word_le_nat_alt)
  have "sint (of_nat n :: u32) = int n" if "n \<le> 36" for n
    using that by (subst signed_of_nat) (simp add: signed_take_bit_int_eq_self)
  from this [OF pr] have "sint prec = int (unat prec)" by simp
  then have ps: "sint prec \<le> 36" using pr by linarith
  consider (fixed) "has flags FLAGS_ADAPT_EXP" "f_le (f_lit (1 / 10000)) v" "f_lt v (f_lit 1000000)"
    | (exp) "p = (if 0 < prec \<and> has flags FLAGS_PRECISION then prec - 1 else prec) \<or> p = prec" "y = x"
    using assms(5) by (auto simp: etoa_mode_def Let_def split: if_splits)
  then have "p \<le> 41 \<and> small (if y \<noteq> 0 then f_div v c else v)"
  proof cases
    case fixed
    then have r: "p = (if x < sint prec then of_int (sint prec - x - 1) else 0)" "y = 0"
      using assms(5) by (auto simp: etoa_mode_def Let_def split: if_splits)
    have "f_val (f_lit 1000000) = 1000000" using int_fin(2) [of 1000000] by (simp add: f_lit_def f_of_int_def)
    then have sm: "small v" using fixed(3) assms(1,2) by (simp add: small_def fin_def f_lt_def)
    have "9 / 100000 \<le> f_val v"
      using fixed(2) near_lit(2) [of "1 / 10000"] ulp_small by (simp add: f_le_def abs_le_iff)
    then have "x < sint prec \<Longrightarrow> 0 \<le> sint prec - x - 1 \<and> sint prec - x - 1 \<le> 41" using e(3) ps by auto
    moreover have "0 \<le> d \<and> d \<le> 41 \<Longrightarrow> (of_int d :: u32) \<le> 41" for d
      by (auto simp: word_le_nat_alt unsigned_of_int take_bit_int_eq_self nat_le_iff)
    ultimately have "p \<le> 41" unfolding r(1) by (simp del: of_int_diff)
    then show ?thesis using sm r(2) by simp
  next
    case exp
    moreover have "prec - 1 \<le> 41" if "0 < prec" using that pr by (simp add: word_le_nat_alt unat_minus_one word_gt_0)
    moreover have "prec \<le> 41" using pr by (simp add: word_le_nat_alt)
    ultimately show ?thesis using e by auto
  qed
  then show "p \<le> 41" "small (if y \<noteq> 0 then f_div v c else v)" by blast+
qed

lemma small_neg: "small (f_neg v) = small v"
  by (simp add: small_def f_neg_val)

lemma fixed_text_some:
  assumes "small v" "p \<le> 41"
  shows "\<exists>cs. ftoa_text (Suc n) v p width flags = Some cs"
proof -
  have "fixed_text v p width flags \<noteq> None" using fixed_text_defined [OF assms(1)] assms(2) by auto
  then show ?thesis using ftoa_text_small [OF assms(1)] by auto
qed

lemma infinite_value: "f_inf v \<Longrightarrow> f_lt DBL_MAX v \<or> f_lt v (f_neg DBL_MAX)"
proof -
  assume i: "f_inf v"
  define x :: rat where "x = 2 powi 971"
  have "mag_val 2047 0 = 2 ^ 53 * x"
  proof -
    have "(2 :: rat) powi (1 + 971) = 2 powi 1 * 2 powi 971" by (rule power_int_add) simp
    then show ?thesis by (simp add: mag_val_def x_def del: power_int_numeral)
  qed
  moreover have "f_val DBL_MAX = of_int (2 ^ 53 - 1) * x"
    by (simp add: f_val_def DBL_MAX_def f_sign_def f_expo_field_def f_man_field_def mag_val_def x_def del: power_int_numeral)
  moreover have "0 < x" by (simp add: x_def)
  moreover have "\<not> f_nan DBL_MAX" by (simp add: f_nan_def DBL_MAX_def f_expo_field_def)
  moreover have "\<not> f_nan v" "f_val v = mag_val 2047 0 \<or> f_val v = - mag_val 2047 0"
    using i by (auto simp: f_inf_def f_nan_def f_val_def Let_def)
  ultimately show ?thesis by (auto simp: f_lt_def f_neg_val)
qed

lemma special_text:
  assumes "\<not> f_eq v v \<or> f_lt DBL_MAX v \<or> f_lt v (f_neg DBL_MAX)"
  shows "\<exists>cs. ftoa_text (Suc n) v prec width flags = Some cs"
  using assms by auto

lemma etoa_text_some:
  assumes "has flags FLAGS_PRECISION \<longrightarrow> prec \<le> 36"
  shows "\<exists>cs. etoa_text (Suc (Suc n)) v prec width flags = Some cs"
proof (cases "\<not> f_eq v v \<or> f_lt DBL_MAX v \<or> f_lt v (f_neg DBL_MAX)")
  case True
  then show ?thesis using special_text [of v n prec width flags] by (simp del: ftoa_text.simps)
next
  case False
  then have v: "fin v" using infinite_value by (auto simp: fin_def f_eq_def)
  define a where "a = (if f_lt v 0 then f_neg v else v)"
  have "f_lt v 0 \<longleftrightarrow> f_val v < 0" using v f_val_0 by (simp add: f_lt_def fin_def)
  then have a: "fin a" "0 \<le> f_val a" using v by (simp_all add: a_def fin_def f_neg_val)
  let ?p = "if has flags FLAGS_PRECISION then prec else PRINTF_DEFAULT_FLOAT_PRECISION"
  have p: "?p \<le> 36" using assms by (simp add: PRINTF_DEFAULT_FLOAT_PRECISION_def)
  obtain x c where xc: "exponent_of a = Some (x, c)" using exponent_of_near [OF a] by blast
  obtain q f y w where m: "etoa_mode a x ?p flags = (q, f, y, w)" by (metis prod_cases4)
  note s = mode_small [OF a p xc m]
  let ?u = "if y \<noteq> 0 then f_div a c else a"
  have "small (if f_lt v 0 then f_neg ?u else ?u)" using s(2) by (simp only: small_neg if_cancel split: if_split) blast
  then show ?thesis
    unfolding etoa_text.simps if_not_P [OF False] Let_def a_def [symmetric] xc option.case prod.case m
    using fixed_text_some [OF _ s(1)] by (metis option.map(2))
qed

lemma ftoa_text_some:
  assumes "has flags FLAGS_PRECISION \<longrightarrow> prec \<le> 36"
  shows "\<exists>cs. ftoa_text (Suc (Suc (Suc n))) v prec width flags = Some cs"
proof (cases "\<not> f_eq v v \<or> f_lt DBL_MAX v \<or> f_lt v (f_neg DBL_MAX)")
  case True
  then show ?thesis by (rule special_text)
next
  case False
  show ?thesis
  proof (cases "f_lt PRINTF_MAX_FLOAT v \<or> f_lt v (f_neg PRINTF_MAX_FLOAT)")
    case True
    then have "ftoa_text (Suc (Suc (Suc n))) v prec width flags = etoa_text (Suc (Suc n)) v prec width flags"
      using False by (simp del: etoa_text.simps)
    then show ?thesis using etoa_text_some [OF assms] by simp
  next
    case no: False
    have "fin v" using False infinite_value by (auto simp: fin_def f_eq_def)
    moreover have "\<not> f_nan PRINTF_MAX_FLOAT" by (simp add: PRINTF_MAX_FLOAT_def f_lit_def not_nan_round)
    moreover have "\<bar>f_val v\<bar> \<le> 10 ^ 9"
      using no calculation limits unfolding f_lt_def fin_def by (auto simp: f_neg_val abs_le_iff)
    ultimately have "small v" by (simp add: small_def fin_def)
    moreover have "fixed_text v prec width flags \<noteq> None"
      using fixed_text_defined [OF calculation] assms by (auto simp: word_le_nat_alt word_less_nat_alt)
    ultimately show ?thesis using ftoa_text_small by auto
  qed
qed

lemma float_text_some:
  assumes "has flags FLAGS_PRECISION \<longrightarrow> p \<le> 36"
  shows "\<exists>cs. ftoa_text FP_DEPTH v p w flags = Some cs" "\<exists>cs. etoa_text FP_DEPTH v p w flags = Some cs"
proof -
  have "FP_DEPTH = Suc (Suc (Suc 1))" by (simp add: FP_DEPTH_def)
  then show "\<exists>cs. ftoa_text FP_DEPTH v p w flags = Some cs" "\<exists>cs. etoa_text FP_DEPTH v p w flags = Some cs"
    using ftoa_text_some [OF assms, of 1 v w] etoa_text_some [OF assms, of 2 v w]
    by (auto simp: numeral_2_eq_2 simp del: ftoa_text.simps etoa_text.simps)
qed

section \<open>Properties\<close>

text \<open>
  C27: the mutual recursion of \<open>_ftoa\<close> and \<open>_etoa\<close> ends for every \<open>double\<close>, special values, zeros and
  subnormal numbers included, with every width, all flags and every precision up to 36: both return
  within the depth of the model, without undefined behaviour, since the estimate of the power of ten is never
  so far off that the scaled value would need exponential notation again.
\<close>

theorem float_conversions_return:
  assumes "has flags FLAGS_PRECISION \<longrightarrow> prec \<le> 36"
  shows "(\<exists>r. ftoa FP_DEPTH out maxlen v prec width flags st = Some r)
    \<and> (\<exists>r. etoa FP_DEPTH out maxlen v prec width flags st = Some r)"
  unfolding float_emits using float_text_some [OF assms, of v width] by auto

theorem float_conversions_return_witness:
  "(\<exists>r. ftoa FP_DEPTH out_buffer 100 DBL_MAX 17 20 FLAGS_PRECISION (Some (replicate 100 0), 0) = Some r)
   \<and> (\<exists>r. etoa FP_DEPTH out_buffer 100 1 17 20 FLAGS_PRECISION (Some (replicate 100 0), 0) = Some r)"
  using float_conversions_return [of FLAGS_PRECISION 17 out_buffer 100 DBL_MAX 20 "(Some (replicate 100 0), 0)"]
    float_conversions_return [of FLAGS_PRECISION 17 out_buffer 100 1 20 "(Some (replicate 100 0), 0)"] by simp

end
