(* ===== verification/Printf_Type.thy ===== *)
theory Printf_Type
  imports Printf Printf_Exp
begin

text \<open>
  A type system for the calls of the formatter of \<^verbatim>\<open>src/src/urvirt-stub/printf.c\<close>: from the format
  alone it computes the arguments that the conversions read from the variable arguments, and calls whose
  arguments have these types are defined.
\<close>

section \<open>The type of a format\<close>

text \<open>
  What a conversion may read: any slot of 64 bits, the value of a \<^verbatim>\<open>.*\<close> in front of a floating point
  conversion, or the address of a readable string.
\<close>

datatype arg_type = Slot | Digits | Text

fun has_type :: "fmt_env \<Rightarrow> u64 \<Rightarrow> arg_type \<Rightarrow> bool" where
  "has_type F a Slot = True"
| "has_type F a Digits = (ucast a \<le>s (36 :: u32))"
| "has_type F a Text = (str_at F a \<noteq> None)"

definition float_conv :: "u8 \<Rightarrow> bool" where
  "float_conv c = (c \<in> {ch CHR ''f'', ch CHR ''F'', ch CHR ''e'', ch CHR ''E'', ch CHR ''g'', ch CHR ''G''})"

definition conv_type :: "u8 \<Rightarrow> arg_type list" where
  "conv_type c =
     (if c = ch CHR ''s'' then [Text]
      else if float_conv c \<or> c \<in> {ch CHR ''d'', ch CHR ''i'', ch CHR ''u'', ch CHR ''x'', ch CHR ''X'', ch CHR ''o'',
          ch CHR ''b'', ch CHR ''c'', ch CHR ''p''} then [Slot]
      else [])"

text \<open>
  The arguments that one specification reads, and the format behind it: the width, the precision and
  the value; \<open>None\<close> if the format ends first or a floating point precision exceeds 36.
\<close>

definition width_type :: "u8 list \<Rightarrow> arg_type list \<times> u8 list" where
  "width_type fmt =
     (if is_digit (peek fmt) then ([], snd (atoi fmt))
      else if peek fmt = ch CHR ''*'' then ([Slot], tl fmt) else ([], fmt))"

definition precision_type :: "u8 list \<Rightarrow> bool \<times> u32 \<times> u8 list" where
  "precision_type fmt =
     (if peek fmt \<noteq> ch CHR ''.'' then (False, 0, fmt)
      else if is_digit (peek (tl fmt)) then (False, fst (atoi (tl fmt)), snd (atoi (tl fmt)))
      else if peek (tl fmt) = ch CHR ''*'' then (True, 0, tl (tl fmt)) else (False, 0, tl fmt))"

definition spec_type :: "u8 list \<Rightarrow> (arg_type list \<times> u8 list) option" where
  "spec_type fmt =
     (let (ws, fmt) = width_type (snd (parse_flags 0 fmt));
          (star, prec, fmt) = precision_type fmt;
          fmt = snd (parse_length 0 fmt);
          c = peek fmt
      in if c = 0 \<or> float_conv c \<and> 36 < prec then None
         else Some (ws @ (if star then [if float_conv c then Digits else Slot] else []) @ conv_type c, tl fmt))"

section \<open>Well-typed formats do not get stuck\<close>

lemma width_type_length: "length (snd (width_type fmt)) \<le> length fmt"
  using atoi_from_length [of 0 fmt] by (simp add: width_type_def atoi_def)

lemma precision_type_length: "length (snd (snd (precision_type fmt))) \<le> length fmt"
  using atoi_from_length [of 0 "tl fmt"] by (auto simp: precision_type_def atoi_def)

lemma spec_type_length: "spec_type fmt = Some (ts, fmt') \<Longrightarrow> length fmt' \<le> length fmt"
  using parse_flags_length [of 0 fmt] width_type_length [of "snd (parse_flags 0 fmt)"]
    precision_type_length [of "snd (width_type (snd (parse_flags 0 fmt)))"]
    parse_length_length [of 0 "snd (snd (precision_type (snd (width_type (snd (parse_flags 0 fmt))))))"]
  by (auto simp: spec_type_def Let_def split: prod.splits if_splits)

text \<open>The arguments that a whole format reads.\<close>

function format_type :: "u8 list \<Rightarrow> arg_type list option" where
  "format_type fmt =
     (if peek fmt = 0 then Some []
      else if peek fmt \<noteq> ch CHR ''%'' then format_type (tl fmt)
      else case spec_type (tl fmt) of None \<Rightarrow> None
        | Some (ts, fmt') \<Rightarrow> map_option ((@) ts) (format_type fmt'))"
  by pat_completeness auto
termination
proof (relation "measure length", goal_cases)
  case (2 fmt)
  then show ?case by (cases fmt) (simp_all add: peek_def)
next
  case (3 fmt p ts fmt')
  then show ?case
    using spec_type_length [of "tl fmt" ts fmt'] by (cases fmt) (auto simp: peek_def)
qed simp

declare format_type.simps [simp del]

text \<open>Each parser takes what its type says and leaves the rest.\<close>

lemma width_read:
  assumes "list_all2 (has_type F) xs (fst (width_type fmt))"
  shows "\<exists>f w. \<forall>rest. parse_width flags fmt (xs @ rest) = Some (f, w, snd (width_type fmt), rest)"
proof (cases "\<not> is_digit (peek fmt) \<and> peek fmt = ch CHR ''*''")
  case True
  then obtain a where xs: "xs = [a]" using assms by (auto simp: width_type_def list_all2_Cons2)
  show ?thesis
  proof (cases "(ucast a :: u32) <s 0")
    case True
    then show ?thesis
      using \<open>\<not> is_digit _ \<and> _\<close> by (auto simp: xs parse_width_def width_type_def va_arg_def Let_def)
  next
    case False
    then show ?thesis
      using \<open>\<not> is_digit _ \<and> _\<close> by (auto simp: xs parse_width_def width_type_def va_arg_def Let_def)
  qed
next
  case False
  then show ?thesis
    using assms by (cases "atoi fmt") (auto simp: parse_width_def width_type_def Let_def split: if_splits)
qed

lemma digits_small:
  fixes w :: u32
  assumes "0 <s w" and "w \<le>s 36"
  shows "w \<le> 36"
proof -
  have "uint w = sint w" using assms by (simp add: uint_sint take_bit_eq_mod word_sless_alt word_sle_eq)
  then show ?thesis using assms(2) by (simp add: word_sle_eq word_le_def)
qed

lemma precision_read:
  assumes "precision_type fmt = (star, prec, fmt')" and "list_all2 (has_type F) xs (if star then [t] else [])"
    and "t = Digits \<longrightarrow> prec \<le> 36" and "t \<noteq> Text"
  shows "\<exists>f p. (\<forall>rest. parse_precision flags fmt (xs @ rest) = Some (f, p, fmt', rest)) \<and> (t = Digits \<longrightarrow> p \<le> 36)"
proof (cases star)
  case True
  then obtain a where xs: "xs = [a]" "has_type F a t" using assms(2) by (auto simp: list_all2_Cons2)
  have f: "peek fmt = ch CHR ''.''" "\<not> is_digit (peek (tl fmt))" "peek (tl fmt) = ch CHR ''*''" "fmt' = tl (tl fmt)"
    using assms(1) True by (auto simp: precision_type_def split: if_splits)
  let ?p = "if 0 <s (ucast a :: u32) then ucast a else (0 :: u32)"
  have "parse_precision flags fmt (xs @ rest) = Some (flags OR FLAGS_PRECISION, ?p, fmt', rest)" for rest
    using f by (simp add: xs parse_precision_def va_arg_def Let_def)
  moreover have "t = Digits \<longrightarrow> ?p \<le> 36"
    using xs(2) digits_small [of "ucast a"] by auto
  ultimately show ?thesis by blast
next
  case False
  then have xs: "xs = []" using assms(2) by simp
  show ?thesis
    using assms(1,3) False
    by (cases "atoi (tl fmt)") (auto simp: xs precision_type_def parse_precision_def Let_def split: if_splits)
qed

lemma length_read: "\<exists>f. parse_length flags fmt = (f, snd (parse_length 0 fmt))"
  by (simp add: parse_length_def)

lemma spec_read:
  assumes "spec_type fmt = Some (ts, fmt')" and "list_all2 (has_type F) args ts"
  shows "\<exists>flags w p c vs. (\<forall>rest. parse_spec fmt (args @ rest) = Some (flags, w, p, c # fmt', vs @ rest))
    \<and> c \<noteq> 0 \<and> list_all2 (has_type F) vs (conv_type c) \<and> (float_conv c \<longrightarrow> p \<le> 36)"
proof -
  obtain f0 fmt0 where 0: "parse_flags 0 fmt = (f0, fmt0)" by fastforce
  obtain ws fmt1 where 1: "width_type fmt0 = (ws, fmt1)" by fastforce
  obtain star prec fmt2 where 2: "precision_type fmt1 = (star, prec, fmt2)" by (metis prod_cases3)
  let ?r = "snd (parse_length 0 fmt2)"
  define t where "t = (if float_conv (peek ?r) then Digits else Slot)"
  have r: "peek ?r \<noteq> 0" "t = Digits \<longrightarrow> prec \<le> 36" "fmt' = tl ?r" "t \<noteq> Text" "t = Digits \<longleftrightarrow> float_conv (peek ?r)"
    and ts: "ts = ws @ (if star then [t] else []) @ conv_type (peek ?r)"
    using assms(1) by (auto simp: spec_type_def 0 1 2 t_def Let_def split: if_splits)
  obtain xs ys vs where a: "args = xs @ ys @ vs" "list_all2 (has_type F) xs ws"
      "list_all2 (has_type F) ys (if star then [t] else [])" "list_all2 (has_type F) vs (conv_type (peek ?r))"
    using assms(2) unfolding ts list_all2_append2 by blast
  obtain f1 w where w: "\<And>rest. parse_width f0 fmt0 (xs @ rest) = Some (f1, w, fmt1, rest)"
    using width_read [of F xs fmt0 f0] a(2) by (auto simp: 1)
  obtain f2 p where p: "\<And>rest. parse_precision f1 fmt1 (ys @ rest) = Some (f2, p, fmt2, rest)" "t = Digits \<longrightarrow> p \<le> 36"
    using precision_read [OF 2 a(3) r(2,4), of f1] by blast
  obtain f3 where "parse_length f2 fmt2 = (f3, ?r)" using length_read by blast
  moreover have "?r = peek ?r # fmt'" using r(1,3) by (cases ?r) (simp_all add: peek_def)
  ultimately have "parse_spec fmt (args @ rest) = Some (f3, w, p, peek ?r # fmt', vs @ rest)" for rest
    by (simp add: parse_spec_def 0 w p a(1))
  then show ?thesis using r(1,5) a(4) p(2) by blast
qed

lemma conv_read:
  assumes "list_all2 (has_type F) vs (conv_type c)" and "float_conv c \<longrightarrow> p \<le> 36"
  shows "\<exists>cs. \<forall>rest. conv_text F c flags w p (vs @ rest) = Some (rest, cs)"
proof (cases "float_conv c")
  case True
  then obtain a where "vs = [a]" using assms(1) by (auto simp: conv_type_def list_all2_Cons2 float_conv_def split: if_splits)
  then show ?thesis
    using True float_text_some assms(2)
    by (auto simp: float_conv_def conv_text_def conversion_def va_arg_def Let_def float_emits emits_collect)
next
  case False
  then show ?thesis
    using assms(1)
    by (auto simp: float_conv_def conv_type_def list_all2_Cons2 conv_text_def conversion_def va_arg_def split: if_splits)
qed

lemma format_read:
  assumes "format_type fmt = Some ts" and "list_all2 (has_type F) args ts"
  shows "\<exists>cs. \<forall>rest. format_text F fmt (args @ rest) = Some cs"
  using assms
proof (induction fmt arbitrary: ts args rule: format_type.induct)
  case (1 fmt)
  show ?case
  proof (cases "peek fmt = ch CHR ''%''")
    case False
    show ?thesis
    proof (cases "peek fmt = 0")
      case True
      then show ?thesis using 1(3,4) by (subst format_text_rec) (simp add: format_type.simps [of fmt])
    next
      case 2: False
      then have "format_type (tl fmt) = Some ts" using 1(3) False by (simp add: format_type.simps [of fmt])
      from 1(1) [OF 2 False this 1(4)] obtain cs where "\<And>rest. format_text F (tl fmt) (args @ rest) = Some cs" by blast
      then show ?thesis using 2 False by (subst format_text_rec) simp
    qed
  next
    case True
    obtain ts1 fmt' ts2 where t: "spec_type (tl fmt) = Some (ts1, fmt')" "format_type fmt' = Some ts2" "ts = ts1 @ ts2"
      using 1(3) True by (auto simp: format_type.simps [of fmt] split: option.splits)
    obtain args1 args2 where a: "args = args1 @ args2" "list_all2 (has_type F) args1 ts1" "list_all2 (has_type F) args2 ts2"
      using 1(4) unfolding t(3) list_all2_append2 by blast
    obtain flags w p c vs where s: "\<And>rest. parse_spec (tl fmt) (args1 @ rest) = Some (flags, w, p, c # fmt', vs @ rest)"
      "c \<noteq> 0" "list_all2 (has_type F) vs (conv_type c)" "float_conv c \<longrightarrow> p \<le> 36"
      using spec_read [OF t(1) a(2)] by blast
    obtain cs1 where c1: "\<And>rest. conv_text F c flags w p (vs @ rest) = Some (rest, cs1)"
      using conv_read [OF s(3,4)] by blast
    obtain cs2 where "\<And>rest. format_text F fmt' (args2 @ rest) = Some cs2"
      using 1(2) [OF _ _ t(1) refl t(2) a(3)] True by auto
    then have "format_text F fmt (args @ rest) = Some (cs1 @ cs2)" for rest
      using s(1,2) c1 by (subst format_text_rec) (simp add: True a(1) peek_def [of "c # fmt'"])
    then show ?thesis by blast
  qed
qed

section \<open>Properties\<close>



text \<open>The messages of the stub that have arguments.\<close>

lemma stub_formats:
  "format_type (bytes_of (''[urvirt] Trying to mmap failed, addr=0x%zx, errno=%d'' @ newline)) = Some [Slot, Slot]"
  "format_type (bytes_of (''[urvirt] urvirt block command %zd, block_id=%zd, buf=0x%zx'' @ newline)) = Some [Slot, Slot, Slot]"
  "format_type (bytes_of (''[urvirt] Page fault, sepc=0x%zx, rs2=x%d, va=0x%zx, pa=0x%zx, scause=%d cannot handle'' @ newline)) =
     Some [Slot, Slot, Slot, Slot, Slot]"
  "format_type (bytes_of (''  secall = %zd'' @ newline)) = Some [Slot]"
  by code_simp+

end
