(* ===== verification/Spec2Isabelle.thy ===== *)
theory Spec2Isabelle
  imports Loader Guest Shadow Printf_Type
begin

text \<open>
  Verification of urvirt, a virtual machine monitor for RISC-V that runs a guest kernel inside an
  ordinary Linux process.

  \<^bold>\<open>The program.\<close>  \<^verbatim>\<open>urvirt-loader\<close> opens the images, puts them at fixed descriptors and jumps to
  \<^verbatim>\<open>urvirt-stub\<close>.  The stub unmaps everything else, copies the guest kernel to \<open>0x80200000\<close>, forbids
  system calls outside its own addresses with a seccomp filter and jumps to the guest.  From then on
  the guest runs natively, and everything it may not do itself reaches the stub as a signal:
  \<open>SIGSYS\<close> for an \<open>ecall\<close>, \<open>SIGILL\<close> for a privileged instruction, \<open>SIGSEGV\<close> for a page that is not
  mapped, \<open>SIGALRM\<close> for the timer.  The handler keeps the supervisor state of the guest, emulates
  privileged instructions and SBI calls, walks the guest's page tables to map pages on demand, emulates
  a block device, delivers traps and interrupts, and drops all mappings when the translation changes.

  \<^bold>\<open>The theories\<close>, in the order of their imports, and the sources they model (under
  \<^verbatim>\<open>src/src\<close>):
  \<^item> \<open>Prelude\<close>: machine integers as words, C statements as functions from a state to an outcome (a value
    with a new state, or the reason the process stopped), little-endian reads, and the rules that
    carry a state invariant through sequenced code.
  \<^item> \<open>Syscalls\<close>: \<^verbatim>\<open>internal-syscall.h\<close>, \<^verbatim>\<open>urvirt-syscalls.h\<close>, \<^verbatim>\<open>common/common.h\<close>.  The state is the trace of
    the system calls; the Linux kernel is the parameter \<open>env\<close>, which answers each call as a function of
    the trace, so that theorems hold for every kernel and every interleaving with it.
  \<^item> \<open>Riscv_Bits\<close>: \<^verbatim>\<open>common/riscv-bits.h\<close>; the accessors the \<open>bitfield\<close> macro generates are
    interpretations of the locale \<open>bitfield\<close>.
  \<^item> \<open>Priv\<close>: \<^verbatim>\<open>riscv-priv.h\<close> and the first half of \<^verbatim>\<open>riscv-priv.c\<close>: \<open>struct priv_state\<close> as a record,
    CSR reads and writes, privileged instructions, trap entry, and the invariant \<open>priv_inv\<close>.
  \<^item> \<open>Isa\<close>: an abstract specification, the supervisor part of the RISC-V privileged architecture, and the
    proof that \<open>Priv\<close> refines it under the abstraction \<open>abs_isa\<close>.
  \<^item> \<open>Page_Table\<close>: \<open>lookup_pa\<close> of \<^verbatim>\<open>riscv-priv.c\<close> against the abstract Sv39 walk \<open>sv39\<close>.
  \<^item> \<open>Float64\<close>: the \<open>double\<close> of C, executable, with exact rational results rounded once.
  \<^item> \<open>Printf_Num\<close>, \<open>Printf_Float\<close>, \<open>Printf\<close>: \<^verbatim>\<open>printf.c\<close>; every entry point is shown to print the text
    \<open>format_text\<close>, which depends only on the format and the arguments.
  \<^item> \<open>Printf_Exp\<close>: the error analysis of \<open>_etoa\<close>, which bounds the recursion of \<open>_ftoa\<close> and \<open>_etoa\<close>.
  \<^item> \<open>Printf_Type\<close>: a type system for formats; well-typed calls of \<open>printf\<close> have no undefined behaviour.
  \<^item> \<open>Page_Fault\<close>: \<open>handle_page_fault\<close> of \<^verbatim>\<open>riscv-priv.c\<close> with the block device of
    \<^verbatim>\<open>urvirt-block.h\<close>.
  \<^item> \<open>Sbi\<close>: \<^verbatim>\<open>handle-sbi.c\<close>.
  \<^item> \<open>Stub\<close>: \<open>handler\<close> and \<open>handler_wrapper\<close> of \<^verbatim>\<open>urvirt-stub.c\<close>, and the virtual machine as a transition system
    (\<open>reachable\<close>): native steps and handled signals in any order.
  \<^item> \<open>Address_Space\<close>: the interface \<open>linux_mm\<close> to \<open>mmap\<close> and \<open>munmap\<close>, interpreted on the replay of
    a trace.
  \<^item> \<open>Shadow\<close>: the mappings of the process in reachable states against the guest's page tables.
  \<^item> \<open>Seccomp\<close>: \<^verbatim>\<open>seccomp-bpf.c\<close>; the machine that runs the filter is the interface \<open>cbpf\<close>.
  \<^item> \<open>Boot\<close>: \<open>entrypoint\<close> and \<open>entrypoint_1\<close> of \<^verbatim>\<open>urvirt-stub.c\<close>.
  \<^item> \<open>Loader\<close>: \<^verbatim>\<open>urvirt-loader.c\<close>; the C library is the parameter \<open>libc\<close>, open files the interface
    \<open>linux_files\<close>.
  \<^item> \<open>Board\<close>: the machine a guest is written for, with a console behind the firmware.
  \<^item> \<open>Guest\<close>: \<^verbatim>\<open>test-kernel/test-kernel.c\<close> and \<^verbatim>\<open>test-kernel/sbi.h\<close> on that machine and on the
    stub; what the toolchain decides (places, registers, compressed forms) is a parameter.
  \<^item> this theory: the loader and the stub composed, from the command line to the running guest and to
    the end of the test guest.

  \<^bold>\<open>State and outcomes.\<close>  While a signal is handled the state is the record \<open>machine\<close>: the trace, the
  configuration page (\<open>struct priv_state\<close>, in a memory file that every handler maps anew) and the
  registers of the signal context.  Every \<^verbatim>\<open>asm("ebreak")\<close>, fault, exit and undefined behaviour of
  the sources is a value of \<open>stop\<close>.  Start and loader extend the state by the bytes stored to RAM
  and by the trace of library calls.

  \<^bold>\<open>What is shown.\<close>  Emulated instructions, traps and page faults compute the architecture's step
  (refinement); the invariant of the privileged state holds in every reachable state; no mapping of the
  guest survives a change of translation, the stub is never unmapped, and in every reachable state each
  page mapped for the guest is one that the Sv39 walk under the current \<open>satp\<close> gave; the guest never runs
  without a filter that admits exactly the stub's system calls; the page table walker implements Sv39
  and never reads outside RAM; the timer, console, block device and the formatter behave as specified
  on every branch, with their buffers in bounds; a start that succeeds reaches the guest kernel with
  its image in place; the test guest prints its string on its machine, and the stub implements the
  privileged steps of that machine; calls of \<open>printf\<close> with arguments of the types of their format return.  Where the code falls short, theorems say exactly where: non-canonical addresses,
  \<open>c.sdsp\<close> and floating point accesses, oversized kernels, colliding descriptors, precisions beyond
  41, decimal ties, and guests that do not turn on translation, as the test guest.

  \<^bold>\<open>Bounds and fuel.\<close>  All definitions are total.  The walk has its three levels, loops that fill a
  buffer are bounded by it, copies by their length.  The only fuel is the depth \<open>FP_DEPTH = 4\<close> of the
  mutual recursion of \<open>_ftoa\<close> and \<open>_etoa\<close>; it is enough for every \<open>double\<close> and every precision up to 36
  (\<open>Printf_Exp\<close>).

  \<^bold>\<open>Hypotheses on code outside the sources\<close> are stated where they are used: that \<open>munmap\<close> and the
  mappings succeed, that the bytes at the program counter encode the instruction that trapped, that
  the kernel image is readable where it was mapped, that new descriptors are free.  Each theorem that has
  one comes with a witness at a concrete environment.

  \<^bold>\<open>Not modelled:\<close> the final jumps and the switch of the stack pointer, which are assembly; the declarations of \<^verbatim>\<open>printf.h\<close>; build and link scripts, and the two
  instructions of \<^verbatim>\<open>test-kernel/entry.S\<close>.
\<close>

section \<open>From the command line to the guest\<close>

text \<open>
  The whole program: the loader, then the stub it jumps to, with the configuration file the
  loader wrote.  \<open>L\<close> is the system as the loader sees it and \<open>E\<close> as the stub sees it; \<open>g\<close> are
  the registers at the jump.
\<close>

definition launch ::
  "libc \<Rightarrow> env \<Rightarrow> sock_filter list \<Rightarrow> u64 \<Rightarrow> (nat \<Rightarrow> u64) \<Rightarrow> string list \<Rightarrow> loader \<Rightarrow> (boot, unit) outcome" where
  "launch L E filt hw g argv s =
     (let start = (\<lambda>s. \<lparr>trace = [], priv = config s, gregs = g, stored = (\<lambda>_. None)\<rparr>)
      in case main L argv s of Ok a s' \<Rightarrow> entrypoint E filt hw (start s') | Stop e s' \<Rightarrow> Stop e (start s'))"


lemma entrypoint_reaches:
  assumes "\<forall>t. \<not> is_err (sysret E (t @ [conf_call]))"
  shows "\<exists>sp u t. entrypoint E filt hw s = entrypoint_1 E filt hw sp (sysret E (u @ [conf_call]))
      (s\<lparr>trace := t, priv := (priv s)\<lparr>stub_size := stub_size (priv s) + 4096\<rparr>\<rparr>)"
proof -
  have "\<not> is_err (sysret E (t @ [conf_call]))" for t using assms by blast
  from this [of "trace s"] this [of "trace s @ [a, b, conf_call, c, d, e]" for a b c d e]
    this [of "trace s @ [a, b, c]" for a b c]  this [of "trace s @ [a, b, c, d, e, f, g]" for a b c d e f g]
  show ?thesis
    by (simp add: entrypoint_def map_conf_def deref_apply Let_def conf_call_def [symmetric] SIGSTACK_SIZE_def)
      (metis append.assoc append_Cons append_Nil)
qed

text \<open>The start of the stub leaves the whole RAM mapped.\<close>

lemma start_keeps_ram:
  assumes "ram_view m0 E t0 b" and "\<forall>t. sysret E (t @ [ram_call]) = RAM_START"
    and "\<forall>x. in_ram x \<longrightarrow> \<not> in_range kern ((kernel_size p + 4095) AND NOT 4095) x" and "in_ram x"
  shows "mapped_at m0 E (t @ start_calls hw sp (sysret E (u @ [conf_call])) kern p) x"
proof -
  let ?c = "sysret E (u @ [conf_call])" and ?pg = "(kernel_size p + 4095) AND NOT 4095"
  let ?t = "t @ setup_calls hw sp @ [kernel_call (kernel_size p), Ecall SYS_riscv_flush_icache [Reg 0, Reg 0, Reg 0],
     Ecall SYS_prctl [Reg 38, Reg 1, Reg 0, Reg 0, Reg 0], filter_call p]"
  have t: "\<exists>u. t @ setup_calls hw sp = u @ [ram_call]" by (simp add: setup_calls_def Let_def)
  then have "sysret E (t @ setup_calls hw sp) = RAM_START" using assms(2) by metis
  then have "mapped_at m0 E (t @ setup_calls hw sp) x"
    using assms(4) t mapped_mmap
    by (auto simp: ram_call_def Let_def is_err_def riscv_const)
  then have "mapped_at m0 E ?t x"
    by (simp add: mapped_at_def kernel_call_def filter_call_def)
  moreover have "sysret E (v @ [Ecall SYS_munmap [Reg a, Reg l]]) = 0" for v a l
    using assms(1) unfolding ram_view_def by blast
  ultimately have "mapped_at m0 E (?t @ [Ecall SYS_munmap [Reg kern, Reg ?pg]]) x"
    using mm.unmapped assms(3,4) by blast
  then have "mapped_at m0 E ((?t @ [Ecall SYS_munmap [Reg kern, Reg ?pg]]) @ [Ecall SYS_munmap [Reg ?c, Reg CONF_SIZE]]) x"
    using mapped_conf(2) [OF assms(1,4)] by blast
  then show ?thesis
    by (simp add: start_calls_def mapped_at_def log_call_def Let_def)
qed

text \<open>What both properties below rest on: the launch succeeds, and its state at the jump.\<close>

lemma launch_runs:
  assumes "length argv = 4" and "ltrace s = []"
    and "\<forall>t p n q m fd. \<not> is_err (lret L (t @ [LMmap p n q m fd 0]))"
    and "\<forall>a s'. main L argv s = Ok a s' \<longrightarrow> orderly (os_after v L) L [] (ltrace s')"
    and "\<forall>t. \<not> is_err (sysret E (t @ [conf_call]))"
    and "image_mapped E kern img n" and "n = unat (fsize v (Named (argv ! 2)))" and "n \<le> 0xe00000"
    and "length filt = 32" and "\<forall>t p. \<not> (ucast (sysret E (t @ [filter_call p])) :: u32) <s 0"
  shows "\<exists>a l c s' timer t sp u. main L argv s = Ok a l \<and> launch L E filt hw g argv s = Ok () s'
    \<and> c = (config s)\<lparr>stub_start := a, stub_size := page_up (fsize v (Named (argv ! 1))) + 4096,
         kernel_size := fsize v (Named (argv ! 2))\<rparr>
    \<and> stored s' = with_kernel img 0 n Map.empty
    \<and> gregs s' 0 = 0x80200000 \<and> priv s' = guest_start timer c
    \<and> trace s' = t @ start_calls hw sp (sysret E (u @ [conf_call])) kern c"
proof -
  obtain a l where l: "main L argv s = Ok a l"
    and c: "config l = (config s)\<lparr>stub_start := a, stub_size := page_up (fsize v (Named (argv ! 1))),
         kernel_size := fsize v (Named (argv ! 2))\<rparr>"
    using main_reaches [OF assms(1-3), of v] assms(4) by blast
  let ?s = "\<lparr>trace = [], priv = config l, gregs = g, stored = (\<lambda>_. None)\<rparr>"
  obtain sp u t where e: "entrypoint E filt hw ?s = entrypoint_1 E filt hw sp (sysret E (u @ [conf_call]))
      (?s\<lparr>trace := t, priv := (priv ?s)\<lparr>stub_size := stub_size (priv ?s) + 4096\<rparr>\<rparr>)"
    using entrypoint_reaches [OF assms(5), of filt hw ?s] by blast
  define s1 where "s1 = ?s\<lparr>trace := t, priv := (priv ?s)\<lparr>stub_size := stub_size (priv ?s) + 4096\<rparr>\<rparr>"
  then have s1: "stored s1 = (\<lambda>_. None)" "priv s1 = (config s)\<lparr>stub_start := a,
         stub_size := page_up (fsize v (Named (argv ! 1))) + 4096, kernel_size := fsize v (Named (argv ! 2))\<rparr>"
      "trace s1 = t"
    and launch: "launch L E filt hw g argv s = entrypoint_1 E filt hw sp (sysret E (u @ [conf_call])) s1"
    using e by (simp_all add: launch_def l c Let_def)
  have n: "n = unat (kernel_size (priv s1))" using assms(7) by (simp add: s1)
  have conf: "\<not> is_err (sysret E (u @ [conf_call]))" using assms(5) by blast
  show ?thesis
    using entrypoint_1_starts [OF assms(6) n assms(8,9) conf, of hw sp] assms(10) l
    unfolding launch s1 with_kernel_def [abs_def] by simp blast
qed
section \<open>Properties\<close>

text \<open>
  C2: the program starts the guest, and the guest stays well-formed.  If the system grants the
  calls of the loader and the stub, the kernel image has at most 14 MiB and the configuration
  file starts out without a pending removal, then the command line leads to the first
  instruction of the guest kernel at \<open>0x80200000\<close>, with exactly the bytes of the image file stored
  in RAM; and in every state that the virtual machine reaches from there, by native steps and
  signals in any order, the privileged state is well-formed and the stub still has the address
  and the size (with its signal stack) that the loader gave it.
\<close>

theorem launch_reaches_guest:
  assumes "length argv = 4" and "ltrace s = []"
    and "\<forall>t p n q m fd. \<not> is_err (lret L (t @ [LMmap p n q m fd 0]))"
    and "\<forall>a s'. main L argv s = Ok a s' \<longrightarrow> orderly (os_after v L) L [] (ltrace s')"
    and "\<forall>t. \<not> is_err (sysret E (t @ [conf_call]))"
    and "image_mapped E kern img n" and "n = unat (fsize v (Named (argv ! 2)))" and "n \<le> 0xe00000"
    and "length filt = 32" and "\<forall>t p. \<not> (ucast (sysret E (t @ [filter_call p])) :: u32) <s 0"
    and "\<not> should_clear_vm (config s)"
  shows "\<exists>a l s'. main L argv s = Ok a l \<and> launch L E filt hw g argv s = Ok () s'
    \<and> stored s' = with_kernel img 0 n Map.empty
    \<and> gregs s' 0 = 0x80200000
    \<and> (\<forall>m. reachable E (machine.truncate s') m \<longrightarrow> priv_inv (priv m) \<and> \<not> should_clear_vm (priv m)
        \<and> stub_start (priv m) = a \<and> stub_size (priv m) = page_up (fsize v (Named (argv ! 1))) + 4096)"
proof -
  obtain a l c s' timer where s': "main L argv s = Ok a l" "launch L E filt hw g argv s = Ok () s'"
      "stored s' = with_kernel img 0 n Map.empty"
      "gregs s' 0 = 0x80200000" "priv s' = guest_start timer c"
    and c: "c = (config s)\<lparr>stub_start := a, stub_size := page_up (fsize v (Named (argv ! 1))) + 4096,
         kernel_size := fsize v (Named (argv ! 2))\<rparr>"
    using launch_runs [OF assms(1-10), of hw g] by blast
  have "priv_inv (priv m) \<and> \<not> should_clear_vm (priv m)
        \<and> stub_start (priv m) = a \<and> stub_size (priv m) = page_up (fsize v (Named (argv ! 1))) + 4096"
    if "reachable E (machine.truncate s') m" for m
    using reachable_inv [OF that] assms(11) by (simp add: machine.defs s'(5) c guest_start_facts config_of_def)
  then show ?thesis using s'(1-4) by blast
qed

text \<open>A kernel for the stub that maps what it is asked to and shows the image where it maps it.\<close>

lemma sample_launch:
  "length sample_argv = 4" "ltrace sample_loader = []" "\<not> should_clear_vm (config sample_loader)"
  "\<forall>t p n q m fd. \<not> is_err (lret sample_libc (t @ [LMmap p n q m fd 0]))"
  "\<forall>a s'. main sample_libc sample_argv sample_loader = Ok a s' \<longrightarrow>
      orderly (os_after sample_os sample_libc) sample_libc [] (ltrace s')"
  by (simp_all add: sample_argv_def [abs_def] is_err_def sample_main [unfolded sample_argv_def] sample_orderly)
    (simp_all add: sample_loader_def sample_priv_def initialize_priv_def Let_def)

theorem launch_reaches_guest_witness:
  "\<exists>s'. launch sample_libc boot_env (replicate 32 load_low) 0x3000000100 (\<lambda>_. 0) sample_argv sample_loader = Ok () s'
     \<and> gregs s' 0 = 0x80200000 \<and> stored s' 0x80200000 = Some 0x13 \<and> stored s' 0x80204000 = None
     \<and> reachable boot_env (machine.truncate s') (machine.truncate s') \<and> stub_size (priv s') = 0x3000"
proof -
  have n: "(0x4000 :: nat) = unat (fsize sample_os (Named (sample_argv ! 2)))" "(0x4000 :: nat) \<le> 0xe00000"
    by (simp_all add: sample_os_def sample_argv_def)
  have e: "\<forall>t. \<not> is_err (sysret boot_env (t @ [conf_call]))"
    "\<forall>t p. \<not> (ucast (sysret boot_env (t @ [filter_call p])) :: u32) <s 0"
    by (simp_all add: is_err_def boot_env_def word_sless_alt)
  have "page_up (fsize sample_os (Named (sample_argv ! 1))) + 4096 = 0x3000"
    by (simp add: sample_os_def sample_argv_def page_up_def)
  with launch_reaches_guest [OF sample_launch(1,2,4,5) e(1) boot_facts(1) n boot_facts(3) e(2) sample_launch(3),
      of "0x3000000100" "\<lambda>_. 0"]
  show ?thesis by (fastforce simp: machine.defs with_kernel_def intro: start)
qed

text \<open>
  C16: the test guest does not survive on the stub.  If RAM is mapped where the stub asks for it, the
  image file lies elsewhere, the system shows the code of the guest (the bytes stored at \<open>C\<close>) where RAM is
  mapped and nothing where it is not, and the image holds the system instructions of \<open>kernel_main\<close>, then the
  command line leads through \<open>kernel_main\<close> to \<open>umode\<close> in user mode; but the return to user mode has unmapped
  the RAM, and the page fault of the first fetch, without translation, ends the process.
\<close>

theorem test_kernel_launched:
  assumes "length argv = 4" and "ltrace s = []"
    and "\<forall>t p n q m fd. \<not> is_err (lret L (t @ [LMmap p n q m fd 0]))"
    and "\<forall>a s'. main L argv s = Ok a s' \<longrightarrow> orderly (os_after v L) L [] (ltrace s')"
    and "\<forall>t. \<not> is_err (sysret E (t @ [conf_call]))"
    and "image_mapped E kern img n" and "n = unat (fsize v (Named (argv ! 2)))" and "n \<le> 0xe00000"
    and "length filt = 32" and "\<forall>t p. \<not> (ucast (sysret E (t @ [filter_call p])) :: u32) <s 0"
    and "\<not> should_clear_vm (config s)" and "\<forall>t. sysret E (t @ [ram_call]) = RAM_START"
    and "\<forall>x. in_ram x \<longrightarrow> \<not> in_range kern ((of_nat n + 4095) AND NOT 4095) x"
    and "\<forall>s'. launch L E filt hw g argv s = Ok () s' \<longrightarrow> ram_view m0 E (trace s') (stored s' |` C)"
    and "\<forall>a l. main L argv s = Ok a l \<longrightarrow> 0x81000000 \<le> unat a
         \<and> unat a + unat (page_up (fsize v (Named (argv ! 1))) + 4096) \<le> 2 ^ 38"
    and "sited_vm (with_kernel img 0 n Map.empty |` C) ks (kernel_main tv um)" and "in_ram (unat um)"
  shows "\<exists>s' m m'. launch L E filt hw g argv s = Ok () s'
    \<and> run_vm E ks (kernel_main tv um) (machine.truncate s') = Ok () m \<and> priv_mode (priv m) = PRIV_U \<and> gregs m 0 = um
    \<and> gmem E (trace m) um = None \<and> handler E SIGSEGV (fetch_fault um) m = Stop Ebreak m'
    \<and> last (trace m') = log_call ''someone turned off translation''"
proof -
  obtain a l c s' timer t sp u where s': "main L argv s = Ok a l" "launch L E filt hw g argv s = Ok () s'"
      "priv s' = guest_start timer c" "stored s' = with_kernel img 0 n Map.empty" "trace s' = t @ start_calls hw sp (sysret E (u @ [conf_call])) kern c"
    and c: "c = (config s)\<lparr>stub_start := a, stub_size := page_up (fsize v (Named (argv ! 1))) + 4096,
         kernel_size := fsize v (Named (argv ! 2))\<rparr>"
    using launch_runs [OF assms(1-10), of hw g] by blast
  let ?m = "machine.truncate s'"
  have m: "priv ?m = guest_start timer c" "trace ?m = trace s'"
    by (simp_all add: machine.defs s'(3))
  have v: "ram_view m0 E (trace s') (with_kernel img 0 n Map.empty |` C)" using assms(14) s'(2,4) by metis
  have "of_nat n = kernel_size c" using assms(7) by (simp add: c)
  then have "\<forall>x. in_ram x \<longrightarrow> mapped_at m0 E (trace ?m) x"
    using start_keeps_ram [OF v assms(12)] assms(13) unfolding m s'(5) by simp
  then have "bare_kernel m0 E (trace s') (config_of (guest_start timer c)) ?m"
    using assms(11) by (simp add: bare_kernel_def m guest_inv_def guest_start_facts)
      (simp add: c guest_start_def initialize_priv_def Let_def)
  then show ?thesis
    using test_kernel_dies [OF v _ assms(16,17)] assms(15) s'(1,2) by (auto simp: m guest_start_facts c)
qed

text \<open>
  A kernel that puts RAM at its place and every other mapping at one address, where it shows the
  image file, and that replays the mappings of RAM, with the code of \<open>kernel_main\<close>.
\<close>

definition launch_image :: "nat \<Rightarrow> u8" where
  "launch_image j = (if j < 16 then [0x73, 0x30, 0x05, 0x10, 0x73, 0x10, 0x55, 0x10, 0x73, 0x10, 0x15, 0x14,
     0x73, 0x00, 0x20, 0x10] ! j else 0)"

definition place_env :: env where
  "place_env = idle_env\<lparr>sysret := (\<lambda>t. case last t of Ecall n as \<Rightarrow>
     if n = SYS_munmap then 0 else if Ecall n as = ram_call then RAM_START else 0x2000000000)\<rparr>"

definition launch_env :: env where
  "launch_env = place_env\<lparr>gmem := (\<lambda>t a.
     if in_ram (unat a) then if mapped_at (\<lambda>_. False) place_env t (unat a) then Some (launch_image (unat (a - 0x80200000))) else None
     else Some (launch_image (unat (a - 0x2000000000))))\<rparr>"

lemma launch_env_calls:
  "sysret launch_env (t @ [ram_call]) = RAM_START" "sysret launch_env (t @ [conf_call]) = 0x2000000000"
  "sysret launch_env (t @ [kernel_call n]) = 0x2000000000" "sysret launch_env (t @ [filter_call p]) = 0x2000000000"
  "sysret launch_env (t @ [Ecall SYS_munmap [Reg a, Reg l]]) = 0"
  by (simp_all add: launch_env_def place_env_def ram_call_def conf_call_def kernel_call_def filter_call_def riscv_const)

lemma launch_view: "ram_view (\<lambda>_. False) launch_env t0 (with_kernel launch_image 0 n Map.empty |` C)"
proof -
  have "mapped_at m0 launch_env t x = mapped_at m0 place_env t x" for m0 t x
    using mapped_rev_cong [of launch_env place_env] by (simp add: mapped_at_def launch_env_def)
  moreover have "unat a - 0x80200000 = unat (a - 0x80200000)" if "0x80200000 \<le> unat a" for a :: u64
    using that by (simp add: unat_sub_if')
  ultimately show ?thesis
    by (simp add: ram_view_def launch_env_calls is_err_def)
      (simp add: launch_env_def CONF_SIZE_def with_kernel_def restrict_map_def)
qed

lemma launch_image_mapped: "image_mapped launch_env 0x2000000000 launch_image 0x4000"
proof -
  have "gmem launch_env t (0x2000000000 + of_nat j) = Some (launch_image j)" if "j < 0x4000" for t j
  proof -
    have "unat (0x2000000000 + of_nat j :: u64) = 0x2000000000 + j"
      using that by (simp add: unat_word_ariths unsigned_of_nat take_bit_nat_eq_self)
    moreover have "unat (of_nat j :: u64) = j" using that by (simp add: unsigned_of_nat take_bit_nat_eq_self)
    ultimately show ?thesis by (simp add: launch_env_def)
  qed
  then show ?thesis by (simp add: image_mapped_def launch_env_calls is_err_def riscv_const)
qed

lemma launch_sited: "sited_vm (with_kernel launch_image 0 0x4000 Map.empty |` UNIV) main_sites (kernel_main 0x80200100 0x80200200)"
  by (simp add: sited_vm_def main_sites_def sample_site_def kernel_main_def read32_def read16_def with_kernel_def
      launch_image_def enc_def)

theorem test_kernel_launched_witness:
  "\<exists>s' m m'. launch sample_libc launch_env (replicate 32 load_low) 0x3000000100 (\<lambda>_. 0) sample_argv sample_loader = Ok () s'
     \<and> run_vm launch_env main_sites (kernel_main 0x80200100 0x80200200) (machine.truncate s') = Ok () m
     \<and> gregs m 0 = 0x80200200 \<and> handler launch_env SIGSEGV (fetch_fault 0x80200200) m = Stop Ebreak m'"
proof -
  have n: "(0x4000 :: nat) = unat (fsize sample_os (Named (sample_argv ! 2)))" "(0x4000 :: nat) \<le> 0xe00000"
    by (simp_all add: sample_os_def sample_argv_def)
  have e: "\<forall>t. \<not> is_err (sysret launch_env (t @ [conf_call]))"
    "\<forall>t p. \<not> (ucast (sysret launch_env (t @ [filter_call p])) :: u32) <s 0"
    "\<forall>t. sysret launch_env (t @ [ram_call]) = RAM_START"
    "\<forall>x. in_ram x \<longrightarrow> \<not> in_range 0x2000000000 ((of_nat 0x4000 + 4095) AND NOT 4095) x"
    by (simp_all add: launch_env_calls is_err_def word_sless_alt)
  have a: "\<forall>a l. main sample_libc sample_argv sample_loader = Ok a l \<longrightarrow> 0x81000000 \<le> unat a
         \<and> unat a + unat (page_up (fsize sample_os (Named (sample_argv ! 1))) + 4096) \<le> 2 ^ 38"
    by (simp add: sample_main) (simp add: sample_os_def sample_argv_def page_up_def)
  note h = sample_launch(1,2,4,5) e(1) launch_image_mapped n boot_facts(3) e(2)
  obtain s' where "launch sample_libc launch_env (replicate 32 load_low) 0x3000000100 (\<lambda>_. 0) sample_argv sample_loader = Ok () s'"
      "stored s' = with_kernel launch_image 0 0x4000 Map.empty"
    using launch_runs [OF h, of "0x3000000100" "\<lambda>_. 0"] by blast
  then have v: "\<forall>s'. launch sample_libc launch_env (replicate 32 load_low) 0x3000000100 (\<lambda>_. 0) sample_argv sample_loader = Ok () s'
      \<longrightarrow> ram_view (\<lambda>_. False) launch_env (trace s') (stored s' |` UNIV)"
    using launch_view by simp
  show ?thesis
    using test_kernel_launched [OF h sample_launch(3) e(3,4) v a launch_sited] by auto
qed

end
